(* ===== verification/Pg_Prelude.thy ===== *)
theory Pg_Prelude
  imports Main "HOL-Library.Word"
begin

text \<open>
  Shared vocabulary of the development: the machine integers of the Rust sources as words, the
  checked and saturating arithmetic of the Rust standard library, byte strings with their
  little- and big-endian encodings, and the lemma collections the component theories use.

  Every arithmetic operation has a transfer lemma in the collection \<open>word_nat\<close>, which says
  what the operation does on the natural number the word stands for; the component proofs move
  to \<open>nat\<close> with \<open>simp add: word_nat\<close> and finish there.
\<close>

section \<open>Machine integers\<close>

type_synonym u8 = "8 word"
type_synonym u32 = "32 word"
type_synonym u64 = "64 word"
type_synonym u128 = "128 word"
type_synonym i8 = "8 word"
type_synonym i128 = "128 word"
type_synonym bytes = "u8 list"

named_theorems word_nat "the natural number a word operation stands for"

definition sat_add :: "'a::len word \<Rightarrow> 'a word \<Rightarrow> 'a word" where
  "sat_add a b = (if unat a + unat b < 2 ^ LENGTH('a) then a + b else - 1)"

definition sat_sub :: "'a::len word \<Rightarrow> 'a word \<Rightarrow> 'a word" where
  "sat_sub a b = (if b \<le> a then a - b else 0)"

definition sat_mul :: "'a::len word \<Rightarrow> 'a word \<Rightarrow> 'a word" where
  "sat_mul a b = (if unat a * unat b < 2 ^ LENGTH('a) then a * b else - 1)"

definition checked_add :: "'a::len word \<Rightarrow> 'a word \<Rightarrow> 'a word option" where
  "checked_add a b = (if unat a + unat b < 2 ^ LENGTH('a) then Some (a + b) else None)"

text \<open>
  \<open>Ord::clamp\<close> asserts that the lower bound is not above the upper one and panics otherwise;
  \<open>None\<close> is the panic.
\<close>

definition clamp_word :: "'a::len word \<Rightarrow> 'a word \<Rightarrow> 'a word \<Rightarrow> 'a word option" where
  "clamp_word x lo hi =
     (if lo \<le> hi then Some (if x < lo then lo else if hi < x then hi else x) else None)"

lemma unat_all_ones [word_nat]: "unat (- 1 :: 'a::len word) = 2 ^ LENGTH('a) - 1"
  by (simp add: unsigned_minus_1_eq_mask mask_eq_exp_minus_1)

lemma unat_sat_add [word_nat]:
  "unat (sat_add a b) = min (unat a + unat b) (2 ^ LENGTH('a) - 1)" for a b :: "'a::len word"
  by (auto simp: sat_add_def word_nat unat_word_ariths)

lemma unat_sat_sub [word_nat]: "unat (sat_sub a b) = unat a - unat b"
  by (auto simp: sat_sub_def unat_sub word_le_nat_alt)

lemma unat_sat_mul [word_nat]:
  "unat (sat_mul a b) = min (unat a * unat b) (2 ^ LENGTH('a) - 1)" for a b :: "'a::len word"
  by (auto simp: sat_mul_def word_nat unat_word_ariths)

lemma checked_add_Some_iff:
  "checked_add a b = Some c \<longleftrightarrow> unat a + unat b < 2 ^ LENGTH('a) \<and> c = a + b"
  for a b c :: "'a::len word"
  by (auto simp: checked_add_def)

lemma checked_add_Some_unat:
  "checked_add a b = Some c \<Longrightarrow> unat c = unat a + unat b"
  by (auto simp: checked_add_def unat_word_ariths split: if_splits)

lemma unat_min [word_nat]: "unat (min a b) = min (unat a) (unat b)"
  by (simp add: min_def word_le_nat_alt)

lemma unat_max [word_nat]: "unat (max a b) = max (unat a) (unat b)"
  by (simp add: max_def word_le_nat_alt)

lemma unat_word_div [word_nat]: "unat (a div b) = unat a div unat b"
  by (simp add: unat_div)

lemma unat_sub_le [word_nat]: "b \<le> a \<Longrightarrow> unat (a - b) = unat a - unat b"
  by (simp add: unat_sub)

lemma unat_shiftr [word_nat]: "unat (drop_bit n a) = unat a div 2 ^ n"
  by (metis drop_bit_eq_div take_bit_nat_eq_self unsigned_less unsigned_drop_bit_eq)

lemma unat_suc_below:
  fixes a b :: "'a::len word"
  assumes "a < b"
  shows "unat (a + 1) = Suc (unat a)"
proof -
  have "unat a < unat b" using assms by (simp add: word_less_nat_alt)
  moreover have "unat b < 2 ^ LENGTH('a)" by (rule unsigned_less)
  ultimately have "Suc (unat a) < 2 ^ LENGTH('a)" by linarith
  then have "unat a + unat (1 :: 'a word) < 2 ^ LENGTH('a)" by simp
  then show ?thesis using unat_add_lem [of a 1] by simp
qed

lemma clamp_word_Some_iff:
  "clamp_word x lo hi = Some y \<longleftrightarrow>
     lo \<le> hi \<and> y = (if x < lo then lo else if hi < x then hi else x)"
  by (auto simp: clamp_word_def)

lemma clamp_word_SomeD:
  assumes "clamp_word x lo hi = Some y"
  shows "lo \<le> y" "y \<le> hi" "unat y = max (unat lo) (min (unat hi) (unat x))"
  using assms by (auto simp: clamp_word_def word_less_nat_alt word_le_nat_alt split: if_splits)

lemmas word_order_nat = word_less_nat_alt word_le_nat_alt

section \<open>Results\<close>

text \<open>The \<open>?\<close> operator on a \<open>Result\<close>: an error returns early.\<close>

definition bind_sum :: "'e + 'a \<Rightarrow> ('a \<Rightarrow> 'e + 'b) \<Rightarrow> 'e + 'b" where
  "bind_sum r k = (case r of Inl e \<Rightarrow> Inl e | Inr x \<Rightarrow> k x)"

section \<open>Byte strings\<close>

fun nat_le :: "nat \<Rightarrow> nat \<Rightarrow> bytes" where
  "nat_le 0 v = []"
| "nat_le (Suc k) v = of_nat v # nat_le k (v div 256)"

fun le_nat :: "bytes \<Rightarrow> nat" where
  "le_nat [] = 0"
| "le_nat (b # bs) = unat b + 256 * le_nat bs"

definition be_nat :: "bytes \<Rightarrow> nat" where
  "be_nat bs = le_nat (rev bs)"

definition nat_be :: "nat \<Rightarrow> nat \<Rightarrow> bytes" where
  "nat_be k v = rev (nat_le k v)"

text \<open>\<open>to_le_bytes\<close>, \<open>to_be_bytes\<close> and their inverses on the integer types.\<close>

definition to_le :: "'a::len word \<Rightarrow> bytes" where
  "to_le w = nat_le (LENGTH('a) div 8) (unat w)"

definition to_be :: "'a::len word \<Rightarrow> bytes" where
  "to_be w = nat_be (LENGTH('a) div 8) (unat w)"

definition from_le :: "bytes \<Rightarrow> 'a::len word" where
  "from_le bs = of_nat (le_nat bs)"

definition from_be :: "bytes \<Rightarrow> 'a::len word" where
  "from_be bs = of_nat (be_nat bs)"

text \<open>A length as the \<open>u32\<close> the sources hash or write: \<open>len() as u32\<close> truncates.\<close>

definition len32 :: "'a list \<Rightarrow> bytes" where
  "len32 xs = to_le (of_nat (length xs) :: u32)"

text \<open>A byte-string literal \<open>b"..."\<close>.\<close>

definition str_bytes :: "string \<Rightarrow> bytes" where
  "str_bytes s = map (\<lambda>c. of_nat (of_char c)) s"

lemma length_nat_le [simp]: "length (nat_le k v) = k"
  by (induction k arbitrary: v) auto

lemma length_nat_be [simp]: "length (nat_be k v) = k"
  by (simp add: nat_be_def)

lemma length_to_le [simp]: "length (to_le (w :: 'a::len word)) = LENGTH('a) div 8"
  by (simp add: to_le_def)

lemma length_to_be [simp]: "length (to_be (w :: 'a::len word)) = LENGTH('a) div 8"
  by (simp add: to_be_def)

lemma length_len32 [simp]: "length (len32 xs) = 4"
  by (simp add: len32_def)

lemma length_str_bytes [simp]: "length (str_bytes s) = length s"
  by (simp add: str_bytes_def)

lemma le_nat_bound: "le_nat bs < 256 ^ length bs"
proof (induction bs)
  case (Cons b bs)
  have "unat b < 256" using unsigned_less [of b] by simp
  with Cons show ?case by simp
qed simp

lemma le_nat_nat_le: "le_nat (nat_le k v) = v mod 256 ^ k"
proof (induction k arbitrary: v)
  case (Suc k)
  have "le_nat (nat_le (Suc k) v) = v mod 256 + 256 * (v div 256 mod 256 ^ k)"
    by (simp add: Suc unat_of_nat)
  also have "\<dots> = v mod (256 * 256 ^ k)"
    by (simp add: mod_mult2_eq)
  finally show ?case by simp
qed simp

lemma nat_le_le_nat: "length bs = k \<Longrightarrow> nat_le k (le_nat bs) = bs"
proof (induction bs arbitrary: k)
  case (Cons b bs)
  have "unat b < 256" using unsigned_less [of b] by simp
  then have "(unat b + 256 * le_nat bs) div 256 = le_nat bs" by simp
  moreover have z: "(256 :: u8) = 0" by simp
  have "of_nat (unat b + 256 * le_nat bs) = b" by (simp add: z)
  ultimately show ?case using Cons by auto
qed simp

lemma le_nat_append: "le_nat (xs @ ys) = le_nat xs + 256 ^ length xs * le_nat ys"
  by (induction xs) (auto simp: algebra_simps)

lemma le_nat_inj: "length xs = length ys \<Longrightarrow> le_nat xs = le_nat ys \<Longrightarrow> xs = ys"
  by (metis nat_le_le_nat)

lemma be_nat_Nil [simp]: "be_nat [] = 0"
  by (simp add: be_nat_def)

lemma be_nat_Cons: "be_nat (b # bs) = unat b * 256 ^ length bs + be_nat bs"
  by (simp add: be_nat_def le_nat_append)

lemma be_nat_append: "be_nat (xs @ ys) = be_nat xs * 256 ^ length ys + be_nat ys"
  by (simp add: be_nat_def le_nat_append)

lemma be_nat_bound: "be_nat bs < 256 ^ length bs"
  using le_nat_bound [of "rev bs"] by (simp add: be_nat_def)

lemma be_nat_inj: "length xs = length ys \<Longrightarrow> be_nat xs = be_nat ys \<Longrightarrow> xs = ys"
  using le_nat_inj [of "rev xs" "rev ys"] by (simp add: be_nat_def)

lemma be_nat_nat_be: "be_nat (nat_be k v) = v mod 256 ^ k"
  by (simp add: be_nat_def nat_be_def le_nat_nat_le)

lemma nat_be_be_nat: "length bs = k \<Longrightarrow> nat_be k (be_nat bs) = bs"
  by (simp add: be_nat_def nat_be_def nat_le_le_nat)

lemma be_nat_replicate_0 [simp]: "be_nat (replicate n 0) = 0"
  by (induction n) (simp_all add: be_nat_Cons)

lemma exp_256_word:
  assumes "8 dvd LENGTH('a::len)"
  shows "(256::nat) ^ (LENGTH('a) div 8) = 2 ^ LENGTH('a)"
proof -
  have "(256::nat) ^ (LENGTH('a) div 8) = (2 ^ 8) ^ (LENGTH('a) div 8)" by simp
  also have "\<dots> = 2 ^ LENGTH('a)" using assms by (simp only: power_mult [symmetric] dvd_mult_div_cancel)
  finally show ?thesis .
qed

lemma le_nat_to_le:
  "8 dvd LENGTH('a::len) \<Longrightarrow> le_nat (to_le (w :: 'a word)) = unat w"
  by (simp add: to_le_def le_nat_nat_le exp_256_word)

lemma be_nat_to_be:
  "8 dvd LENGTH('a::len) \<Longrightarrow> be_nat (to_be (w :: 'a word)) = unat w"
  by (simp add: to_be_def be_nat_nat_be exp_256_word)

lemma from_le_to_le [simp]: "8 dvd LENGTH('a::len) \<Longrightarrow> from_le (to_le (w :: 'a word)) = w"
  by (simp add: from_le_def le_nat_to_le)

lemma from_be_to_be [simp]: "8 dvd LENGTH('a::len) \<Longrightarrow> from_be (to_be (w :: 'a word)) = w"
  by (simp add: from_be_def be_nat_to_be)

lemma to_le_inj [simp]: "8 dvd LENGTH('a::len) \<Longrightarrow> to_le (v :: 'a word) = to_le w \<longleftrightarrow> v = w"
  by (metis from_le_to_le)

lemma to_be_inj [simp]: "8 dvd LENGTH('a::len) \<Longrightarrow> to_be (v :: 'a word) = to_be w \<longleftrightarrow> v = w"
  by (metis from_be_to_be)

lemma be_nat_from_be:
  "8 * length bs \<le> LENGTH('a::len) \<Longrightarrow> unat (from_be bs :: 'a word) = be_nat bs"
proof -
  assume le: "8 * length bs \<le> LENGTH('a)"
  have "be_nat bs < 256 ^ length bs" by (rule be_nat_bound)
  also have "(256::nat) ^ length bs = 2 ^ (8 * length bs)" by (simp add: power_mult)
  also have "\<dots> \<le> 2 ^ LENGTH('a)" using le by simp
  finally show ?thesis by (simp add: from_be_def unat_of_nat)
qed

text \<open>Comparing two numbers digit by digit.\<close>

lemma radix_less:
  fixes x y m a b :: nat
  assumes "x < y" "a < m"
  shows "x * m + a < y * m + b"
proof -
  from assms(1) have "(x + 1) * m \<le> y * m" by (intro mult_right_mono) auto
  with assms(2) show ?thesis by (simp add: algebra_simps)
qed

lemma len32_inj:
  "length xs < 2 ^ 32 \<Longrightarrow> length ys < 2 ^ 32 \<Longrightarrow> len32 xs = len32 ys \<longleftrightarrow> length xs = length ys"
  by (auto simp: len32_def word_unat_eq_iff unat_of_nat)

text \<open>
  A list prefixed by its 32-bit length can be read back from the front of a longer string: the
  framing lemma behind every injectivity result below.
\<close>

lemma len32_frame_inj:
  assumes "length xs < 2 ^ 32" "length ys < 2 ^ 32"
    and "len32 xs @ xs @ r = len32 ys @ ys @ s"
  shows "xs = ys \<and> r = s"
proof -
  from assms(3) have "len32 xs = len32 ys" and rest: "xs @ r = ys @ s" by auto
  with assms(1,2) have "length xs = length ys" by (simp add: len32_inj)
  with rest show ?thesis by simp
qed

section \<open>Decimal text\<close>

function show_nat :: "nat \<Rightarrow> string" where
  "show_nat n = (if n < 10 then [char_of (48 + n)] else show_nat (n div 10) @ [char_of (48 + n mod 10)])"
  by pat_completeness auto
termination by (relation "measure id") auto

declare show_nat.simps [simp del]

lemma show_nat_0: "show_nat 0 = ''0''"
proof -
  have "char_of (48 :: nat) = CHR ''0''" by code_simp
  then show ?thesis by (simp add: show_nat.simps)
qed

section \<open>Hexadecimal text\<close>

definition hex_digit :: "nat \<Rightarrow> char" where
  "hex_digit d = char_of (if d < 10 then 48 + d else 87 + d)"

function show_hex :: "nat \<Rightarrow> string" where
  "show_hex n = (if n < 16 then [hex_digit n] else show_hex (n div 16) @ [hex_digit (n mod 16)])"
  by pat_completeness auto
termination by (relation "measure id") auto

declare show_hex.simps [simp del]

text \<open>The format \<open>{b:02x}\<close> of a byte.\<close>

definition hex_byte :: "u8 \<Rightarrow> string" where
  "hex_byte b = [hex_digit (unat b div 16), hex_digit (unat b mod 16)]"

text \<open>The ellipsis character, in UTF-8.\<close>

definition ellipsis :: string where
  "ellipsis = [CHR 0xE2, CHR 0x80, CHR 0xA6]"

end
