(* ===== verification/Pg_BTree.thy ===== *)
theory Pg_BTree
  imports Pg_Prelude "HOL-Library.List_Lexorder" "HOL-Library.Product_Lexorder"
begin

text \<open>
  The ordered map of the Rust standard library (\<open>BTreeMap\<close>), which both the in-memory state
  store and the mempool are built on. A map is the list of its entries in key order: that list
  is what \<open>iter()\<close>, \<open>keys()\<close> and \<open>values()\<close> walk. Byte strings, and pairs of a tag and a byte
  string, are ordered lexicographically, as \<open>Ord\<close> orders \<open>Vec<u8>\<close> and tuples.

  The locale \<open>ordered_map\<close> states what a client relies on; it is interpreted on the entry lists.
\<close>

section \<open>Interface\<close>

locale ordered_map =
  fixes ins :: "'k::linorder \<Rightarrow> 'v \<Rightarrow> 'm \<Rightarrow> 'm"
    and del :: "'k \<Rightarrow> 'm \<Rightarrow> 'm"
    and find :: "'m \<Rightarrow> 'k \<Rightarrow> 'v option"
    and entries :: "'m \<Rightarrow> ('k \<times> 'v) list"
    and ok :: "'m \<Rightarrow> bool"
  assumes find_ins: "ok m \<Longrightarrow> find (ins k v m) = (find m)(k \<mapsto> v)"
    and find_del: "ok m \<Longrightarrow> find (del k m) = (find m)(k := None)"
    and ok_ins: "ok m \<Longrightarrow> ok (ins k v m)"
    and ok_del: "ok m \<Longrightarrow> ok (del k m)"
    and entries_sorted: "ok m \<Longrightarrow> sorted_wrt (<) (map fst (entries m))"
    and find_entries: "ok m \<Longrightarrow> find m k = Some v \<longleftrightarrow> (k, v) \<in> set (entries m)"
begin

lemma entries_unique:
  assumes "ok m" "ok m'" "find m = find m'"
  shows "entries m = entries m'"
proof -
  have "e \<in> set (entries m) \<longleftrightarrow> e \<in> set (entries m')" for e
    using find_entries [OF assms(1), of "fst e" "snd e"] find_entries [OF assms(2), of "fst e" "snd e"]
    by (simp add: assms(3))
  then have "set (entries m) = set (entries m')" by blast
  moreover have "sorted (map fst (entries m))" "distinct (map fst (entries m))"
    "sorted (map fst (entries m'))" "distinct (map fst (entries m'))"
    using entries_sorted [OF assms(1)] entries_sorted [OF assms(2)]
    by (auto simp: strict_sorted_iff)
  ultimately show ?thesis
    by (metis map_sorted_distinct_set_unique distinct_map inj_on_Un sup.idem)
qed

lemma ins_del_twice:
  assumes "ok m"
  shows "find (ins k v (ins k w m)) = find (ins k v m)"
    and "find (del k (ins k v m)) = find (del k m)"
  using assms by (simp_all add: find_ins find_del ok_ins)

lemma ins_commute:
  assumes "ok m" "k \<noteq> k'"
  shows "entries (ins k v (ins k' v' m)) = entries (ins k' v' (ins k v m))"
  using assms by (intro entries_unique) (auto simp: find_ins ok_ins fun_upd_twist)

lemma dels_find:
  assumes "ok m"
  shows "ok (fold del ks m) \<and> find (fold del ks m) = (\<lambda>k. if k \<in> set ks then None else find m k)"
  using assms
proof (induction ks arbitrary: m)
  case Nil
  then show ?case by simp
next
  case (Cons a ks)
  then have "ok (del a m)" by (simp add: ok_del)
  from Cons.IH [OF this] Cons.prems show ?case by (auto simp: find_del fun_eq_iff)
qed

end

section \<open>Entry lists\<close>

type_synonym ('k, 'v) btree = "('k \<times> 'v) list"

fun bt_insert :: "'k::linorder \<Rightarrow> 'v \<Rightarrow> ('k, 'v) btree \<Rightarrow> ('k, 'v) btree" where
  "bt_insert k v [] = [(k, v)]"
| "bt_insert k v ((a, b) # m) =
     (if k < a then (k, v) # (a, b) # m
      else if k = a then (k, v) # m
      else (a, b) # bt_insert k v m)"

definition bt_remove :: "'k \<Rightarrow> ('k, 'v) btree \<Rightarrow> ('k, 'v) btree" where
  "bt_remove k m = filter (\<lambda>e. fst e \<noteq> k) m"

definition bt_get :: "('k, 'v) btree \<Rightarrow> 'k \<Rightarrow> 'v option" where
  "bt_get m = map_of m"

definition bt_ok :: "('k::linorder, 'v) btree \<Rightarrow> bool" where
  "bt_ok m = sorted_wrt (<) (map fst m)"

lemma bt_get_insert: "bt_get (bt_insert k v m) = (bt_get m)(k \<mapsto> v)"
  by (induction m) (auto simp: bt_get_def)

lemma bt_get_remove: "bt_get (bt_remove k m) = (bt_get m)(k := None)"
  by (induction m) (auto simp: bt_get_def bt_remove_def)

lemma set_keys_bt_insert: "fst ` set (bt_insert k v m) = insert k (fst ` set m)"
  by (induction k v m rule: bt_insert.induct) (simp_all add: insert_commute)

lemma bt_ok_Nil [simp]: "bt_ok []"
  by (simp add: bt_ok_def)

lemma bt_ok_insert: "bt_ok m \<Longrightarrow> bt_ok (bt_insert k v m)"
proof (induction m)
  case Nil
  then show ?case by (simp add: bt_ok_def)
next
  case (Cons e m)
  obtain a b where e: "e = (a, b)" by (cases e)
  from Cons have "bt_ok (bt_insert k v m)" by (auto simp: bt_ok_def)
  with Cons.prems show ?case
    using set_keys_bt_insert [of k v m] by (auto simp: bt_ok_def e image_iff)
qed

lemma bt_ok_remove: "bt_ok m \<Longrightarrow> bt_ok (bt_remove k m)"
  by (induction m) (auto simp: bt_ok_def bt_remove_def)

lemma bt_ok_distinct: "bt_ok m \<Longrightarrow> distinct (map fst m)"
  by (simp add: bt_ok_def strict_sorted_iff)

lemma bt_get_below: "bt_ok ((a, b) # m) \<Longrightarrow> k < a \<Longrightarrow> bt_get m k = None"
  by (force simp: bt_ok_def bt_get_def map_of_eq_None_iff)

lemma length_bt_insert:
  "bt_ok m \<Longrightarrow>
     length (bt_insert k v m) = (if bt_get m k = None then Suc (length m) else length m)"
proof (induction k v m rule: bt_insert.induct)
  case (2 k v a b m)
  then have "bt_ok m" by (simp add: bt_ok_def)
  with 2 bt_get_below [OF "2.prems", of k] show ?case by (auto simp: bt_get_def)
qed (simp add: bt_get_def)

lemma length_bt_remove_le: "length (bt_remove k m) \<le> length m"
  by (simp add: bt_remove_def)

lemma length_bt_remove:
  assumes "bt_ok m" "bt_get m k = Some v"
  shows "Suc (length (bt_remove k m)) = length m"
  using assms
proof (induction m)
  case Nil
  then show ?case by (simp add: bt_get_def)
next
  case (Cons e m)
  then show ?case
  proof (cases "fst e = k")
    case True
    with Cons.prems have "k \<notin> fst ` set m" by (auto simp: bt_ok_def)
    then have "\<forall>x \<in> set m. fst x \<noteq> k" by auto
    with True have "bt_remove k (e # m) = m" by (simp add: bt_remove_def filter_id_conv)
    then show ?thesis by simp
  next
    case False
    with Cons show ?thesis by (auto simp: bt_ok_def bt_get_def bt_remove_def)
  qed
qed

interpretation bt: ordered_map bt_insert bt_remove bt_get "\<lambda>m. m" bt_ok
proof
  fix m :: "('k::linorder, 'v) btree" and k :: 'k and v :: 'v
  assume ok: "bt_ok m"
  show "bt_get m k = Some v \<longleftrightarrow> (k, v) \<in> set m"
    using bt_ok_distinct [OF ok] by (simp add: bt_get_def)
  show "sorted_wrt (<) (map fst m)"
    using ok by (simp add: bt_ok_def)
qed (simp_all add: bt_get_insert bt_get_remove bt_ok_insert bt_ok_remove)

end
