(* ===== verification/Core_Hash.thy ===== *)
theory Core_Hash
  imports Pg_Prelude
begin

text \<open>
  Domain-tagged hashing and account addresses: \<open>crates/core/src/hash.rs\<close> and
  \<open>crates/core/src/address.rs\<close>.

  The hash functions (blake3, SHAKE256, SHA3-512) and the bech32 codec are third-party code and
  enter as the record \<open>hash_ext\<close> of functions. Feeding a hasher piece by piece is hashing the
  concatenation of the pieces, so a digest is the primitive applied to a byte string, the
  \<^emph>\<open>preimage\<close>, which the model builds exactly as the source does. What the code relies on is the
  output length of the primitives (\<open>hash_ok\<close>) and that bech32 decoding inverts encoding
  (\<open>bech32_ok\<close>).
\<close>

section \<open>External primitives\<close>

record hash_ext =
  blake3 :: "bytes \<Rightarrow> bytes"
  blake3_xof64 :: "bytes \<Rightarrow> bytes"
  shake256_64 :: "bytes \<Rightarrow> bytes"
  sha3_512 :: "bytes \<Rightarrow> bytes"
  bech32m_encode :: "string \<Rightarrow> bytes \<Rightarrow> string option"
  bech32_decode :: "string \<Rightarrow> string + (string \<times> bytes)"

definition hash_ok :: "hash_ext \<Rightarrow> bool" where
  "hash_ok H \<longleftrightarrow>
     (\<forall>bs. length (blake3 H bs) = 32) \<and> (\<forall>bs. length (blake3_xof64 H bs) = 64) \<and>
     (\<forall>bs. length (shake256_64 H bs) = 64) \<and> (\<forall>bs. length (sha3_512 H bs) = 64)"

definition bech32_ok :: "hash_ext \<Rightarrow> bool" where
  "bech32_ok H \<longleftrightarrow>
     (\<forall>hrp data s. bech32m_encode H hrp data = Some s \<longrightarrow> bech32_decode H s = Inr (hrp, data)) \<and>
     (\<forall>data. length data = 20 \<longrightarrow> bech32m_encode H ''pyg'' data \<noteq> None)"

section \<open>Hash algorithms and domain tags\<close>

datatype hash_algo = Blake3Xof512 | Shake256 | Sha3_512

definition hash_algo_from_byte :: "u8 \<Rightarrow> hash_algo option" where
  "hash_algo_from_byte b =
     (if b = 1 then Some Blake3Xof512
      else if b = 2 then Some Shake256
      else if b = 3 then Some Sha3_512
      else None)"

definition domain_tag :: "string \<Rightarrow> bytes" where
  "domain_tag domain = str_bytes ''PG'' @ str_bytes domain @ [0]"

definition hash_with_domain :: "hash_ext \<Rightarrow> hash_algo \<Rightarrow> string \<Rightarrow> bytes \<Rightarrow> bytes" where
  "hash_with_domain H algo domain bs =
     (let tag = domain_tag domain in
      case algo of
        Blake3Xof512 \<Rightarrow> blake3_xof64 H (tag @ bs)
      | Shake256 \<Rightarrow> shake256_64 H (tag @ bs)
      | Sha3_512 \<Rightarrow> sha3_512 H (tag @ bs))"

definition truncate_to_32 :: "bytes \<Rightarrow> bytes" where
  "truncate_to_32 d = take 32 d"

lemma length_hash_with_domain: "hash_ok H \<Longrightarrow> length (hash_with_domain H a d bs) = 64"
  by (cases a) (simp_all add: hash_with_domain_def hash_ok_def)

lemma length_truncate_to_32 [simp]:
  "hash_ok H \<Longrightarrow> length (truncate_to_32 (hash_with_domain H a d bs)) = 32"
  by (simp add: truncate_to_32_def length_hash_with_domain)

text \<open>
  Tags of domains without a NUL character are prefix-free: two tagged messages coincide only if
  both the domain and the message do, so the preimages of different domains never meet.
\<close>

lemma str_bytes_inj: "str_bytes a = str_bytes b \<longleftrightarrow> a = b"
proof
  have inj: "inj (\<lambda>c. of_nat (of_char c) :: u8)"
  proof (rule injI)
    fix c d :: char
    assume "(of_nat (of_char c) :: u8) = of_nat (of_char d)"
    then have "(of_char c :: nat) mod 256 = of_char d mod 256"
      by (simp add: word_unat_eq_iff unat_of_nat)
    then show "c = d" by simp
  qed
  assume "str_bytes a = str_bytes b"
  then show "a = b" using inj_map_eq_map [OF inj] by (simp add: str_bytes_def)
qed simp

lemma nul_free_prefix_inj:
  assumes "x @ (0::u8) # r = y @ 0 # s" "0 \<notin> set x" "0 \<notin> set y"
  shows "x = y \<and> r = s"
  using assms
proof (induction x arbitrary: y)
  case Nil
  then show ?case by (cases y) auto
next
  case (Cons a x)
  then show ?case by (cases y) auto
qed

lemma domain_tag_inj:
  assumes "domain_tag d @ r = domain_tag e @ s"
    and "0 \<notin> set (str_bytes d)" "0 \<notin> set (str_bytes e)"
  shows "d = e \<and> r = s"
proof -
  from assms(1) have "str_bytes d @ 0 # r = str_bytes e @ 0 # s"
    by (simp add: domain_tag_def)
  from nul_free_prefix_inj [OF this assms(2,3)] show ?thesis by (simp add: str_bytes_inj)
qed

section \<open>Addresses\<close>

type_synonym account_id = bytes

datatype address_error = Decode string | WrongHrp string | WrongLength nat

definition ADDRESS_HRP :: string where
  "ADDRESS_HRP = ''pyg''"

definition ACCOUNT_ID_LEN :: nat where
  "ACCOUNT_ID_LEN = 20"

definition ACCOUNT_DERIVE_TAG :: bytes where
  "ACCOUNT_DERIVE_TAG = str_bytes ''PGaddr'' @ [0]"

definition from_pubkey :: "hash_ext \<Rightarrow> bytes \<Rightarrow> account_id" where
  "from_pubkey H pk = take ACCOUNT_ID_LEN (blake3 H (ACCOUNT_DERIVE_TAG @ pk))"

definition pad_to_32 :: "account_id \<Rightarrow> bytes" where
  "pad_to_32 i = i @ replicate (32 - ACCOUNT_ID_LEN) 0"

definition from_coinbase :: "bytes \<Rightarrow> account_id" where
  "from_coinbase c = take ACCOUNT_ID_LEN c"

definition to_bech32 :: "hash_ext \<Rightarrow> account_id \<Rightarrow> string option" where
  "to_bech32 H i = bech32m_encode H ADDRESS_HRP i"

definition from_bech32 :: "hash_ext \<Rightarrow> string \<Rightarrow> address_error + account_id" where
  "from_bech32 H s =
     (case bech32_decode H s of
        Inl e \<Rightarrow> Inl (Decode e)
      | Inr (hrp, data) \<Rightarrow>
          if hrp \<noteq> ADDRESS_HRP then Inl (WrongHrp hrp)
          else if length data \<noteq> ACCOUNT_ID_LEN then Inl (WrongLength (length data))
          else Inr data)"

lemma length_from_pubkey: "hash_ok H \<Longrightarrow> length (from_pubkey H pk) = 20"
  by (simp add: from_pubkey_def ACCOUNT_ID_LEN_def hash_ok_def)

lemma length_pad_to_32: "length i = 20 \<Longrightarrow> length (pad_to_32 i) = 32"
  by (simp add: pad_to_32_def ACCOUNT_ID_LEN_def)

lemma from_coinbase_pad: "length i = 20 \<Longrightarrow> from_coinbase (pad_to_32 i) = i"
  by (simp add: from_coinbase_def pad_to_32_def ACCOUNT_ID_LEN_def)

lemma from_bech32_length: "from_bech32 H s = Inr i \<Longrightarrow> length i = 20"
  by (auto simp: from_bech32_def ACCOUNT_ID_LEN_def split: sum.splits prod.splits if_splits)

lemma bech32_roundtrip:
  assumes "bech32_ok H" "length i = 20"
  obtains s where "to_bech32 H i = Some s" "from_bech32 H s = Inr i"
  using assms
  by (auto simp: bech32_ok_def to_bech32_def from_bech32_def ADDRESS_HRP_def ACCOUNT_ID_LEN_def)

end
