(* ===== verification/State_Store.thy ===== *)
theory State_Store
  imports Pg_BTree Core_Hash
begin

text \<open>
  The authenticated store: \<open>crates/state/src/subtrees.rs\<close>, \<open>store.rs\<close> and \<open>rocks_store.rs\<close>.

  The trait \<open>StateStore\<close> is the record \<open>store_ops\<close> of its three methods, over an arbitrary store
  type: code that takes a \<open>dyn StateStore\<close> takes such a record. What a client relies on is the
  locale \<open>state_store\<close>; it is interpreted on \<open>MemState\<close> and, over any key-value database with
  the documented behaviour (the locale \<open>ordered_db\<close>), on \<open>RocksState\<close>. Both roots are the digest
  of the same canonical serialisation of the contents, \<open>root_of\<close>.
\<close>

section \<open>Subtrees and the store trait\<close>

datatype subtree = Accounts | Code | Storage | Meta | Reflect | Blocks | Headers | Witnesses | Attest

fun subtree_byte :: "subtree \<Rightarrow> u8" where
  "subtree_byte Accounts = 0"
| "subtree_byte Code = 1"
| "subtree_byte Storage = 2"
| "subtree_byte Meta = 3"
| "subtree_byte Reflect = 4"
| "subtree_byte Blocks = 5"
| "subtree_byte Headers = 6"
| "subtree_byte Witnesses = 7"
| "subtree_byte Attest = 8"

fun subtree_tag :: "subtree \<Rightarrow> string" where
  "subtree_tag Accounts = ''accounts''"
| "subtree_tag Code = ''code''"
| "subtree_tag Storage = ''storage''"
| "subtree_tag Meta = ''meta''"
| "subtree_tag Reflect = ''reflect''"
| "subtree_tag Blocks = ''blocks''"
| "subtree_tag Headers = ''headers''"
| "subtree_tag Witnesses = ''witnesses''"
| "subtree_tag Attest = ''attest''"

lemma subtree_byte_inj [simp]: "subtree_byte s = subtree_byte t \<longleftrightarrow> s = t"
  by (cases s; cases t) simp_all

record 's store_ops =
  st_put :: "'s \<Rightarrow> subtree \<Rightarrow> bytes \<Rightarrow> bytes \<Rightarrow> 's"
  st_get :: "'s \<Rightarrow> subtree \<Rightarrow> bytes \<Rightarrow> bytes option"
  st_root :: "'s \<Rightarrow> bytes \<times> 's"

section \<open>The canonical commitment\<close>

definition entry_bytes :: "(u8 \<times> bytes) \<times> bytes \<Rightarrow> bytes" where
  "entry_bytes e = (case e of ((s, k), v) \<Rightarrow> [s] @ len32 k @ k @ len32 v @ v)"

definition entries_root :: "hash_ext \<Rightarrow> ((u8 \<times> bytes) \<times> bytes) list \<Rightarrow> bytes" where
  "entries_root H es =
     truncate_to_32 (hash_with_domain H Blake3Xof512 ''memroot'' (concat (map entry_bytes es)))"

text \<open>The contents of a store, as a function, and the digest of their sorted serialisation.\<close>

type_synonym contents = "subtree \<Rightarrow> bytes \<Rightarrow> bytes option"

definition flat :: "contents \<Rightarrow> (u8 \<times> bytes) \<rightharpoonup> bytes" where
  "flat f = (\<lambda>(b, k). if \<exists>s. subtree_byte s = b then f (THE s. subtree_byte s = b) k else None)"

definition canonical_entries :: "contents \<Rightarrow> ((u8 \<times> bytes) \<times> bytes) list" where
  "canonical_entries f = map (\<lambda>k. (k, the (flat f k))) (sorted_list_of_set (dom (flat f)))"

definition root_of :: "hash_ext \<Rightarrow> contents \<Rightarrow> bytes" where
  "root_of H f = entries_root H (canonical_entries f)"

lemma flat_subtree [simp]: "flat f (subtree_byte s, k) = f s k"
  by (auto simp: flat_def)

lemma canonical_entries_unique:
  assumes "sorted_wrt (<) (map fst es)" "map_of es = flat f"
  shows "canonical_entries f = es"
proof -
  have d: "distinct (map fst es)" and s: "sorted (map fst es)"
    using assms(1) by (auto simp: strict_sorted_iff)
  have "dom (flat f) = set (map fst es)" by (simp add: assms(2) [symmetric] dom_map_of_conv_image_fst)
  then have keys: "sorted_list_of_set (dom (flat f)) = map fst es"
    using sorted_list_of_set.idem_if_sorted_distinct [OF s d] by simp
  have "(fst e, the (flat f (fst e))) = e" if "e \<in> set es" for e
    using map_of_is_SomeI [OF d, of "fst e" "snd e"] that by (simp add: assms(2) [symmetric])
  then show ?thesis by (simp add: canonical_entries_def keys map_idI)
qed

section \<open>The contract of the trait\<close>

locale state_store =
  fixes ops :: "'s store_ops" and inv :: "'s \<Rightarrow> bool" and H :: hash_ext
  assumes inv_put: "inv s \<Longrightarrow> inv (st_put ops s sub k v)"
    and get_put: "inv s \<Longrightarrow> st_get ops (st_put ops s sub k v) =
      (st_get ops s)(sub := (st_get ops s sub)(k \<mapsto> v))"
    and inv_root: "inv s \<Longrightarrow> inv (snd (st_root ops s))"
    and get_root: "inv s \<Longrightarrow> st_get ops (snd (st_root ops s)) = st_get ops s"
    and root_canonical: "inv s \<Longrightarrow> fst (st_root ops s) = root_of H (st_get ops s)"
begin

lemma get_put_same [simp]: "inv s \<Longrightarrow> st_get ops (st_put ops s sub k v) sub k = Some v"
  by (simp add: get_put)

lemma get_put_other:
  "inv s \<Longrightarrow> sub \<noteq> sub' \<or> k \<noteq> k' \<Longrightarrow>
     st_get ops (st_put ops s sub k v) sub' k' = st_get ops s sub' k'"
  by (auto simp: get_put)

lemma root_put_idem:
  assumes "inv s" "st_get ops s sub k = Some v"
  shows "fst (st_root ops (st_put ops s sub k v)) = fst (st_root ops s)"
proof -
  have "st_get ops (st_put ops s sub k v) = st_get ops s"
    using assms by (auto simp: get_put fun_eq_iff)
  with assms show ?thesis by (simp add: root_canonical inv_put)
qed

end

section \<open>MemState\<close>

type_synonym mem_state = "(u8 \<times> bytes, bytes) btree"

definition mem_new :: mem_state where
  "mem_new = []"

definition mem_put :: "mem_state \<Rightarrow> subtree \<Rightarrow> bytes \<Rightarrow> bytes \<Rightarrow> mem_state" where
  "mem_put d sub key val = bt_insert (subtree_byte sub, key) val d"

definition mem_get :: "mem_state \<Rightarrow> subtree \<Rightarrow> bytes \<Rightarrow> bytes option" where
  "mem_get d sub key = bt_get d (subtree_byte sub, key)"

definition mem_iter_canonical :: "mem_state \<Rightarrow> (u8 \<times> bytes \<times> bytes) list" where
  "mem_iter_canonical d = map (\<lambda>((s, k), v). (s, k, v)) d"

definition mem_root :: "hash_ext \<Rightarrow> mem_state \<Rightarrow> bytes" where
  "mem_root H d = entries_root H d"

definition mem_ops :: "hash_ext \<Rightarrow> mem_state store_ops" where
  "mem_ops H = \<lparr> st_put = mem_put, st_get = mem_get, st_root = (\<lambda>d. (mem_root H d, d)) \<rparr>"

text \<open>A memory store is a sorted entry list all of whose tags are tags of subtrees.\<close>

definition mem_inv :: "mem_state \<Rightarrow> bool" where
  "mem_inv d \<longleftrightarrow> bt_ok d \<and> (\<forall>e \<in> set d. fst (fst e) \<in> range subtree_byte)"

lemma mem_inv_new [simp]: "mem_inv mem_new"
  by (simp add: mem_inv_def mem_new_def)

lemma mem_inv_put:
  assumes "mem_inv d"
  shows "mem_inv (mem_put d sub k v)"
proof -
  have "fst ` set (mem_put d sub k v) = insert (subtree_byte sub, k) (fst ` set d)"
    by (simp add: mem_put_def set_keys_bt_insert)
  then have "fst (fst e) \<in> range subtree_byte" if "e \<in> set (mem_put d sub k v)" for e
  proof -
    from that have "fst e \<in> insert (subtree_byte sub, k) (fst ` set d)"
      using \<open>fst ` set (mem_put d sub k v) = _\<close> by blast
    then show ?thesis using assms by (auto simp: mem_inv_def)
  qed
  then show ?thesis using assms by (simp add: mem_inv_def mem_put_def bt.ok_ins)
qed

lemma mem_get_put:
  assumes "mem_inv d"
  shows "mem_get (mem_put d sub k v) = (mem_get d)(sub := (mem_get d sub)(k \<mapsto> v))"
  using assms
  by (auto simp: mem_get_def mem_put_def bt.find_ins mem_inv_def fun_eq_iff)

lemma flat_mem_get:
  assumes "mem_inv d"
  shows "map_of d = flat (mem_get d)"
proof (rule ext)
  fix x :: "u8 \<times> bytes"
  obtain b k where x: "x = (b, k)" by (cases x)
  show "map_of d x = flat (mem_get d) x"
  proof (cases "b \<in> range subtree_byte")
    case True
    then show ?thesis by (auto simp: x mem_get_def bt_get_def)
  next
    case False
    then have "flat (mem_get d) x = None" by (auto simp: x flat_def)
    moreover have "x \<notin> fst ` set d" using assms False by (auto simp: mem_inv_def x)
    ultimately show ?thesis by (simp add: map_of_eq_None_iff)
  qed
qed

lemma mem_root_canonical:
  assumes "mem_inv d"
  shows "mem_root H d = root_of H (mem_get d)"
proof -
  have "sorted_wrt (<) (map fst d)" using assms by (simp add: mem_inv_def bt_ok_def)
  from canonical_entries_unique [OF this flat_mem_get [OF assms]] show ?thesis
    by (simp add: mem_root_def root_of_def)
qed

interpretation mem: state_store "mem_ops H" mem_inv H for H
  by unfold_locales (simp_all add: mem_ops_def mem_inv_put mem_get_put mem_root_canonical)

section \<open>RocksState\<close>

text \<open>
  The database crate is third-party code: \<open>rocks_db\<close> holds the operations the source calls. A
  failing write panics in the source, and a failing read or iteration step is logged and
  skipped; the operations here are those of a database without I/O failures.
\<close>

record 'd rocks_db =
  db_put :: "bytes \<Rightarrow> bytes \<Rightarrow> 'd \<Rightarrow> 'd"
  db_get :: "'d \<Rightarrow> bytes \<Rightarrow> bytes option"
  db_iter :: "'d \<Rightarrow> (bytes \<times> bytes) list"

record 'd rocks_state =
  db :: 'd
  cached_root :: "bytes option"

definition encode_key :: "subtree \<Rightarrow> bytes \<Rightarrow> bytes" where
  "encode_key sub key = subtree_byte sub # key"

definition rocks_put :: "'d rocks_db \<Rightarrow> 'd rocks_state \<Rightarrow> subtree \<Rightarrow> bytes \<Rightarrow> bytes \<Rightarrow> 'd rocks_state" where
  "rocks_put D r sub key val = \<lparr> db = db_put D (encode_key sub key) val (db r), cached_root = None \<rparr>"

definition rocks_get :: "'d rocks_db \<Rightarrow> 'd rocks_state \<Rightarrow> subtree \<Rightarrow> bytes \<Rightarrow> bytes option" where
  "rocks_get D r sub key = db_get D (db r) (encode_key sub key)"

definition split_key :: "bytes \<times> bytes \<Rightarrow> (u8 \<times> bytes) \<times> bytes" where
  "split_key e = ((hd (fst e), tl (fst e)), snd e)"

definition rocks_entries :: "'d rocks_db \<Rightarrow> 'd rocks_state \<Rightarrow> ((u8 \<times> bytes) \<times> bytes) list" where
  "rocks_entries D r = map split_key (filter (\<lambda>e. fst e \<noteq> []) (db_iter D (db r)))"

definition rocks_iter_canonical :: "'d rocks_db \<Rightarrow> 'd rocks_state \<Rightarrow> (u8 \<times> bytes \<times> bytes) list" where
  "rocks_iter_canonical D r = map (\<lambda>((s, k), v). (s, k, v)) (rocks_entries D r)"

definition rocks_root :: "'d rocks_db \<Rightarrow> hash_ext \<Rightarrow> 'd rocks_state \<Rightarrow> bytes \<times> 'd rocks_state" where
  "rocks_root D H r =
     (case cached_root r of
        Some c \<Rightarrow> (c, r)
      | None \<Rightarrow> let d = entries_root H (rocks_entries D r) in (d, r\<lparr>cached_root := Some d\<rparr>))"

definition rocks_import_from :: "'d rocks_db \<Rightarrow> 'd rocks_state \<Rightarrow> mem_state \<Rightarrow> 'd rocks_state" where
  "rocks_import_from D r src =
     \<lparr> db = fold (\<lambda>(sub, key, val) d. db_put D (sub # key) val d) (mem_iter_canonical src) (db r),
       cached_root = None \<rparr>"

definition rocks_ops :: "'d rocks_db \<Rightarrow> hash_ext \<Rightarrow> 'd rocks_state store_ops" where
  "rocks_ops D H = \<lparr> st_put = rocks_put D, st_get = rocks_get D, st_root = rocks_root D H \<rparr>"

definition rocks_inv :: "'d rocks_db \<Rightarrow> ('d \<Rightarrow> bool) \<Rightarrow> hash_ext \<Rightarrow> 'd rocks_state \<Rightarrow> bool" where
  "rocks_inv D ok H r \<longleftrightarrow> ok (db r) \<and>
     (\<forall>k. db_get D (db r) k \<noteq> None \<longrightarrow> k \<noteq> [] \<and> hd k \<in> range subtree_byte) \<and>
     (\<forall>c. cached_root r = Some c \<longrightarrow> c = entries_root H (rocks_entries D r))"

locale ordered_db =
  fixes D :: "'d rocks_db" and ok :: "'d \<Rightarrow> bool"
  assumes db_ok_put: "ok d \<Longrightarrow> ok (db_put D k v d)"
    and db_get_put: "ok d \<Longrightarrow> db_get D (db_put D k v d) = (db_get D d)(k \<mapsto> v)"
    and db_iter_sorted: "ok d \<Longrightarrow> sorted_wrt (<) (map fst (db_iter D d))"
    and db_iter_get: "ok d \<Longrightarrow> map_of (db_iter D d) = db_get D d"
begin

lemma rocks_keys:
  assumes "rocks_inv D ok H r" "e \<in> set (db_iter D (db r))"
  shows "fst e \<noteq> [] \<and> hd (fst e) \<in> range subtree_byte"
proof -
  have ok: "ok (db r)" using assms(1) by (simp add: rocks_inv_def)
  have "fst e \<in> dom (map_of (db_iter D (db r)))" using assms(2) by (simp add: dom_map_of_conv_image_fst)
  then have "db_get D (db r) (fst e) \<noteq> None" by (simp add: db_iter_get [OF ok] domIff)
  with assms(1) show ?thesis unfolding rocks_inv_def by blast
qed

lemma rocks_entries_alt:
  assumes "rocks_inv D ok H r"
  shows "rocks_entries D r = map split_key (db_iter D (db r))"
  using rocks_keys [OF assms] by (simp add: rocks_entries_def)

lemma rocks_entries_sorted:
  assumes "rocks_inv D ok H r"
  shows "sorted_wrt (<) (map fst (rocks_entries D r))"
proof -
  have "ok (db r)" using assms by (simp add: rocks_inv_def)
  from db_iter_sorted [OF this] have s: "sorted_wrt (\<lambda>x y. fst x < fst y) (db_iter D (db r))"
    by (simp add: sorted_wrt_map)
  have "sorted_wrt (\<lambda>x y. fst (split_key x) < fst (split_key y)) (db_iter D (db r))"
  proof (rule sorted_wrt_mono_rel [OF _ s])
    fix x y
    assume xy: "x \<in> set (db_iter D (db r))" "y \<in> set (db_iter D (db r))" and "fst x < fst y"
    moreover obtain a xs b ys where "fst x = a # xs" "fst y = b # ys"
      using rocks_keys [OF assms xy(1)] rocks_keys [OF assms xy(2)] by (metis list.exhaust)
    ultimately show "fst (split_key x) < fst (split_key y)" by (auto simp: split_key_def)
  qed
  then show ?thesis by (simp add: rocks_entries_alt [OF assms] sorted_wrt_map)
qed

lemma rocks_entries_flat:
  assumes "rocks_inv D ok H r"
  shows "map_of (rocks_entries D r) = flat (rocks_get D r)"
proof (rule ext)
  fix x :: "u8 \<times> bytes"
  obtain b k where x: "x = (b, k)" by (cases x)
  have ok: "ok (db r)" using assms by (simp add: rocks_inv_def)
  have "map_of (map split_key es) (b, k) = map_of es (b # k)"
    if "\<forall>e \<in> set es. fst e \<noteq> []" for es
    using that by (induction es) (auto simp: split_key_def neq_Nil_conv)
  then have m: "map_of (rocks_entries D r) x = db_get D (db r) (b # k)"
    using rocks_keys [OF assms] by (simp add: rocks_entries_alt [OF assms] db_iter_get [OF ok] x)
  show "map_of (rocks_entries D r) x = flat (rocks_get D r) x"
  proof (cases "b \<in> range subtree_byte")
    case True
    then obtain s where "b = subtree_byte s" by blast
    then show ?thesis by (simp add: m) (simp add: x rocks_get_def encode_key_def)
  next
    case False
    then have "flat (rocks_get D r) x = None" by (auto simp: x flat_def)
    moreover have "db_get D (db r) (b # k) = None"
      using assms False unfolding rocks_inv_def by (metis list.sel(1))
    ultimately show ?thesis by (simp add: m)
  qed
qed

lemma rocks_root_canonical:
  "rocks_inv D ok H r \<Longrightarrow> entries_root H (rocks_entries D r) = root_of H (rocks_get D r)"
  using canonical_entries_unique [OF rocks_entries_sorted rocks_entries_flat] by (simp add: root_of_def)

lemma rocks_inv_put: "rocks_inv D ok H r \<Longrightarrow> rocks_inv D ok H (rocks_put D r sub k v)"
  by (auto simp: rocks_inv_def rocks_put_def db_ok_put db_get_put encode_key_def split: if_splits)

lemma rocks_get_put:
  "rocks_inv D ok H r \<Longrightarrow>
     rocks_get D (rocks_put D r sub k v) = (rocks_get D r)(sub := (rocks_get D r sub)(k \<mapsto> v))"
  by (auto simp: rocks_inv_def rocks_get_def rocks_put_def db_get_put encode_key_def fun_eq_iff)

lemma rocks_inv_root: "rocks_inv D ok H r \<Longrightarrow> rocks_inv D ok H (snd (rocks_root D H r))"
  by (auto simp: rocks_inv_def rocks_root_def Let_def rocks_entries_def split: option.splits)

lemma rocks_get_root: "rocks_get D (snd (rocks_root D H r)) = rocks_get D r"
  by (auto simp: rocks_root_def rocks_get_def Let_def fun_eq_iff split: option.splits)

lemma rocks_root_value:
  "rocks_inv D ok H r \<Longrightarrow> fst (rocks_root D H r) = root_of H (rocks_get D r)"
  unfolding rocks_root_canonical [symmetric] by (cases "cached_root r") (simp_all add: rocks_root_def rocks_inv_def Let_def)

text \<open>Importing a memory store into an empty database yields a store with the same contents.\<close>

lemma fold_db_put:
  assumes "ok d"
  shows "ok (fold (\<lambda>(s, k, v) d. db_put D (s # k) v d) es d) \<and>
    db_get D (fold (\<lambda>(s, k, v) d. db_put D (s # k) v d) es d) =
      db_get D d ++ map_of (rev (map (\<lambda>(s, k, v). (s # k, v)) es))"
  using assms
proof (induction es arbitrary: d)
  case (Cons e es)
  obtain s k v where e: "e = (s, k, v)" by (cases e) auto
  have "ok (db_put D (s # k) v d)" using Cons.prems by (rule db_ok_put)
  from Cons.IH [OF this] Cons.prems show ?case
    by (simp add: e db_get_put map_add_def fun_eq_iff split: option.splits)
qed simp

lemma map_of_flat_keys:
  assumes "distinct (map fst d)"
  shows "map_of (rev (map (\<lambda>(s, k, v). (s # k, v)) (mem_iter_canonical d))) (b # k) = map_of d (b, k)"
proof -
  have "map_of (map (\<lambda>(s, k, v). (s # k, v)) (mem_iter_canonical es)) (b # k) = map_of es (b, k)" for es
    by (induction es) (auto simp: mem_iter_canonical_def)
  moreover have "distinct (map fst (map (\<lambda>(s, k, v). (s # k, v)) (mem_iter_canonical d)))"
    using assms by (auto simp: mem_iter_canonical_def distinct_map inj_on_def split_beta) fastforce+
  moreover have "map_of (rev es) = map_of es" if "distinct (map fst es)" for es :: "(bytes \<times> bytes) list"
    using that by (intro map_of_inject_set [THEN iffD2]) (simp_all add: rev_map [symmetric])
  ultimately show ?thesis by simp
qed

lemma rocks_import:
  assumes r: "rocks_inv D ok H r" "rocks_get D r = (\<lambda>_ _. None)" and m: "mem_inv m"
  shows "rocks_inv D ok H (rocks_import_from D r m) \<and> rocks_get D (rocks_import_from D r m) = mem_get m"
proof -
  define d where "d = db (rocks_import_from D r m)"
  have d: "ok d" "db_get D d = db_get D (db r) ++ map_of (rev (map (\<lambda>(s, k, v). (s # k, v)) (mem_iter_canonical m)))"
    using fold_db_put [of "db r"] r(1) by (simp_all add: d_def rocks_import_from_def rocks_inv_def)
  have none: "db_get D (db r) k = None" for k
  proof (rule ccontr)
    assume nn: "db_get D (db r) k \<noteq> None"
    with r(1) obtain s k' where "k = subtree_byte s # k'"
      unfolding rocks_inv_def by (metis image_iff list.collapse)
    with nn r(2) show False by (simp add: rocks_get_def encode_key_def fun_eq_iff)
  qed
  have dist: "distinct (map fst m)" using m by (simp add: mem_inv_def bt_ok_distinct)
  have g: "db_get D d (b # k) = map_of m (b, k)" for b k
    by (simp add: d(2) map_add_def none map_of_flat_keys [OF dist] split: option.splits)
  have "rocks_get D (rocks_import_from D r m) = mem_get m"
    by (simp add: rocks_get_def encode_key_def d_def [symmetric] g mem_get_def bt_get_def fun_eq_iff)
  moreover have "k \<noteq> [] \<and> hd k \<in> range subtree_byte" if "db_get D d k \<noteq> None" for k
  proof -
    from that obtain v where "map_of (rev (map (\<lambda>(s, k, v). (s # k, v)) (mem_iter_canonical m))) k = Some v"
      by (auto simp: d(2) map_add_def none split: option.splits)
    then have "(k, v) \<in> set (map (\<lambda>(s, k, v). (s # k, v)) (mem_iter_canonical m))"
      using map_of_SomeD by fastforce
    then show ?thesis using m by (auto simp: mem_iter_canonical_def mem_inv_def)
  qed
  ultimately show ?thesis
    using d(1) by (simp add: rocks_inv_def d_def [symmetric]) (simp add: rocks_import_from_def)
qed

end

sublocale ordered_db \<subseteq> rocks: state_store "rocks_ops D H" "rocks_inv D ok H" H for H
  by unfold_locales
    (simp_all add: rocks_ops_def rocks_inv_put rocks_get_put rocks_inv_root rocks_get_root rocks_root_value)

context ordered_db
begin

lemma rocks_is_store: "state_store (rocks_ops D H) (rocks_inv D ok H) H"
  by (rule rocks.state_store_axioms)

end

text \<open>An ordered map serves as the database; the entry lists of \<open>Pg_BTree\<close> are one.\<close>

definition list_db :: "(bytes, bytes) btree rocks_db" where
  "list_db = \<lparr> db_put = bt_insert, db_get = bt_get, db_iter = (\<lambda>d. d) \<rparr>"

interpretation ldb: ordered_db list_db bt_ok
proof
  fix d :: "(bytes, bytes) btree"
  assume "bt_ok d"
  then show "sorted_wrt (<) (map fst (db_iter list_db d))" by (simp add: list_db_def bt_ok_def)
  show "map_of (db_iter list_db d) = db_get list_db d" by (simp add: list_db_def bt_get_def)
qed (simp_all add: list_db_def bt_ok_insert bt_get_insert)

end
