(* ===== verification/Core_Tx.thy ===== *)
theory Core_Tx
  imports Core_Hash "HOL-Library.List_Lexorder"
begin

text \<open>
  Transactions and blocks: \<open>crates/core/src/tx.rs\<close> and \<open>crates/core/src/block.rs\<close>.

  Fixed-size arrays are byte strings whose lengths the well-formedness predicates
  (\<open>call_wf\<close>, \<open>tx_wf\<close>) state; in the source the types do. For every digest the byte string that
  is hashed is a definition of its own, so that what a signature or a block header commits to
  can be stated about bytes, with no assumption on the hash function.
\<close>

section \<open>Data\<close>

datatype sig_algo = Falcon512 | SlhDsa128s | Ed25519 | MlDsa65

definition sig_algo_from_byte :: "u8 \<Rightarrow> sig_algo option" where
  "sig_algo_from_byte b =
     (if b = 1 then Some Falcon512
      else if b = 2 then Some SlhDsa128s
      else if b = 3 then Some Ed25519
      else if b = 4 then Some MlDsa65
      else None)"

datatype pub_key_ref = Known account_id | Inline bytes

datatype tx_call =
    Transfer account_id u128
  | DeployContract bytes bytes
  | CallContract account_id bytes bytes
  | UpgradeCrypto u64 u8 u8 bytes
  | AttestRound bytes u64 bytes u32
  | RegisterAttestCoordinator bytes "account_id list" bytes
  | SetGovernance bytes bytes
  | AttestPedigree bytes bytes bytes bytes bytes

record tx_body =
  tx_nonce :: u64
  from_account :: account_id
  call :: tx_call
  fee_sat :: u64
  gas_limit :: u32
  witness_hash :: bytes

record witness =
  wit_sig_algo :: u8
  wit_sig :: bytes
  wit_pubkey :: pub_key_ref

record block_header =
  version :: u32
  height :: u64
  parent :: bytes
  timestamp_ms :: u64
  bits :: u32
  nonce :: u64
  hdr_tx_root :: bytes
  hdr_witness_root :: bytes
  state_root :: bytes
  reflect_root :: bytes
  coinbase :: bytes
  hdr_sig_algo :: u8
  hdr_hash_algo :: u8

record block_body =
  txs :: "tx_body list"
  witnesses :: "witness list"

record block =
  header :: block_header
  body :: block_body

section \<open>Preimages and digests\<close>

definition witness_bytes :: "witness \<Rightarrow> bytes" where
  "witness_bytes w =
     str_bytes ''PGwit'' @ [0] @ [wit_sig_algo w] @ len32 (wit_sig w) @ wit_sig w @
     (case wit_pubkey w of
        Known i \<Rightarrow> [0] @ i
      | Inline bs \<Rightarrow> [1] @ len32 bs @ bs)"

definition witness_digest :: "hash_ext \<Rightarrow> witness \<Rightarrow> bytes" where
  "witness_digest H w = blake3 H (witness_bytes w)"

fun call_bytes :: "tx_call \<Rightarrow> bytes" where
  "call_bytes (Transfer to amount) = [0] @ to @ to_le amount"
| "call_bytes (DeployContract code_ref init_args) = [1] @ code_ref @ len32 init_args @ init_args"
| "call_bytes (CallContract contract method args) =
     [2] @ contract @ len32 method @ method @ len32 args @ args"
| "call_bytes (UpgradeCrypto target_height sa ha gov_proof) =
     [3] @ to_le target_height @ [sa, ha]"
| "call_bytes (AttestRound job_id round_id model_hash dp_epsilon_milli) =
     [4] @ job_id @ to_le round_id @ model_hash @ to_le dp_epsilon_milli"
| "call_bytes (RegisterAttestCoordinator job_id coordinators gov_proof) =
     [5] @ job_id @ len32 coordinators @ concat (sort coordinators)"
| "call_bytes (AttestPedigree job_id lot_id supplier cage_code attestation_authority) =
     [6] @ job_id @ lot_id @ supplier @ cage_code @ attestation_authority"
| "call_bytes (SetGovernance config_cbor gov_proof) = [7] @ len32 config_cbor @ config_cbor"

definition signing_bytes :: "tx_body \<Rightarrow> bytes" where
  "signing_bytes t =
     str_bytes ''PGtxsign'' @ [0] @ to_le (tx_nonce t) @ from_account t @ call_bytes (call t) @
     to_le (fee_sat t)"

definition signing_hash :: "hash_ext \<Rightarrow> tx_body \<Rightarrow> bytes" where
  "signing_hash H t = blake3 H (signing_bytes t)"

definition body_bytes :: "tx_body \<Rightarrow> bytes" where
  "body_bytes t =
     str_bytes ''PGtxbody'' @ [0] @ to_le (tx_nonce t) @ from_account t @ call_bytes (call t) @
     to_le (fee_sat t) @ to_le (gas_limit t) @ witness_hash t"

definition body_hash :: "hash_ext \<Rightarrow> tx_body \<Rightarrow> bytes" where
  "body_hash H t = blake3 H (body_bytes t)"

definition vec_root :: "hash_ext \<Rightarrow> bytes \<Rightarrow> bytes list \<Rightarrow> bytes" where
  "vec_root H domain leaves = blake3 H (domain @ len32 leaves @ concat leaves)"

definition tx_root :: "hash_ext \<Rightarrow> block_body \<Rightarrow> bytes" where
  "tx_root H b = vec_root H (str_bytes ''PGtxroot'' @ [0]) (map (body_hash H) (txs b))"

definition witness_root :: "hash_ext \<Rightarrow> block_body \<Rightarrow> bytes" where
  "witness_root H b = vec_root H (str_bytes ''PGwitroot'' @ [0]) (map (witness_digest H) (witnesses b))"

section \<open>What the preimages determine\<close>

fun call_wf :: "tx_call \<Rightarrow> bool" where
  "call_wf (Transfer to amount) = (length to = 20)"
| "call_wf (DeployContract code_ref init_args) = (length code_ref = 32 \<and> length init_args < 2 ^ 32)"
| "call_wf (CallContract contract method args) =
     (length contract = 20 \<and> length method < 2 ^ 32 \<and> length args < 2 ^ 32)"
| "call_wf (UpgradeCrypto target_height sa ha gov_proof) = True"
| "call_wf (AttestRound job_id round_id model_hash dp_epsilon_milli) =
     (length job_id = 32 \<and> length model_hash = 32)"
| "call_wf (RegisterAttestCoordinator job_id coordinators gov_proof) =
     (length job_id = 32 \<and> length coordinators < 2 ^ 32 \<and> list_all (\<lambda>c. length c = 20) coordinators)"
| "call_wf (SetGovernance config_cbor gov_proof) = (length config_cbor < 2 ^ 32)"
| "call_wf (AttestPedigree job_id lot_id supplier cage_code attestation_authority) =
     (length job_id = 32 \<and> length lot_id = 16 \<and> length supplier = 32 \<and> length cage_code = 5 \<and>
      length attestation_authority = 32)"

definition tx_wf :: "tx_body \<Rightarrow> bool" where
  "tx_wf t \<longleftrightarrow> length (from_account t) = 20 \<and> call_wf (call t) \<and> length (witness_hash t) = 32"

text \<open>
  What a preimage keeps of a call: everything except the governance proof, and of a
  coordinator list only its members in byte order.
\<close>

fun call_core :: "tx_call \<Rightarrow> tx_call" where
  "call_core (UpgradeCrypto target_height sa ha gov_proof) = UpgradeCrypto target_height sa ha []"
| "call_core (RegisterAttestCoordinator job_id coordinators gov_proof) =
     RegisterAttestCoordinator job_id (sort coordinators) []"
| "call_core (SetGovernance config_cbor gov_proof) = SetGovernance config_cbor []"
| "call_core c = c"

lemma concat_fixed_inj:
  assumes "length xs = length ys"
    and "list_all (\<lambda>x. length x = n) xs" "list_all (\<lambda>y. length y = n) ys"
    and "concat xs @ r = concat ys @ s"
  shows "xs = ys \<and> r = s"
  using assms
proof (induction xs ys arbitrary: r s rule: list_induct2)
  case Nil
  then show ?case by simp
next
  case (Cons x xs y ys)
  from Cons.prems have "x = y" "concat xs @ r = concat ys @ s" by simp_all
  with Cons.IH [of r s] Cons.prems show ?case by simp
qed

lemma concat_sort_inj:
  assumes "length xs = length ys"
    and "list_all (\<lambda>x. length x = n) xs" "list_all (\<lambda>y. length y = n) ys"
    and "concat (sort xs) @ r = concat (sort ys) @ s"
  shows "sort xs = sort ys \<and> r = s"
  using concat_fixed_inj [of "sort xs" "sort ys" n r s] assms by (simp add: list_all_iff)

lemma call_bytes_inj:
  assumes "call_wf c" "call_wf d" "call_bytes c @ r = call_bytes d @ s"
  shows "call_core c = call_core d \<and> r = s"
proof (cases c)
  case (RegisterAttestCoordinator j cs p)
  with assms show ?thesis
    by (cases d) (auto simp: len32_inj dest: concat_sort_inj [where n = 20])
qed (use assms in \<open>cases d; auto simp: len32_inj\<close>)+

lemma call_bytes_core: "call_core c = call_core d \<Longrightarrow> call_bytes c = call_bytes d"
proof -
  have "call_bytes (call_core e) = call_bytes e" for e
    by (cases e) (simp_all add: len32_def sorted_sort_id)
  then show "call_core c = call_core d \<Longrightarrow> call_bytes c = call_bytes d" by metis
qed

lemma signing_bytes_core:
  assumes "tx_wf t" "tx_wf u"
  shows "signing_bytes t = signing_bytes u \<longleftrightarrow>
    tx_nonce t = tx_nonce u \<and> from_account t = from_account u \<and> fee_sat t = fee_sat u \<and>
    call_core (call t) = call_core (call u)"
proof
  assume "signing_bytes t = signing_bytes u"
  with assms have "tx_nonce t = tx_nonce u" "from_account t = from_account u"
    "call_bytes (call t) @ to_le (fee_sat t) = call_bytes (call u) @ to_le (fee_sat u)"
    by (simp_all add: signing_bytes_def tx_wf_def)
  with call_bytes_inj [OF _ _ this(3)] assms
  show "tx_nonce t = tx_nonce u \<and> from_account t = from_account u \<and> fee_sat t = fee_sat u \<and>
    call_core (call t) = call_core (call u)"
    by (simp add: tx_wf_def)
qed (simp add: signing_bytes_def call_bytes_core [of "call t" "call u"])

lemma body_bytes_core:
  assumes "tx_wf t" "tx_wf u"
  shows "body_bytes t = body_bytes u \<longleftrightarrow>
    tx_nonce t = tx_nonce u \<and> from_account t = from_account u \<and> fee_sat t = fee_sat u \<and>
    gas_limit t = gas_limit u \<and> witness_hash t = witness_hash u \<and>
    call_core (call t) = call_core (call u)"
proof
  assume "body_bytes t = body_bytes u"
  with assms have "tx_nonce t = tx_nonce u" "from_account t = from_account u"
    "call_bytes (call t) @ (to_le (fee_sat t) @ to_le (gas_limit t) @ witness_hash t) =
     call_bytes (call u) @ (to_le (fee_sat u) @ to_le (gas_limit u) @ witness_hash u)"
    by (simp_all add: body_bytes_def tx_wf_def)
  with call_bytes_inj [OF _ _ this(3)] assms
  show "tx_nonce t = tx_nonce u \<and> from_account t = from_account u \<and> fee_sat t = fee_sat u \<and>
    gas_limit t = gas_limit u \<and> witness_hash t = witness_hash u \<and>
    call_core (call t) = call_core (call u)"
    by (simp add: tx_wf_def)
qed (simp add: body_bytes_def call_bytes_core [of "call t" "call u"])

fun witness_wf :: "witness \<Rightarrow> bool" where
  "witness_wf w = (length (wit_sig w) < 2 ^ 32 \<and>
     (case wit_pubkey w of Known i \<Rightarrow> length i = 20 | Inline bs \<Rightarrow> length bs < 2 ^ 32))"

lemma witness_bytes_inj:
  assumes "witness_wf v" "witness_wf w" "witness_bytes v = witness_bytes w"
  shows "v = w"
  using assms
  by (cases "wit_pubkey v"; cases "wit_pubkey w") (auto simp: witness_bytes_def len32_inj)

end
