(* ===== verification/Crypto.thy ===== *)
theory Crypto
  imports Pg_Prelude
begin

text \<open>
  Signature dispatch: \<open>crates/crypto/src/lib.rs\<close>, \<open>falcon.rs\<close>, \<open>slhdsa.rs\<close>, \<open>bls.rs\<close>.

  The four signature crates are third-party code. Each enters as a \<open>scheme\<close>: which byte strings
  decode as signing keys, verifying keys and signatures, the raw signing and verification
  functions, and the verifying key of a signing key; key generation turns the bytes of a random
  source into a key or a key pair. The cargo features of the build are the
  record \<open>build\<close>. The dispatch, the length checks and the allow-lists are those of the source.
\<close>

section \<open>External primitives and the build profile\<close>

record scheme =
  sk_ok :: "bytes \<Rightarrow> bool"
  pk_ok :: "bytes \<Rightarrow> bool"
  sig_ok :: "bytes \<Rightarrow> bool"
  raw_sign :: "bytes \<Rightarrow> bytes \<Rightarrow> bytes \<Rightarrow> bytes option"
  raw_verify :: "bytes \<Rightarrow> bytes \<Rightarrow> bytes \<Rightarrow> bool"
  raw_pk :: "bytes \<Rightarrow> bytes"

record build =
  feat_fips :: bool
  feat_ed25519 :: bool
  feat_falcon :: bool
  feat_slhdsa :: bool
  feat_bls :: bool

record crypto_ext =
  bld :: build
  ed :: scheme
  falcon :: scheme
  slh :: scheme
  bls :: scheme
  bls_agg_sigs :: "bytes list \<Rightarrow> bytes option"
  bls_agg_pks :: "bytes list \<Rightarrow> bytes option"
  ed_generate :: "bytes \<Rightarrow> bytes"
  falcon_keygen :: "bytes \<Rightarrow> bytes \<times> bytes"
  slh_keygen :: "bytes \<Rightarrow> (bytes \<times> bytes) option"
  bls_key_gen :: "bytes \<Rightarrow> bytes option"

datatype crypto_error = UnknownAlgo u8 | BadSignature | Malformed | NotWired | NotAllowedInFipsBuild u8

section \<open>Error messages\<close>

fun show_crypto_error :: "crypto_error \<Rightarrow> string" where
  "show_crypto_error (UnknownAlgo a) = ''unknown or disabled signature algorithm: '' @ show_nat (unat a)"
| "show_crypto_error BadSignature = ''signature verification failed''"
| "show_crypto_error Malformed = ''malformed key or signature bytes''"
| "show_crypto_error NotWired = ''algorithm not yet wired in this build''"
| "show_crypto_error (NotAllowedInFipsBuild a) =
     ''algorithm '' @ show_nat (unat a) @ '' is not allowed in a FIPS-profile build''"

section \<open>The schemes\<close>

definition ED_SIG_LEN :: nat where "ED_SIG_LEN = 64"
definition ED_SK_LEN :: nat where "ED_SK_LEN = 32"
definition FALCON512_VK_LEN :: nat where "FALCON512_VK_LEN = 897"
definition FALCON512_SK_LEN :: nat where "FALCON512_SK_LEN = 1281"
definition FALCON512_SIG_LEN :: nat where "FALCON512_SIG_LEN = 666"
definition SLHDSA128S_VK_LEN :: nat where "SLHDSA128S_VK_LEN = 32"
definition SLHDSA128S_SK_LEN :: nat where "SLHDSA128S_SK_LEN = 64"
definition SLHDSA128S_SIG_LEN :: nat where "SLHDSA128S_SIG_LEN = 7856"
definition BLS_VK_LEN :: nat where "BLS_VK_LEN = 48"
definition BLS_SK_LEN :: nat where "BLS_SK_LEN = 32"
definition BLS_SIG_LEN :: nat where "BLS_SIG_LEN = 96"

lemmas crypto_lens =
  ED_SIG_LEN_def ED_SK_LEN_def FALCON512_VK_LEN_def FALCON512_SK_LEN_def FALCON512_SIG_LEN_def
  SLHDSA128S_VK_LEN_def SLHDSA128S_SK_LEN_def SLHDSA128S_SIG_LEN_def
  BLS_VK_LEN_def BLS_SK_LEN_def BLS_SIG_LEN_def

text \<open>
  Key generation: \<open>rng\<close> is what the random source yields. Ed25519 and BLS derive the verifying key
  from the signing key; \<open>None\<close> is the panic of \<open>expect\<close>.
\<close>

definition ed25519_keypair :: "crypto_ext \<Rightarrow> bytes \<Rightarrow> bytes \<times> bytes" where
  "ed25519_keypair X rng = (let sk = ed_generate X rng in (sk, raw_pk (ed X) sk))"

definition ed25519_pubkey_from_secret :: "crypto_ext \<Rightarrow> bytes \<Rightarrow> bytes" where
  "ed25519_pubkey_from_secret X sk = raw_pk (ed X) sk"

definition falcon_keypair :: "crypto_ext \<Rightarrow> bytes \<Rightarrow> bytes \<times> bytes" where
  "falcon_keypair X rng = falcon_keygen X rng"

definition slhdsa_keypair :: "crypto_ext \<Rightarrow> bytes \<Rightarrow> crypto_error + bytes \<times> bytes" where
  "slhdsa_keypair X rng = (case slh_keygen X rng of None \<Rightarrow> Inl Malformed | Some (vk, sk) \<Rightarrow> Inr (sk, vk))"

definition bls_keypair :: "crypto_ext \<Rightarrow> bytes \<Rightarrow> (bytes \<times> bytes) option" where
  "bls_keypair X rng =
     (case bls_key_gen X (take 32 rng) of None \<Rightarrow> None | Some sk \<Rightarrow> Some (sk, raw_pk (bls X) sk))"

definition ed25519_sign :: "crypto_ext \<Rightarrow> bytes \<Rightarrow> bytes \<Rightarrow> crypto_error + bytes" where
  "ed25519_sign X sk msg =
     (if length sk \<noteq> ED_SK_LEN then Inl Malformed
      else case raw_sign (ed X) [] sk msg of None \<Rightarrow> Inl Malformed | Some s \<Rightarrow> Inr s)"

definition ed25519_verify :: "crypto_ext \<Rightarrow> bytes \<Rightarrow> bytes \<Rightarrow> bytes \<Rightarrow> crypto_error + unit" where
  "ed25519_verify X pk sg msg =
     (if length pk \<noteq> 32 then Inl Malformed
      else if length sg \<noteq> ED_SIG_LEN then Inl Malformed
      else if \<not> pk_ok (ed X) pk then Inl Malformed
      else if raw_verify (ed X) pk sg msg then Inr () else Inl BadSignature)"

definition falcon_sign :: "crypto_ext \<Rightarrow> bytes \<Rightarrow> bytes \<Rightarrow> bytes \<Rightarrow> crypto_error + bytes" where
  "falcon_sign X rng sk msg =
     (if length sk \<noteq> FALCON512_SK_LEN then Inl Malformed
      else if \<not> sk_ok (falcon X) sk then Inl Malformed
      else case raw_sign (falcon X) rng sk msg of None \<Rightarrow> Inl Malformed | Some s \<Rightarrow> Inr s)"

definition falcon_verify :: "crypto_ext \<Rightarrow> bytes \<Rightarrow> bytes \<Rightarrow> bytes \<Rightarrow> crypto_error + unit" where
  "falcon_verify X vk sg msg =
     (if length vk \<noteq> FALCON512_VK_LEN then Inl Malformed
      else if length sg \<noteq> FALCON512_SIG_LEN then Inl Malformed
      else if \<not> pk_ok (falcon X) vk then Inl Malformed
      else if raw_verify (falcon X) vk sg msg then Inr () else Inl BadSignature)"

definition slhdsa_sign :: "crypto_ext \<Rightarrow> bytes \<Rightarrow> bytes \<Rightarrow> crypto_error + bytes" where
  "slhdsa_sign X sk msg =
     (if length sk \<noteq> SLHDSA128S_SK_LEN then Inl Malformed
      else if \<not> sk_ok (slh X) sk then Inl Malformed
      else case raw_sign (slh X) [] sk msg of None \<Rightarrow> Inl Malformed | Some s \<Rightarrow> Inr s)"

definition slhdsa_verify :: "crypto_ext \<Rightarrow> bytes \<Rightarrow> bytes \<Rightarrow> bytes \<Rightarrow> crypto_error + unit" where
  "slhdsa_verify X vk sg msg =
     (if length vk \<noteq> SLHDSA128S_VK_LEN then Inl Malformed
      else if length sg \<noteq> SLHDSA128S_SIG_LEN then Inl Malformed
      else if \<not> pk_ok (slh X) vk then Inl Malformed
      else if raw_verify (slh X) vk sg msg then Inr () else Inl BadSignature)"

definition bls_sign :: "crypto_ext \<Rightarrow> bytes \<Rightarrow> bytes \<Rightarrow> crypto_error + bytes" where
  "bls_sign X sk msg =
     (if length sk \<noteq> BLS_SK_LEN then Inl Malformed
      else if \<not> sk_ok (bls X) sk then Inl Malformed
      else case raw_sign (bls X) [] sk msg of None \<Rightarrow> Inl Malformed | Some s \<Rightarrow> Inr s)"

definition bls_verify :: "crypto_ext \<Rightarrow> bytes \<Rightarrow> bytes \<Rightarrow> bytes \<Rightarrow> crypto_error + unit" where
  "bls_verify X vk sg msg =
     (if length vk \<noteq> BLS_VK_LEN then Inl Malformed
      else if length sg \<noteq> BLS_SIG_LEN then Inl Malformed
      else if \<not> pk_ok (bls X) vk then Inl Malformed
      else if \<not> sig_ok (bls X) sg then Inl Malformed
      else if raw_verify (bls X) vk sg msg then Inr () else Inl BadSignature)"

definition aggregate_signatures :: "crypto_ext \<Rightarrow> bytes list \<Rightarrow> crypto_error + bytes" where
  "aggregate_signatures X sigs =
     (if sigs = [] then Inl Malformed
      else if \<not> list_all (\<lambda>b. length b = BLS_SIG_LEN \<and> sig_ok (bls X) b) sigs then Inl Malformed
      else case bls_agg_sigs X sigs of None \<Rightarrow> Inl BadSignature | Some a \<Rightarrow> Inr a)"

definition aggregate_pubkeys :: "crypto_ext \<Rightarrow> bytes list \<Rightarrow> crypto_error + bytes" where
  "aggregate_pubkeys X pks =
     (if pks = [] then Inl Malformed
      else if \<not> list_all (\<lambda>b. length b = BLS_VK_LEN \<and> pk_ok (bls X) b) pks then Inl Malformed
      else case bls_agg_pks X pks of None \<Rightarrow> Inl BadSignature | Some a \<Rightarrow> Inr a)"

definition verify_aggregated :: "crypto_ext \<Rightarrow> bytes \<Rightarrow> bytes \<Rightarrow> bytes \<Rightarrow> crypto_error + unit" where
  "verify_aggregated X agg_vk agg_sig msg = bls_verify X agg_vk agg_sig msg"

section \<open>Dispatch\<close>

definition sign :: "crypto_ext \<Rightarrow> bytes \<Rightarrow> u8 \<Rightarrow> bytes \<Rightarrow> bytes \<Rightarrow> crypto_error + bytes" where
  "sign X rng algo sk msg =
     (if algo = 1 then
        (if feat_falcon (bld X) then falcon_sign X rng sk msg
         else if feat_fips (bld X) then Inl (NotAllowedInFipsBuild 1) else Inl NotWired)
      else if algo = 2 then (if feat_slhdsa (bld X) then slhdsa_sign X sk msg else Inl NotWired)
      else if algo = 4 then Inl NotWired
      else if algo = 3 then
        (if feat_ed25519 (bld X) then ed25519_sign X sk msg
         else if feat_fips (bld X) then Inl (NotAllowedInFipsBuild 3) else Inl NotWired)
      else if algo = 5 then (if feat_bls (bld X) then bls_sign X sk msg else Inl NotWired)
      else Inl (UnknownAlgo algo))"

definition verify :: "crypto_ext \<Rightarrow> u8 \<Rightarrow> bytes \<Rightarrow> bytes \<Rightarrow> bytes \<Rightarrow> crypto_error + unit" where
  "verify X algo pk sg msg =
     (if algo = 1 then
        (if feat_falcon (bld X) then falcon_verify X pk sg msg
         else if feat_fips (bld X) then Inl (NotAllowedInFipsBuild 1) else Inl NotWired)
      else if algo = 2 then (if feat_slhdsa (bld X) then slhdsa_verify X pk sg msg else Inl NotWired)
      else if algo = 4 then Inl NotWired
      else if algo = 3 then
        (if feat_ed25519 (bld X) then ed25519_verify X pk sg msg
         else if feat_fips (bld X) then Inl (NotAllowedInFipsBuild 3) else Inl NotWired)
      else if algo = 5 then (if feat_bls (bld X) then bls_verify X pk sg msg else Inl NotWired)
      else Inl (UnknownAlgo algo))"

definition sizes :: "u8 \<Rightarrow> (nat \<times> nat) option" where
  "sizes algo =
     (if algo = 1 then Some (897, 666)
      else if algo = 2 then Some (32, 7856)
      else if algo = 3 then Some (32, ED_SIG_LEN)
      else if algo = 4 then Some (1952, 3309)
      else if algo = 5 then Some (48, 96)
      else None)"

definition FIPS_ALLOWLIST_SIG :: "u8 list" where "FIPS_ALLOWLIST_SIG = [2, 4]"
definition FIPS_ALLOWLIST_HASH :: "u8 list" where "FIPS_ALLOWLIST_HASH = [3]"
definition DEFAULT_ALLOWLIST_SIG :: "u8 list" where "DEFAULT_ALLOWLIST_SIG = [1, 2, 3, 4, 5]"
definition DEFAULT_ALLOWLIST_HASH :: "u8 list" where "DEFAULT_ALLOWLIST_HASH = [1, 2, 3]"

definition active_allowlist_sig :: "crypto_ext \<Rightarrow> u8 list" where
  "active_allowlist_sig X = (if feat_fips (bld X) then FIPS_ALLOWLIST_SIG else DEFAULT_ALLOWLIST_SIG)"

definition active_allowlist_hash :: "crypto_ext \<Rightarrow> u8 list" where
  "active_allowlist_hash X = (if feat_fips (bld X) then FIPS_ALLOWLIST_HASH else DEFAULT_ALLOWLIST_HASH)"

definition allowed_sig :: "crypto_ext \<Rightarrow> u8 \<Rightarrow> bool" where
  "allowed_sig X algo \<longleftrightarrow> algo \<in> set (active_allowlist_sig X)"

definition allowed_hash :: "crypto_ext \<Rightarrow> u8 \<Rightarrow> bool" where
  "allowed_hash X algo \<longleftrightarrow> algo \<in> set (active_allowlist_hash X)"

definition is_fips_build :: "crypto_ext \<Rightarrow> bool" where
  "is_fips_build X = feat_fips (bld X)"

section \<open>What an accepted signature satisfies\<close>

lemmas verify_defs = ed25519_verify_def falcon_verify_def slhdsa_verify_def bls_verify_def
lemmas sign_defs = ed25519_sign_def falcon_sign_def slhdsa_sign_def bls_sign_def

lemma verify_sizes:
  assumes "verify X algo pk sg msg = Inr ()"
  shows "sizes algo = Some (length pk, length sg)"
  using assms
  by (auto simp: verify_def verify_defs sizes_def crypto_lens split: if_splits)

lemma verify_algos: "verify X algo pk sg msg = Inr () \<Longrightarrow> algo \<in> {1, 2, 3, 5}"
  by (auto simp: verify_def split: if_splits)

lemma verify_fips:
  assumes "verify X algo pk sg msg = Inr ()" "\<not> feat_falcon (bld X)" "\<not> feat_ed25519 (bld X)"
  shows "algo = 2 \<or> algo = 5"
  using assms by (auto simp: verify_def split: if_splits)

text \<open>
  What signing and verifying rely on: a raw signature under a well-formed signing key has the
  scheme's size and verifies under the matching verifying key, for every randomness.
\<close>

definition scheme_correct :: "scheme \<Rightarrow> nat \<Rightarrow> nat \<Rightarrow> nat \<Rightarrow> bool" where
  "scheme_correct S sk_len pk_len sig_len \<longleftrightarrow>
     (\<forall>rng sk msg. length sk = sk_len \<longrightarrow> sk_ok S sk \<longrightarrow>
        length (raw_pk S sk) = pk_len \<and> pk_ok S (raw_pk S sk) \<and>
        (\<forall>sg. raw_sign S rng sk msg = Some sg \<longrightarrow>
           length sg = sig_len \<and> sig_ok S sg \<and> raw_verify S (raw_pk S sk) sg msg))"

definition crypto_ok :: "crypto_ext \<Rightarrow> bool" where
  "crypto_ok X \<longleftrightarrow>
     scheme_correct (ed X) ED_SK_LEN 32 ED_SIG_LEN \<and>
     scheme_correct (falcon X) FALCON512_SK_LEN FALCON512_VK_LEN FALCON512_SIG_LEN \<and>
     scheme_correct (slh X) SLHDSA128S_SK_LEN SLHDSA128S_VK_LEN SLHDSA128S_SIG_LEN \<and>
     scheme_correct (bls X) BLS_SK_LEN BLS_VK_LEN BLS_SIG_LEN \<and>
     (\<forall>sk. sk_ok (ed X) sk)"

definition pk_for :: "crypto_ext \<Rightarrow> u8 \<Rightarrow> bytes \<Rightarrow> bytes" where
  "pk_for X algo sk =
     raw_pk (if algo = 1 then falcon X else if algo = 2 then slh X
             else if algo = 3 then ed X else bls X) sk"

lemma scheme_correctD:
  assumes "scheme_correct S n p q" "length sk = n" "sk_ok S sk" "raw_sign S rng sk msg = Some sg"
  shows "length (raw_pk S sk) = p" "pk_ok S (raw_pk S sk)" "length sg = q" "sig_ok S sg"
    "raw_verify S (raw_pk S sk) sg msg"
  using assms unfolding scheme_correct_def by blast+

lemma scheme_sign_verify:
  assumes "crypto_ok X"
  shows "falcon_sign X rng sk msg = Inr sg \<Longrightarrow> falcon_verify X (raw_pk (falcon X) sk) sg msg = Inr ()"
    and "slhdsa_sign X sk msg = Inr sg \<Longrightarrow> slhdsa_verify X (raw_pk (slh X) sk) sg msg = Inr ()"
    and "ed25519_sign X sk msg = Inr sg \<Longrightarrow> ed25519_verify X (raw_pk (ed X) sk) sg msg = Inr ()"
    and "bls_sign X sk msg = Inr sg \<Longrightarrow> bls_verify X (raw_pk (bls X) sk) sg msg = Inr ()"
proof -
  note ok = assms [unfolded crypto_ok_def]
  show "falcon_verify X (raw_pk (falcon X) sk) sg msg = Inr ()" if "falcon_sign X rng sk msg = Inr sg"
    using that scheme_correctD [of "falcon X" FALCON512_SK_LEN FALCON512_VK_LEN FALCON512_SIG_LEN sk rng msg sg] ok
    by (simp add: falcon_sign_def falcon_verify_def split: if_splits option.splits)
  show "slhdsa_verify X (raw_pk (slh X) sk) sg msg = Inr ()" if "slhdsa_sign X sk msg = Inr sg"
    using that scheme_correctD [of "slh X" SLHDSA128S_SK_LEN SLHDSA128S_VK_LEN SLHDSA128S_SIG_LEN sk "[]" msg sg] ok
    by (simp add: slhdsa_sign_def slhdsa_verify_def split: if_splits option.splits)
  show "ed25519_verify X (raw_pk (ed X) sk) sg msg = Inr ()" if "ed25519_sign X sk msg = Inr sg"
    using that scheme_correctD [of "ed X" ED_SK_LEN 32 ED_SIG_LEN sk "[]" msg sg] ok
    by (simp add: ed25519_sign_def ed25519_verify_def split: if_splits option.splits)
  show "bls_verify X (raw_pk (bls X) sk) sg msg = Inr ()" if "bls_sign X sk msg = Inr sg"
    using that scheme_correctD [of "bls X" BLS_SK_LEN BLS_VK_LEN BLS_SIG_LEN sk "[]" msg sg] ok
    by (simp add: bls_sign_def bls_verify_def split: if_splits option.splits)
qed

lemma sign_verify:
  assumes "crypto_ok X" "sign X rng algo sk msg = Inr sg"
  shows "verify X algo (pk_for X algo sk) sg msg = Inr ()"
  using assms(2) scheme_sign_verify [OF assms(1)]
  by (simp add: sign_def verify_def pk_for_def split: if_splits)

text \<open>What key generation relies on: a generator returns a signing key of the scheme with its verifying key.\<close>

definition key_of :: "scheme \<Rightarrow> nat \<Rightarrow> bytes \<times> bytes \<Rightarrow> bool" where
  "key_of S n kp \<longleftrightarrow> length (fst kp) = n \<and> sk_ok S (fst kp) \<and> snd kp = raw_pk S (fst kp)"

definition keygen_ok :: "crypto_ext \<Rightarrow> bool" where
  "keygen_ok X \<longleftrightarrow>
     (\<forall>rng. length (ed_generate X rng) = ED_SK_LEN) \<and>
     (\<forall>rng. key_of (falcon X) FALCON512_SK_LEN (falcon_keygen X rng)) \<and>
     (\<forall>rng vk sk. slh_keygen X rng = Some (vk, sk) \<longrightarrow> key_of (slh X) SLHDSA128S_SK_LEN (sk, vk)) \<and>
     (\<forall>ikm sk. bls_key_gen X ikm = Some sk \<longrightarrow> length sk = BLS_SK_LEN \<and> sk_ok (bls X) sk)"

text \<open>The key pairs the source can generate, by algorithm.\<close>

inductive generated :: "crypto_ext \<Rightarrow> u8 \<Rightarrow> bytes \<times> bytes \<Rightarrow> bool" for X where
  gen_falcon: "generated X 1 (falcon_keypair X rng)"
| gen_slhdsa: "slhdsa_keypair X rng = Inr kp \<Longrightarrow> generated X 2 kp"
| gen_ed25519: "generated X 3 (ed25519_keypair X rng)"
| gen_bls: "bls_keypair X rng = Some kp \<Longrightarrow> generated X 5 kp"

lemma generated_key:
  assumes "keygen_ok X" "generated X algo kp"
  shows "snd kp = pk_for X algo (fst kp)"
  using assms(2,1)
  by induction (auto simp: keygen_ok_def key_of_def falcon_keypair_def slhdsa_keypair_def ed25519_keypair_def bls_keypair_def
      pk_for_def Let_def split: option.splits prod.splits)

end
