(* ===== verification/Consensus_Pow.thy ===== *)
theory Consensus_Pow
  imports Core_Tx
begin

text \<open>
  Proof of work: \<open>crates/consensus/src/pow.rs\<close>. The compact \<open>bits\<close> encoding of a 256-bit target
  and its inverse, the header preimage and hash, and the comparison of a hash with a target. A
  target is a byte string of length 32, most significant byte first, as in the source.
\<close>

unbundle bit_operations_syntax

section \<open>Definitions\<close>

definition place_bytes :: "nat \<Rightarrow> bytes \<Rightarrow> bytes \<Rightarrow> bytes" where
  "place_bytes off bs target =
     fold (\<lambda>(i, b) t. let idx = off + i in if idx < 32 then t[idx := b] else t)
       (enumerate 0 bs) target"

definition target_from_bits :: "u32 \<Rightarrow> bytes" where
  "target_from_bits bts =
     (let exponent = unat (drop_bit 24 bts); mantissa = bts AND 0x007fffff;
          target = replicate 32 0 in
      if exponent = 0 \<or> exponent > 32 then target
      else place_bytes (32 - exponent) (drop 1 (to_be mantissa)) target)"

definition target_byte :: "bytes \<Rightarrow> nat \<Rightarrow> u8" where
  "target_byte target idx = (if idx < 32 then target ! idx else 0)"

definition top_mantissa :: "bytes \<Rightarrow> nat \<Rightarrow> u32" where
  "top_mantissa target z =
     fold (\<lambda>i m. push_bit 8 m OR ucast (target_byte target (z + i))) [0..<3] 0"

definition bits_from_target :: "bytes \<Rightarrow> u32" where
  "bits_from_target target =
     (let leading_zeros = length (takeWhile (\<lambda>b. b = 0) target) in
      if leading_zeros \<ge> 32 then 0
      else
        let exponent = 32 - leading_zeros;
            mantissa = top_mantissa target leading_zeros;
            (mantissa, exponent) =
              (if mantissa AND 0x00800000 \<noteq> 0 then (drop_bit 8 mantissa, exponent + 1)
               else (mantissa, exponent)) in
        if exponent > 0xff then 0
        else push_bit 24 (of_nat exponent) OR (mantissa AND 0x007fffff))"

definition header_preimage :: "block_header \<Rightarrow> bytes" where
  "header_preimage h =
     to_le (version h) @ to_le (height h) @ parent h @ to_le (timestamp_ms h) @ to_le (bits h) @
     to_le (nonce h) @ hdr_tx_root h @ hdr_witness_root h @ state_root h @ reflect_root h @
     coinbase h @ [hdr_sig_algo h, hdr_hash_algo h]"

definition hash_header :: "hash_ext \<Rightarrow> block_header \<Rightarrow> bytes" where
  "hash_header H h = truncate_to_32 (hash_with_domain H Blake3Xof512 ''hdr'' (header_preimage h))"

fun meets_target :: "bytes \<Rightarrow> bytes \<Rightarrow> bool" where
  "meets_target (h # hs) (t # ts) =
     (if h < t then True else if h > t then False else meets_target hs ts)"
| "meets_target _ _ = True"

section \<open>Comparing a hash with a target\<close>

lemma meets_target_iff:
  "length hs = length ts \<Longrightarrow> meets_target hs ts \<longleftrightarrow> be_nat hs \<le> be_nat ts"
proof (induction hs ts rule: list_induct2)
  case (Cons h hs t ts)
  have hs: "be_nat hs < 256 ^ length ts" and ts: "be_nat ts < 256 ^ length ts"
    using be_nat_bound [of hs] be_nat_bound [of ts] Cons.hyps by simp_all
  show ?case
  proof (cases "h = t")
    case True
    with Cons show ?thesis by (simp add: be_nat_Cons)
  next
    case False
    from False consider "unat h < unat t" | "unat t < unat h"
      using word_unat_eq_iff linorder_less_linear by blast
    then show ?thesis
      using radix_less [OF _ hs, of "unat h" "unat t" "be_nat ts"]
        radix_less [OF _ ts, of "unat t" "unat h" "be_nat hs"] Cons.hyps
      by cases (simp_all add: be_nat_Cons word_less_nat_alt)
  qed
qed simp

section \<open>The header preimage determines the header\<close>

definition header_wf :: "block_header \<Rightarrow> bool" where
  "header_wf h \<longleftrightarrow> length (parent h) = 32 \<and> length (hdr_tx_root h) = 32 \<and>
     length (hdr_witness_root h) = 32 \<and> length (state_root h) = 32 \<and>
     length (reflect_root h) = 32 \<and> length (coinbase h) = 32"

lemma header_preimage_inj:
  "header_wf h \<Longrightarrow> header_wf k \<Longrightarrow> header_preimage h = header_preimage k \<Longrightarrow> h = k"
  by (simp add: header_preimage_def header_wf_def)

lemma length_hash_header [simp]: "hash_ok H \<Longrightarrow> length (hash_header H h) = 32"
  by (simp add: hash_header_def)

section \<open>Compact bits\<close>

lemma place_three:
  assumes "z < 32"
  shows "place_bytes z [a, b, c] (replicate 32 0) =
    take 32 (replicate z 0 @ [a, b, c] @ replicate 32 0)"
  using assms
  by (intro nth_equalityI)
    (auto simp: place_bytes_def Let_def nth_list_update nth_append nth_Cons' split: if_splits)

lemma target_from_bits_closed:
  assumes "1 \<le> e" "e \<le> 32" "unat (drop_bit 24 bts) = e"
    and "drop 1 (to_be (bts AND 0x007fffff)) = [a, b, c]"
  shows "target_from_bits bts = take 32 (replicate (32 - e) 0 @ [a, b, c] @ replicate 32 0)"
  using assms place_three [of "32 - e" a b c] by (simp add: target_from_bits_def)

lemma byte_lt: "unat (b::u8) < 256"
  using unsigned_less [of b] by simp

lemma unat_shift_or_byte:
  fixes x :: u32 and b :: u8
  assumes "unat x < 2 ^ 24"
  shows "unat (push_bit 8 x OR ucast b) = unat x * 256 + unat b"
proof -
  have "push_bit 8 x AND ucast b = 0"
    by (rule bit_eqI) (auto simp: bit_simps dest: bit_imp_le_length)
  then have "push_bit 8 x OR ucast b = push_bit 8 x + ucast b"
    by (simp add: disjunctive_add_eq_or)
  moreover have "unat (push_bit 8 x) = unat x * 256"
    using assms by (simp add: push_bit_eq_mult unat_word_ariths)
  moreover have "unat (ucast b :: u32) = unat b"
    using byte_lt [of b] by (simp add: unsigned_ucast_eq take_bit_eq_mod)
  ultimately show ?thesis
    using assms byte_lt [of b] by (simp add: unat_word_ariths)
qed

lemma unat_top_mantissa:
  "unat (top_mantissa t z) =
     unat (target_byte t z) * 65536 + unat (target_byte t (z + 1)) * 256 + unat (target_byte t (z + 2))"
proof -
  define b0 b1 b2 where b: "b0 = target_byte t z" "b1 = target_byte t (z + 1)" "b2 = target_byte t (z + 2)"
  define x0 x1 :: u32 where x: "x0 = push_bit 8 0 OR ucast b0" "x1 = push_bit 8 x0 OR ucast b1"
  have u: "[0..<3] = [0, 1, 2::nat]" by (simp add: upt_conv_Cons)
  have t: "top_mantissa t z = push_bit 8 x1 OR ucast b2"
    by (simp only: top_mantissa_def u b x fold_simps id_apply comp_apply add_0_right)
  have x0: "unat x0 = unat b0" unfolding x by (subst unat_shift_or_byte) simp_all
  then have x1: "unat x1 = unat b0 * 256 + unat b1"
    unfolding x(2) using byte_lt [of b0] by (subst unat_shift_or_byte) simp_all
  then show ?thesis
    unfolding t using byte_lt [of b0] byte_lt [of b1] by (subst unat_shift_or_byte) (simp_all add: b)
qed

lemma pack_bits:
  fixes m :: u32
  assumes "e < 256" "unat m < 2 ^ 23"
  shows "unat (drop_bit 24 (push_bit 24 (of_nat e) OR (m AND 0x007fffff))) = e"
    and "(push_bit 24 (of_nat e) OR (m AND 0x007fffff)) AND 0x007fffff = m"
proof -
  have k: "(0x007fffff :: u32) = mask 23" by (simp add: mask_eq_exp_minus_1)
  have m: "m AND 0x007fffff = m" unfolding k take_bit_eq_mask [symmetric]
    using assms(2) by (simp only: word_unat_eq_iff unsigned_take_bit_eq) (simp add: take_bit_eq_mod)
  have "(push_bit 24 (of_nat e) OR m) AND mask 23 = m AND mask 23"
    by (rule bit_eqI) (auto simp: bit_simps)
  then show "(push_bit 24 (of_nat e) OR (m AND 0x007fffff)) AND 0x007fffff = m"
    using m by (simp add: k)
  have hi: "drop_bit 24 m = 0"
    using assms(2) by (simp add: word_unat_eq_iff word_nat)
  have e: "take_bit 8 (of_nat e :: u32) = of_nat e"
    using assms(1) by (simp only: word_unat_eq_iff unsigned_take_bit_eq) (simp add: take_bit_eq_mod unat_of_nat)
  have "drop_bit 24 (push_bit 24 (of_nat e :: u32)) = take_bit 8 (of_nat e)"
    by (rule bit_eqI) (auto simp: bit_simps)
  then show "unat (drop_bit 24 (push_bit 24 (of_nat e) OR (m AND 0x007fffff))) = e"
    using assms(1) by (simp add: m hi e unat_of_nat)
qed

lemma to_be_u32_tail:
  fixes m :: u32
  assumes "unat m = unat a * 65536 + unat b * 256 + unat c"
  shows "drop 1 (to_be m) = [a, b, c]"
proof -
  have four: "LENGTH(32) div 8 = Suc (Suc (Suc (Suc 0)))" by simp
  define v where "v = unat m"
  have u: "drop 1 (to_be m) = [of_nat (v div 65536), of_nat (v div 256), of_nat v]"
    unfolding to_be_def nat_be_def v_def [symmetric]
    unfolding four nat_le.simps by (simp add: div_mult2_eq [symmetric])
  have d: "v div 65536 = unat a" "v div 256 = unat a * 256 + unat b"
    using byte_lt [of b] byte_lt [of c] by (simp_all add: v_def assms)
  have z0: "of_nat 256 = (0 :: u8)" by simp
  have z: "of_nat (x * 256 + y) = (of_nat y :: u8)" for x y
    by (metis (no_types) add_0 mult_zero_right of_nat_add of_nat_mult z0)
  have "v = (unat a * 256 + unat b) * 256 + unat c" by (simp add: v_def assms)
  then show ?thesis unfolding u d using z [of "unat a" "unat b"] z [of "unat a * 256 + unat b" "unat c"]
    by simp
qed


lemma takeWhile_zeros: "a \<noteq> (0::u8) \<Longrightarrow> length (takeWhile (\<lambda>b. b = 0) (replicate z 0 @ a # rest)) = z"
  by (induction z) auto

lemma and_high_bit:
  fixes m :: u32
  assumes "unat m < 2 ^ 24"
  shows "m AND 0x00800000 \<noteq> 0 \<longleftrightarrow> 2 ^ 23 \<le> unat m"
proof -
  have "m AND 0x00800000 \<noteq> 0 \<longleftrightarrow> bit m 23"
    using and_exp_eq_0_iff_not_bit [of m 23] by simp
  also have "\<dots> \<longleftrightarrow> odd (unat m div 2 ^ 23)"
    by (metis bit_iff_odd bit_unsigned_iff possible_bit_nat)
  also have "\<dots> \<longleftrightarrow> 2 ^ 23 \<le> unat m"
  proof -
    have "unat m div 2 ^ 23 < 2" using assms by (simp add: less_mult_imp_div_less)
    then have "unat m div 2 ^ 23 = 0 \<or> unat m div 2 ^ 23 = 1" by auto
    then show ?thesis by (auto simp: div_eq_0_iff)
  qed
  finally show ?thesis .
qed

lemma pad_prefix:
  assumes len: "length t = 32" and k: "length p = k"
    and n: "\<And>i. i < k \<Longrightarrow> p ! i = target_byte t i"
  shows "take 32 (p @ replicate 32 0) = take (min 32 k) t @ replicate (32 - min 32 k) 0"
proof (rule nth_equalityI)
  show "length (take 32 (p @ replicate 32 0)) = length (take (min 32 k) t @ replicate (32 - min 32 k) 0)"
    using len k by simp
next
  fix i assume "i < length (take 32 (p @ replicate 32 (0::u8)))"
  then have "i < 32" by simp
  then show "take 32 (p @ replicate 32 0) ! i = (take (min 32 k) t @ replicate (32 - min 32 k) 0) ! i"
    using len k n [of i] by (auto simp: nth_append target_byte_def)
qed

lemma target_of_packed:
  fixes m :: u32
  assumes e: "1 \<le> e" "e \<le> 32" and m: "unat m = unat a * 65536 + unat b * 256 + unat c"
    and m23: "unat m < 2 ^ 23"
  shows "target_from_bits (push_bit 24 (of_nat e) OR (m AND 0x007fffff)) =
    take 32 (replicate (32 - e) 0 @ [a, b, c] @ replicate 32 0)"
proof (rule target_from_bits_closed [OF e])
  have "e < 256" using e by simp
  note pack = pack_bits [OF this m23]
  show "unat (drop_bit 24 (push_bit 24 (of_nat e) OR (m AND 0x007fffff))) = e" by (fact pack(1))
  show "drop 1 (to_be ((push_bit 24 (of_nat e) OR (m AND 0x007fffff)) AND 0x007fffff)) = [a, b, c]"
    unfolding pack(2) by (rule to_be_u32_tail [OF m])
qed

text \<open>The compact form of a target whose leading non-zero byte is \<open>a\<close>, at index \<open>z\<close>.\<close>

lemma bits_from_target_form:
  assumes t: "t = replicate z 0 @ a # rest" and len: "length t = 32" and a: "a \<noteq> 0"
  defines "b \<equiv> target_byte t (z + 1)" and "c \<equiv> target_byte t (z + 2)"
  obtains (high) m where "0x80 \<le> a" "2 ^ 15 \<le> unat m" "unat m < 2 ^ 23"
      "bits_from_target t = push_bit 24 (of_nat (33 - z)) OR (m AND 0x007fffff)"
      "unat m = unat (0::u8) * 65536 + unat a * 256 + unat b"
    | (low) m where "a < 0x80" "2 ^ 15 \<le> unat m" "unat m < 2 ^ 23"
      "bits_from_target t = push_bit 24 (of_nat (32 - z)) OR (m AND 0x007fffff)"
      "unat m = unat a * 65536 + unat b * 256 + unat c"
proof -
  define m where "m = top_mantissa t z"
  have z: "z < 32" using t len by simp
  have ta: "target_byte t z = a" using z by (simp add: target_byte_def t nth_append)
  then have m: "unat m = unat a * 65536 + unat b * 256 + unat c"
    unfolding m_def b_def c_def by (simp add: unat_top_mantissa)
  have m24: "unat m < 2 ^ 24" using m byte_lt [of a] byte_lt [of b] byte_lt [of c] by simp
  have lz: "length (takeWhile (\<lambda>b. b = 0) t) = z" using a by (simp add: t takeWhile_zeros)
  show thesis
  proof (cases "0x80 \<le> a")
    case True
    then have a80: "128 \<le> unat a" by (simp add: word_le_nat_alt)
    have d: "unat (drop_bit 8 m) = unat (0::u8) * 65536 + unat a * 256 + unat b"
      using m byte_lt [of c] by (simp add: word_nat)
    have hi: "m AND 0x00800000 \<noteq> 0" using and_high_bit [OF m24] m a80 by simp
    have "33 - z = 32 - z + 1" using z by simp
    then have "bits_from_target t = push_bit 24 (of_nat (33 - z)) OR (drop_bit 8 m AND 0x007fffff)"
      using z hi by (simp only: bits_from_target_def lz m_def [symmetric] Let_def) simp
    with True d a80 show thesis
      using byte_lt [of a] byte_lt [of b] by (intro high) simp_all
  next
    case False
    then have a80: "unat a < 128" by (simp add: word_le_nat_alt)
    have "1 \<le> unat a" using a by (simp add: Suc_le_eq unat_gt_0)
    moreover have small: "unat m < 2 ^ 23" using m a80 byte_lt [of b] byte_lt [of c] by simp
    have "m AND 0x00800000 = 0" using and_high_bit [OF m24] small by simp
    then have "bits_from_target t = push_bit 24 (of_nat (32 - z)) OR (m AND 0x007fffff)"
      using z by (simp only: bits_from_target_def lz m_def [symmetric] Let_def) auto
    ultimately show thesis using False small m by (intro low) (simp_all add: not_le)
  qed
qed

lemma compact_truncates:
  assumes t: "t = replicate z 0 @ a # rest" and len: "length t = 32" and a: "a \<noteq> 0"
    and top: "z = 0 \<Longrightarrow> a < 0x80"
  defines "n \<equiv> min 32 (z + (if 0x80 \<le> a then 2 else 3))"
  shows "target_from_bits (bits_from_target t) = take n t @ replicate (32 - n) 0"
proof -
  define b c where bc: "b = target_byte t (z + 1)" "c = target_byte t (z + 2)"
  have z: "z < 32" using t len by simp
  have ta: "target_byte t z = a" using z by (simp add: target_byte_def t nth_append)
  have zs: "i < z \<Longrightarrow> target_byte t i = 0" for i using z by (simp add: target_byte_def t nth_append)
  have p3: "take 32 ((replicate z 0 @ [a, b, c]) @ replicate 32 0) =
      take (min 32 (z + 3)) t @ replicate (32 - min 32 (z + 3)) 0"
    by (rule pad_prefix [OF len]) (auto simp: nth_append bc zs ta less_Suc_eq numeral_3_eq_3)
  have p2: "take 32 ((replicate z 0 @ [a, b]) @ replicate 32 0) =
      take (min 32 (z + 2)) t @ replicate (32 - min 32 (z + 2)) 0"
    by (rule pad_prefix [OF len]) (auto simp: nth_append bc zs ta less_Suc_eq)
  from t len a show ?thesis
  proof (cases rule: bits_from_target_form)
    case (high m)
    have z0: "0 < z" using top high(1) by (cases "z = 0") auto
    have "target_from_bits (bits_from_target t) =
        take 32 (replicate (32 - (33 - z)) 0 @ [0, a, b] @ replicate 32 0)"
      unfolding high(4) by (rule target_of_packed [OF _ _ high(5) [folded bc] high(3)]) (use z z0 in simp_all)
    also have "replicate (32 - (33 - z)) (0::u8) @ [0, a, b] @ replicate 32 0 =
        (replicate z 0 @ [a, b]) @ replicate 32 0"
      using z0 z by (cases z) (simp_all add: replicate_append_same [symmetric])
    also note p2
    finally show ?thesis using high(1) by (simp only: n_def if_True)
  next
    case (low m)
    have "target_from_bits (bits_from_target t) =
        take 32 ((replicate (32 - (32 - z)) 0 @ [a, b, c]) @ replicate 32 0)"
      unfolding low(4) append_assoc
      by (rule target_of_packed [OF _ _ low(5) [folded bc] low(3)]) (use z in simp_all)
    also have "32 - (32 - z) = z" using z by simp
    also note p3
    finally show ?thesis using low(1) by (simp only: n_def not_le [symmetric] if_False)
  qed
qed

lemma leading_byte_split:
  assumes "length t = 32" "be_nat t \<noteq> 0"
  obtains z a rest where "t = replicate z 0 @ a # rest" "a \<noteq> (0::u8)"
proof -
  define p where "p = takeWhile (\<lambda>b. b = 0) t"
  define q where "q = dropWhile (\<lambda>b. b = 0) t"
  have t: "t = p @ q" by (simp add: p_def q_def)
  have p: "p = replicate (length p) 0"
    by (rule replicate_length_same [symmetric]) (auto simp: p_def dest: set_takeWhileD)
  have "be_nat p = 0" by (subst p) simp
  then have "q \<noteq> []" using assms(2) t by (intro notI) simp
  then obtain a rest where q: "q = a # rest" by (cases q) auto
  then have "a \<noteq> 0" using hd_dropWhile [of "\<lambda>b. b = 0" t] by (simp add: q_def)
  moreover have "t = replicate (length p) 0 @ a # rest" using t q by (subst p [symmetric]) simp
  ultimately show thesis using that by blast
qed

lemma be_nat_prefix: "be_nat (replicate z 0 @ xs) = be_nat xs"
  by (simp add: be_nat_append)

lemma compact_close:
  assumes len: "length t = 32" and nz: "be_nat t \<noteq> 0" and lt: "be_nat t < 2 ^ 255"
  defines "t' \<equiv> target_from_bits (bits_from_target t)"
  shows "be_nat t' \<le> be_nat t \<and> (be_nat t - be_nat t') * 2 ^ 15 < be_nat t"
proof -
  obtain z a rest where t: "t = replicate z 0 @ a # rest" and a: "a \<noteq> 0"
    using leading_byte_split [OF len nz] .
  have z: "length rest = 31 - z" "z < 32" using len t by auto
  have top: "a < 0x80" if "z = 0"
  proof (rule ccontr)
    assume "\<not> a < 0x80"
    then have "128 \<le> unat a" by (simp add: word_less_nat_alt)
    then have "128 * 256 ^ 31 \<le> be_nat t" using that z by (simp add: t be_nat_Cons trans_le_add1)
    with lt show False by simp
  qed
  define k where "k = z + (if 0x80 \<le> a then 2 else 3)"
  define n where "n = min 32 k"
  have t': "t' = take n t @ replicate (32 - n) 0"
    unfolding t'_def n_def k_def by (rule compact_truncates [OF t len a top])
  have n: "n \<le> 32" by (simp add: n_def)
  have split: "be_nat t = be_nat (take n t) * 256 ^ (32 - n) + be_nat (drop n t)"
    using be_nat_append [of "take n t" "drop n t"] len by simp
  have t'v: "be_nat t' = be_nat (take n t) * 256 ^ (32 - n)" by (simp add: t' be_nat_append)
  show ?thesis
  proof (cases "n = 32")
    case True
    then have "t' = t" using len by (simp add: t')
    then show ?thesis using nz by simp
  next
    case False
    then have nk: "n = k" "n < 32" by (auto simp: n_def min_def split: if_splits)
    have "be_nat (take n t) \<ge> 2 ^ 15"
    proof (cases "0x80 \<le> a")
      case True
      then have "take n t = replicate z 0 @ a # take 1 rest" "length (take 1 rest) = 1"
        using nk z by (simp_all add: k_def t)
      with True show ?thesis by (simp add: be_nat_prefix be_nat_Cons word_le_nat_alt)
    next
      case small: False
      then have "take n t = replicate z 0 @ a # take 2 rest" "length (take 2 rest) = 2"
        using nk z by (simp_all add: k_def t)
      moreover have "1 \<le> unat a" using a by (simp add: Suc_le_eq unat_gt_0)
      ultimately show ?thesis by (simp add: be_nat_prefix be_nat_Cons)
    qed
    then have "2 ^ 15 * 256 ^ (32 - n) \<le> be_nat t'" unfolding t'v by (rule mult_right_mono) simp
    moreover have "be_nat (drop n t) < 256 ^ (32 - n)" using be_nat_bound [of "drop n t"] len by simp
    moreover have "be_nat t = be_nat t' + be_nat (drop n t)" using split t'v by simp
    ultimately show ?thesis by simp
  qed
qed

text \<open>The encoding of a target that came from canonical bits gives those bits back.\<close>

lemma bits_roundtrip:
  fixes m :: u32
  assumes e: "3 \<le> e" "e \<le> 32" and m: "2 ^ 15 \<le> unat m" "unat m < 2 ^ 23"
  defines "b \<equiv> push_bit 24 (of_nat e) OR (m AND 0x007fffff)"
  shows "bits_from_target (target_from_bits b) = b"
proof -
  define x0 x1 x2 :: u8 where x: "x0 = of_nat (unat m div 65536)" "x1 = of_nat (unat m div 256)" "x2 = of_nat (unat m)"
  have u: "unat x0 = unat m div 65536" "unat x1 = unat m div 256 mod 256" "unat x2 = unat m mod 256"
    using m unfolding x unat_of_nat by simp_all
  have mv: "unat m = unat x0 * 65536 + unat x1 * 256 + unat x2"
    unfolding u using mod_mult2_eq [of "unat m" 256 256] div_mult_mod_eq [of "unat m" 65536] by simp
  define t where "t = target_from_bits b"
  have t: "t = replicate (32 - e) 0 @ [x0, x1, x2] @ replicate (e - 3) 0"
  proof -
    obtain k where k: "e = Suc (Suc (Suc k))" using e(1) by (metis Suc_le_D numeral_3_eq_3 Suc_le_mono)
    have "take e (x0 # x1 # x2 # replicate 32 0) = x0 # x1 # x2 # replicate k 0"
      unfolding k take_Suc_Cons using e(2) k by simp
    moreover have "e - 3 = k" using k by simp
    ultimately show ?thesis using target_of_packed [OF _ e(2) mv m(2)] e by (simp add: t_def b_def)
  qed
  have len: "length t = 32" using e by (simp add: t)
  have tb: "target_byte t (32 - e + i) = ([x0, x1, x2] @ replicate (e - 3) 0) ! i" if "i < e" for i
  proof -
    have "32 - e + i < 32" using that e by simp
    then show ?thesis
      using nth_append_length_plus [of "replicate (32 - e) (0::u8)" "[x0, x1, x2] @ replicate (e - 3) 0" i]
      by (simp only: target_byte_def t if_True length_replicate)
  qed
  show ?thesis
  proof (cases "x0 = 0")
    case False
    define z where "z = 32 - e"
    have lz: "length (takeWhile (\<lambda>b. b = 0) t) = z"
      using False by (simp add: t z_def takeWhile_zeros)
    have "top_mantissa t z = m"
      unfolding word_unat_eq_iff unat_top_mantissa mv using tb [of 0] tb [of 1] tb [of 2] e
      by (simp add: z_def)
    moreover have "m AND 0x00800000 = 0" using and_high_bit [of m] m by simp
    moreover have "32 - z = e" "z < 32" using e by (auto simp: z_def)
    ultimately show ?thesis unfolding t_def [symmetric]
      using e by (simp only: bits_from_target_def lz Let_def) (auto simp: b_def)
  next
    case True
    then have x1: "128 \<le> unat x1" using m mv byte_lt [of x2] by simp
    define z where "z = 33 - e"
    have zS: "z = Suc (32 - e)" using e by (simp add: z_def)
    have lz: "length (takeWhile (\<lambda>b. b = 0) t) = z"
    proof -
      have "t = replicate z 0 @ x1 # (x2 # replicate (e - 3) 0)"
        using e zS by (simp add: t True replicate_app_Cons_same)
      moreover have "x1 \<noteq> 0" using x1 by auto
      ultimately show ?thesis by (simp add: takeWhile_zeros)
    qed
    define w where "w = top_mantissa t z"
    have w: "unat w = unat x1 * 65536 + unat x2 * 256 + unat (target_byte t (z + 2))"
      unfolding w_def unat_top_mantissa using tb [of 1] tb [of 2] e zS by simp
    have "unat w < 2 ^ 24" "2 ^ 23 \<le> unat w"
      using w x1 byte_lt [of x1] byte_lt [of x2] byte_lt [of "target_byte t (z + 2)"] by auto
    then have hi: "w AND 0x00800000 \<noteq> 0" using and_high_bit [of w] by simp
    have "drop_bit 8 w = m"
      unfolding word_unat_eq_iff using w mv True byte_lt [of "target_byte t (z + 2)"] by (simp add: word_nat)
    moreover have "32 - z + 1 = e" "z < 32" using e by (auto simp: z_def)
    ultimately show ?thesis unfolding t_def [symmetric]
      using e hi by (simp only: bits_from_target_def lz Let_def w_def [symmetric]) (auto simp: b_def)
  qed
qed


lemma bits_from_target_stable:
  assumes t: "t = replicate z 0 @ a # rest" and len: "length t = 32" and a: "a \<noteq> 0" and z: "0 < z" "z < 30"
  shows "bits_from_target (target_from_bits (bits_from_target t)) = bits_from_target t"
  using t len a
proof (cases rule: bits_from_target_form)
  case (high m)
  then show ?thesis using bits_roundtrip [of "33 - z" m] z by simp
next
  case (low m)
  then show ?thesis using bits_roundtrip [of "32 - z" m] z by simp
qed

end
