(* ===== verification/Consensus_Retarget.thy ===== *)
theory Consensus_Retarget
  imports Consensus_Pow
begin

text \<open>
  The Bitcoin-style retarget (\<open>crates/consensus/src/retarget.rs\<close>) and the stability bias of the
  reflection windows (\<open>crates/consensus/src/reflection.rs\<close>). The multi-limb product and the long
  division are the loops of the source, over big-endian lists of \<open>u64\<close> limbs; they are proved
  equal to the exact arithmetic on natural numbers.
\<close>

unbundle bit_operations_syntax

section \<open>Definitions\<close>

definition clamp_retarget :: "u64 \<Rightarrow> u64 \<Rightarrow> (u64 \<times> u64) option" where
  "clamp_retarget actual_timespan_ms expected_timespan_ms =
     (let mn = expected_timespan_ms div 4; mx = sat_mul expected_timespan_ms 4 in
      case clamp_word actual_timespan_ms mn mx of
        None \<Rightarrow> None
      | Some actual \<Rightarrow> Some (actual, expected_timespan_ms))"

definition limbs_of :: "bytes \<Rightarrow> u64 list" where
  "limbs_of a = map (\<lambda>i. from_be (take 8 (drop (8 * i) a))) [0..<4]"

text \<open>One pass from the low limb to the high one: the limbs of the product and the carry out.\<close>

fun mul_limbs :: "u64 list \<Rightarrow> u64 \<Rightarrow> u64 list \<times> u128" where
  "mul_limbs [] b = ([], 0)"
| "mul_limbs (l # ls) b =
     (case mul_limbs ls b of (out, carry) \<Rightarrow>
        let p = ucast l * ucast b + carry in (ucast p # out, drop_bit 64 p))"

definition mul_u256_u64 :: "bytes \<Rightarrow> u64 \<Rightarrow> u64 list" where
  "mul_u256_u64 a b = (case mul_limbs (limbs_of a) b of (out, carry) \<Rightarrow> ucast carry # out)"

fun div_limbs :: "u128 \<Rightarrow> u64 list \<Rightarrow> u64 \<Rightarrow> u64 list \<times> u128" where
  "div_limbs rm [] d = ([], rm)"
| "div_limbs rm (n # ns) d =
     (let acc = push_bit 64 rm OR ucast n;
          (q, r) = div_limbs (acc mod ucast d) ns d in
      (ucast (acc div ucast d) # q, r))"

definition div_u320_u64 :: "u64 list \<Rightarrow> u64 \<Rightarrow> u64 list \<times> u64" where
  "div_u320_u64 num d = (case div_limbs 0 num d of (q, r) \<Rightarrow> (q, ucast r))"

definition bitcoin_retarget :: "bytes \<Rightarrow> u64 \<Rightarrow> u64 \<Rightarrow> bytes option" where
  "bitcoin_retarget old_target actual_ms expected_ms =
     (case clamp_retarget actual_ms expected_ms of
        None \<Rightarrow> None
      | Some (actual, expected) \<Rightarrow>
          if expected = 0 then Some old_target
          else
            let prod = mul_u256_u64 old_target actual; quot = fst (div_u320_u64 prod expected) in
            if quot ! 0 \<noteq> 0 then Some (replicate 32 0xFF)
            else Some (to_be (quot ! 1) @ to_be (quot ! 2) @ to_be (quot ! 3) @ to_be (quot ! 4)))"

section \<open>Limb arithmetic is exact\<close>

definition limb_base :: nat where
  "limb_base = 2 ^ 64"

definition limbs_nat :: "u64 list \<Rightarrow> nat" where
  "limbs_nat ls = foldl (\<lambda>acc l. acc * limb_base + unat l) 0 ls"

lemma limb_lt: "unat (x :: u64) < limb_base"
  using unsigned_less [of x] by (simp add: limb_base_def)

lemma foldl_limbs:
  "foldl (\<lambda>acc l. acc * limb_base + unat l) a ls = a * limb_base ^ length ls + limbs_nat ls"
  for ls :: "u64 list"
proof (induction ls arbitrary: a)
  case (Cons l ls)
  from Cons [of "a * limb_base + unat l"] Cons [of "unat l"] show ?case
    by (simp add: limbs_nat_def algebra_simps)
qed (simp add: limbs_nat_def)

lemma limbs_nat_Nil [simp]: "limbs_nat [] = 0"
  by (simp add: limbs_nat_def)

lemma limbs_nat_Cons: "limbs_nat (l # ls) = unat l * limb_base ^ length ls + limbs_nat ls"
  using foldl_limbs [of "unat l" ls] by (simp add: limbs_nat_def)

lemma limbs_nat_bound: "limbs_nat ls < limb_base ^ length ls"
proof (induction ls)
  case (Cons l ls)
  have "unat l * limb_base ^ length ls + limbs_nat ls < limb_base * limb_base ^ length ls + 0"
    by (rule radix_less [OF limb_lt Cons])
  then show ?case by (simp add: limbs_nat_Cons)
qed simp

lemma unat_ucast_128: "unat (ucast (x :: u64) :: u128) = unat x"
  using unsigned_less [of x, where ?'a = nat] by (simp add: unsigned_ucast_eq take_bit_eq_mod)

lemma unat_ucast_64: "unat (ucast (x :: u128) :: u64) = unat x mod limb_base"
  by (simp add: unsigned_ucast_eq take_bit_eq_mod limb_base_def)

lemma unat_drop_64: "unat (drop_bit 64 (x :: u128)) = unat x div limb_base"
  by (simp add: word_nat limb_base_def)

text \<open>One product of limbs plus a carry fits in 128 bits.\<close>

lemma limb_product:
  fixes l b :: u64 and c :: u128
  assumes "unat c < limb_base"
  shows "unat (ucast l * ucast b + c) = unat l * unat b + unat c"
    and "unat l * unat b + unat c < limb_base * limb_base"
proof -
  have lb: "unat l * unat b \<le> (2 ^ 64 - 1) * (2 ^ 64 - 1)"
    using limb_lt [of l] limb_lt [of b] by (intro mult_le_mono) (simp_all add: limb_base_def)
  then show "unat (ucast l * ucast b + c) = unat l * unat b + unat c"
    "unat l * unat b + unat c < limb_base * limb_base"
    using assms unfolding unat_word_ariths unat_ucast_128 by (simp_all add: limb_base_def)
qed

lemma mul_limbs_exact:
  assumes "mul_limbs ls b = (out, carry)"
  shows "length out = length ls \<and> unat carry < limb_base \<and>
    unat carry * limb_base ^ length ls + limbs_nat out = limbs_nat ls * unat b"
  using assms
proof (induction ls arbitrary: out carry)
  case Nil
  then show ?case by (auto simp: limb_base_def)
next
  case (Cons l ls)
  obtain o' c' where r: "mul_limbs ls b = (o', c')" by fastforce
  note IH = Cons.IH [OF r]
  define p :: u128 where "p = ucast l * ucast b + c'"
  have e: "out = ucast p # o'" "carry = drop_bit 64 p"
    using Cons.prems by (simp_all add: r p_def Let_def)
  have p: "unat p = unat l * unat b + unat c'" unfolding p_def by (rule limb_product(1)) (use IH in simp)
  define h k where hk: "h = unat p div limb_base" "k = unat p mod limb_base"
  have "h * limb_base + k = unat l * unat b + unat c'" unfolding hk by (simp only: div_mult_mod_eq p)
  then have "(h * limb_base + k) * limb_base ^ length ls =
      (unat l * unat b + unat c') * limb_base ^ length ls" by simp
  moreover have "h < limb_base"
    using limb_product(2) [of c' l b] IH by (simp add: hk(1) p less_mult_imp_div_less)
  moreover have "unat carry = h" "unat (ucast p :: u64) = k"
    by (simp_all add: e hk unat_drop_64 unat_ucast_64)
  ultimately show ?case using IH by (simp add: e(1) limbs_nat_Cons algebra_simps)
qed

lemma unat_shift_or_limb:
  fixes x :: u128 and n :: u64
  assumes "unat x < limb_base"
  shows "unat (push_bit 64 x OR ucast n) = unat x * limb_base + unat n"
proof -
  have "push_bit 64 x AND ucast n = 0"
    by (rule bit_eqI) (auto simp: bit_simps dest: bit_imp_le_length)
  then have "push_bit 64 x OR ucast n = push_bit 64 x + ucast n"
    by (simp add: disjunctive_add_eq_or)
  moreover have "unat (push_bit 64 x) = unat x * limb_base"
    using assms by (simp add: push_bit_eq_mult unat_word_ariths limb_base_def)
  ultimately show ?thesis
    using assms limb_lt [of n] by (simp add: unat_word_ariths unat_ucast_128 limb_base_def)
qed

lemma div_limbs_exact:
  assumes "div_limbs rm ns d = (q, r)" "unat rm < unat d"
  shows "length q = length ns \<and> unat r < unat d \<and>
    limbs_nat q * unat d + unat r = unat rm * limb_base ^ length ns + limbs_nat ns"
  using assms
proof (induction ns arbitrary: rm q r)
  case (Cons n ns)
  define acc :: u128 where "acc = push_bit 64 rm OR ucast n"
  obtain q' r' where d: "div_limbs (acc mod ucast d) ns d = (q', r')" by fastforce
  have e: "q = ucast (acc div ucast d) # q'" "r = r'"
    using Cons.prems(1) d by (simp_all add: acc_def Let_def)
  have acc: "unat acc = unat rm * limb_base + unat n"
    unfolding acc_def using Cons.prems(2) limb_lt [of d] by (intro unat_shift_or_limb) simp
  have m: "unat (acc mod ucast d) = unat acc mod unat d" by (simp add: unat_mod unat_ucast_128)
  define h k where hk: "h = unat acc div unat d" "k = unat acc mod unat d"
  have "unat rm * limb_base + unat n < unat d * limb_base + 0"
    by (rule radix_less [OF Cons.prems(2) limb_lt])
  then have "h < limb_base" by (simp add: hk(1) acc less_mult_imp_div_less mult.commute)
  then have h: "unat (ucast (acc div ucast d) :: u64) = h"
    unfolding unat_ucast_64 by (simp add: unat_div unat_ucast_128 hk)
  have "0 < unat d" using Cons.prems(2) by simp
  then have IH: "length q' = length ns \<and> unat r' < unat d \<and>
      limbs_nat q' * unat d + unat r' = k * limb_base ^ length ns + limbs_nat ns"
    using Cons.IH [OF d] by (simp add: m hk(2))
  have "h * unat d + k = unat rm * limb_base + unat n" unfolding hk by (simp only: div_mult_mod_eq acc)
  then have "(h * unat d + k) * limb_base ^ length ns =
      (unat rm * limb_base + unat n) * limb_base ^ length ns" by simp
  with IH show ?case by (simp add: e limbs_nat_Cons h algebra_simps)
qed simp

lemma limbs_nat_limbs_of:
  assumes "length a = 32"
  shows "limbs_nat (limbs_of a) = be_nat a"
proof -
  define f where "f i = take 8 (drop (8 * i) a)" for i
  have l: "length (f i) = 8" if "i < 4" for i using that assms by (simp add: f_def)
  have u: "unat (from_be (f i) :: u64) = be_nat (f i)" for i
    by (rule be_nat_from_be) (simp add: f_def)
  have "drop 24 a = f 3" using assms by (simp add: f_def)
  then have "f 2 @ f 3 = drop 16 a" using append_take_drop_id [of 8 "drop 16 a"] by (simp add: f_def)
  then have "f 1 @ f 2 @ f 3 = drop 8 a" using append_take_drop_id [of 8 "drop 8 a"] by (simp add: f_def)
  then have "a = f 0 @ f 1 @ f 2 @ f 3" by (simp add: f_def)
  then have "be_nat a = be_nat (f 0 @ f 1 @ f 2 @ f 3)" by simp
  moreover have "limbs_of a = [from_be (f 0), from_be (f 1), from_be (f 2), from_be (f 3)]"
    by (simp add: limbs_of_def f_def upt_rec)
  ultimately show ?thesis
    by (simp add: limbs_nat_Cons u be_nat_append l limb_base_def)
qed

lemma length_limbs_of [simp]: "length (limbs_of a) = 4"
  by (simp add: limbs_of_def)

lemma mul_u256_u64_exact:
  assumes "length a = 32"
  shows "length (mul_u256_u64 a b) = 5 \<and> limbs_nat (mul_u256_u64 a b) = be_nat a * unat b"
proof -
  obtain out c where r: "mul_limbs (limbs_of a) b = (out, c)" by fastforce
  from mul_limbs_exact [OF r] show ?thesis
    by (simp add: mul_u256_u64_def r limbs_nat_Cons unat_ucast_64 limbs_nat_limbs_of [OF assms])
qed

lemma div_u320_u64_exact:
  assumes "d \<noteq> 0"
  shows "length (fst (div_u320_u64 num d)) = length num \<and>
    limbs_nat (fst (div_u320_u64 num d)) = limbs_nat num div unat d \<and>
    unat (snd (div_u320_u64 num d)) = limbs_nat num mod unat d"
proof -
  obtain q r where dv: "div_limbs 0 num d = (q, r)" by fastforce
  have d: "0 < unat d" using assms by (simp add: unat_gt_0)
  from div_limbs_exact [OF dv] d have e: "length q = length num" "unat r < unat d"
    "limbs_nat num = limbs_nat q * unat d + unat r" by simp_all
  then have "limbs_nat num div unat d = limbs_nat q" "limbs_nat num mod unat d = unat r"
    by simp_all
  moreover have "unat (ucast r :: u64) = unat r" using e(2) limb_lt [of d] by (simp add: unat_ucast_64)
  ultimately show ?thesis using e(1) by (simp add: div_u320_u64_def dv)
qed

section \<open>The retarget\<close>

lemma clamp_retarget_defined:
  obtains a where "clamp_retarget actual expected = Some (a, expected)"
    and "unat a = max (unat expected div 4) (min (min (unat expected * 4) (2 ^ 64 - 1)) (unat actual))"
proof -
  have "expected div 4 \<le> sat_mul expected 4"
    using limb_lt [of expected] by (auto simp: word_le_nat_alt word_nat limb_base_def)
  then obtain a where a: "clamp_word actual (expected div 4) (sat_mul expected 4) = Some a"
    by (auto simp: clamp_word_def)
  from clamp_word_SomeD(3) [OF a] that [of a] show thesis
    by (simp add: clamp_retarget_def a word_nat)
qed

lemma limbs_bytes:
  fixes q :: "u64 list"
  assumes "length q = 5"
  shows "be_nat (to_be (q ! 1) @ to_be (q ! 2) @ to_be (q ! 3) @ to_be (q ! 4)) +
    unat (q ! 0) * 2 ^ 256 = limbs_nat q"
proof -
  obtain a b c d e where q: "q = [a, b, c, d, e]"
    using assms by (auto simp: eval_nat_numeral length_Suc_conv)
  show ?thesis
    by (simp add: q be_nat_append be_nat_to_be limbs_nat_Cons limb_base_def)
qed


lemma be_nat_all_ones: "be_nat (replicate n 0xFF) = 256 ^ n - 1"
proof (induction n)
  case (Suc n)
  have "1 \<le> (256::nat) ^ n" by simp
  with Suc show ?case by (simp add: be_nat_Cons)
qed simp

text \<open>The timespan the retarget really uses: the measured one held within a factor of four.\<close>

definition used_timespan :: "nat \<Rightarrow> nat \<Rightarrow> nat" where
  "used_timespan actual expected =
     max (expected div 4) (min (min (expected * 4) (2 ^ 64 - 1)) actual)"

lemma bitcoin_retarget_exact:
  assumes len: "length t = 32" and e: "expected \<noteq> 0"
  shows "\<exists>t'. bitcoin_retarget t actual expected = Some t' \<and> length t' = 32 \<and>
    be_nat t' = min (be_nat t * used_timespan (unat actual) (unat expected) div unat expected) (2 ^ 256 - 1)"
proof -
  obtain a where a: "clamp_retarget actual expected = Some (a, expected)"
    and au: "unat a = used_timespan (unat actual) (unat expected)"
    unfolding used_timespan_def using clamp_retarget_defined .
  define q where "q = fst (div_u320_u64 (mul_u256_u64 t a) expected)"
  have q: "length q = 5" "limbs_nat q = be_nat t * unat a div unat expected"
    using div_u320_u64_exact [OF e] mul_u256_u64_exact [OF len] by (simp_all add: q_def)
  note lb = limbs_bytes [OF q(1), unfolded q(2) au]
  have r: "bitcoin_retarget t actual expected =
      (if q ! 0 \<noteq> 0 then Some (replicate 32 0xFF)
       else Some (to_be (q ! 1) @ to_be (q ! 2) @ to_be (q ! 3) @ to_be (q ! 4)))"
    using e by (simp add: bitcoin_retarget_def a q_def Let_def)
  show ?thesis
  proof (cases "q ! 0 = 0")
    case True
    have "be_nat (to_be (q ! 1) @ to_be (q ! 2) @ to_be (q ! 3) @ to_be (q ! 4)) < 256 ^ 32"
      using be_nat_bound [of "to_be (q ! 1) @ to_be (q ! 2) @ to_be (q ! 3) @ to_be (q ! 4)"] by simp
    then show ?thesis using r True lb by simp
  next
    case False
    then have "1 \<le> unat (q ! 0)" by (simp add: Suc_le_eq unat_gt_0)
    then have "1 * 2 ^ 256 \<le> unat (q ! 0) * 2 ^ 256" by (rule mult_le_mono1)
    then have "2 ^ 256 \<le> be_nat t * used_timespan (unat actual) (unat expected) div unat expected"
      using lb by linarith
    then show ?thesis using r False be_nat_all_ones [of 32] by simp
  qed
qed

section \<open>Stability bias\<close>

datatype reflect_window = Short | Long | Epoch

fun window_blocks :: "reflect_window \<Rightarrow> u64" where
  "window_blocks Short = 144"
| "window_blocks Long = 2016"
| "window_blocks Epoch = 210000"

fun path_tag :: "reflect_window \<Rightarrow> string" where
  "path_tag Short = ''window_short''"
| "path_tag Long = ''window_long''"
| "path_tag Epoch = ''window_epoch''"

record reflection =
  hashrate_proxy :: u128
  active_addresses :: u64
  fee_sum :: u128
  emission :: u128
  r_h_q64 :: i128
  r_a_q64 :: i128
  stability_bias :: i8

definition compute_stability_bias :: "reflection \<Rightarrow> reflection \<Rightarrow> i8" where
  "compute_stability_bias prev cur =
     (if active_addresses prev = 0 \<or> active_addresses cur = 0 then 0
      else
        let lhs = sat_mul (fee_sum cur) (ucast (active_addresses prev));
            rhs = sat_mul (fee_sum prev) (ucast (active_addresses cur)) in
        if rhs < lhs then 1 else if lhs < rhs then - 1 else 0)"

text \<open>
  Below saturation the bias is the sign of the change of the rational fee per active address;
  for a pair of windows it is antisymmetric whatever their values.
\<close>

lemma stability_bias_antisym:
  "compute_stability_bias q p = - compute_stability_bias p q"
  by (auto simp: compute_stability_bias_def Let_def)

lemma stability_bias_sign:
  assumes "active_addresses p \<noteq> 0" "active_addresses c \<noteq> 0"
    and "unat (fee_sum c) * unat (active_addresses p) < 2 ^ 128"
    and "unat (fee_sum p) * unat (active_addresses c) < 2 ^ 128"
  shows "sint (compute_stability_bias p c) =
    sgn (int (unat (fee_sum c) * unat (active_addresses p)) - int (unat (fee_sum p) * unat (active_addresses c)))"
proof -
  have m: "unat (sat_mul f (ucast a) :: u128) = unat f * unat a" if "unat f * unat a < 2 ^ 128" for f and a :: u64
    using that by (simp add: word_nat unat_ucast_128)
  show ?thesis
    using assms by (simp add: compute_stability_bias_def Let_def word_less_nat_alt m sgn_if del: of_nat_mult of_nat_diff)
qed

end
