(* ===== verification/State_Data.thy ===== *)
theory State_Data
  imports State_Store Core_Tx Crypto Consensus_Retarget
begin

text \<open>
  The records the state crate stores and the accounts: \<open>crates/state/src/accounts.rs\<close> and the
  data types of \<open>crates/state/src/apply.rs\<close>.

  The CBOR codec (\<open>ciborium\<close>) is third-party code: \<open>cbor_ext\<close> holds, for every stored type, the
  encoder the source calls (\<open>None\<close> when it fails) and the decoder (\<open>Inl\<close> with the error text).
  What the proofs use of a codec is \<open>codec_ok\<close>: a value encodes, and decoding gives it back.
\<close>

section \<open>Stored records\<close>

record account =
  balance :: u128
  acct_nonce :: u64
  pubkey :: bytes
  acct_sig_algo :: u8

definition default_account :: account where
  "default_account = \<lparr> balance = 0, acct_nonce = 0, pubkey = [], acct_sig_algo = 0 \<rparr>"

record attest_record =
  ar_job_id :: bytes
  ar_round_id :: u64
  ar_model_hash :: bytes
  ar_dp_epsilon_milli :: u32
  ar_coordinator :: bytes
  ar_block_height :: u64
  ar_block_timestamp_ms :: u64

record pending_crypto_upgrade =
  pu_target_height :: u64
  pu_sig_algo :: u8
  pu_hash_algo :: u8
  pu_announced_at_height :: u64

record active_crypto =
  ac_sig_algo :: u8
  ac_hash_algo :: u8
  ac_activated_at_height :: u64

record governance_signer =
  gs_signer_id :: bytes
  gs_sig_algo :: u8
  gs_pubkey :: bytes

record governance_config =
  gc_epoch :: u64
  gc_threshold :: u32
  gc_signers :: "governance_signer list"

record governance_sig =
  gsig_signer_id :: bytes
  gsig_sig :: bytes

record governance_proof =
  signatures :: "governance_sig list"

record coordinator_authority =
  ca_job_id :: bytes
  ca_coordinators :: "bytes list"
  ca_registered_at_height :: u64

record pedigree_record =
  pr_job_id :: bytes
  pr_lot_id :: bytes
  pr_supplier :: bytes
  pr_cage_code :: bytes
  pr_attestation_authority :: bytes
  pr_attester :: bytes
  pr_block_height :: u64
  pr_block_timestamp_ms :: u64

section \<open>Codecs and the external code as one record\<close>

record 'a codec =
  enc :: "'a \<Rightarrow> bytes option"
  dec :: "bytes \<Rightarrow> string + 'a"

definition codec_ok :: "'a codec \<Rightarrow> bool" where
  "codec_ok c \<longleftrightarrow> (\<forall>x. \<exists>b. enc c x = Some b \<and> dec c b = Inr x)"

record cbor_ext =
  account_enc :: "account \<Rightarrow> bytes"
  account_dec :: "bytes \<Rightarrow> account option"
  attest_c :: "attest_record codec"
  pending_c :: "pending_crypto_upgrade codec"
  active_c :: "active_crypto codec"
  reflection_c :: "reflection codec"
  gov_config_c :: "governance_config codec"
  gov_proof_c :: "governance_proof codec"
  authority_c :: "coordinator_authority codec"
  pedigree_c :: "pedigree_record codec"

record ext =
  hx :: hash_ext
  cx :: crypto_ext
  kx :: cbor_ext

text \<open>\<open>decode(..).ok()\<close>\<close>

definition dec_opt :: "'a codec \<Rightarrow> bytes \<Rightarrow> 'a option" where
  "dec_opt c b = (case dec c b of Inl e \<Rightarrow> None | Inr x \<Rightarrow> Some x)"

definition account_codec_ok :: "cbor_ext \<Rightarrow> bool" where
  "account_codec_ok K \<longleftrightarrow> (\<forall>a. account_dec K (account_enc K a) = Some a)"

lemma codec_okE:
  assumes "codec_ok c"
  obtains b where "enc c x = Some b" "dec c b = Inr x" "dec_opt c b = Some x"
  using assms by (auto simp: codec_ok_def dec_opt_def)

section \<open>Accounts\<close>

definition load :: "'s store_ops \<Rightarrow> ext \<Rightarrow> 's \<Rightarrow> account_id \<Rightarrow> account option" where
  "load ops X s i =
     (case st_get ops s Accounts i of None \<Rightarrow> None | Some b \<Rightarrow> account_dec (kx X) b)"

definition load_or_default :: "'s store_ops \<Rightarrow> ext \<Rightarrow> 's \<Rightarrow> account_id \<Rightarrow> account" where
  "load_or_default ops X s i = (case load ops X s i of None \<Rightarrow> default_account | Some a \<Rightarrow> a)"

definition save :: "'s store_ops \<Rightarrow> ext \<Rightarrow> 's \<Rightarrow> account_id \<Rightarrow> account \<Rightarrow> 's" where
  "save ops X s i a = st_put ops s Accounts i (account_enc (kx X) a)"

text \<open>
  The laws the block logic relies on: an account reads back as it was saved, saving one account
  changes no other, and writes outside the accounts subtree change none.
\<close>

context state_store
begin

lemma load_save:
  "account_codec_ok (kx X) \<Longrightarrow> inv s \<Longrightarrow>
     load ops X (save ops X s i a) j = (if i = j then Some a else load ops X s j)"
  by (auto simp: load_def save_def get_put account_codec_ok_def)

lemma load_or_default_save:
  "account_codec_ok (kx X) \<Longrightarrow> inv s \<Longrightarrow>
     load_or_default ops X (save ops X s i a) = (load_or_default ops X s)(i := a)"
  by (auto simp: load_or_default_def load_save fun_eq_iff)

lemma load_put_other:
  "inv s \<Longrightarrow> sub \<noteq> Accounts \<Longrightarrow>
     load_or_default ops X (st_put ops s sub k v) = load_or_default ops X s"
  by (auto simp: load_or_default_def load_def get_put fun_eq_iff)

lemma inv_save: "inv s \<Longrightarrow> inv (save ops X s i a)"
  by (simp add: save_def inv_put)

lemma load_root: "inv s \<Longrightarrow> load_or_default ops X (snd (st_root ops s)) = load_or_default ops X s"
  by (auto simp: load_or_default_def load_def get_root fun_eq_iff)

end

end
