(* ===== verification/State_Governance.thy ===== *)
theory State_Governance
  imports State_Data
begin

text \<open>
  Governance: the configuration, the k-of-N proof and the signed payloads of
  \<open>crates/state/src/apply.rs\<close>. The lemmas show that an accepted proof carries valid signatures
  of a threshold of distinct committee members, when a proof is accepted, and that the payload
  of one governance action is never the payload of another.
\<close>

section \<open>Configuration\<close>

fun has_dup :: "bytes set \<Rightarrow> governance_signer list \<Rightarrow> bool" where
  "has_dup seen [] = False"
| "has_dup seen (s # ss) =
     (if gs_signer_id s \<in> seen then True else has_dup (insert (gs_signer_id s) seen) ss)"

definition validate_config :: "governance_config \<Rightarrow> string + unit" where
  "validate_config c =
     (if gc_signers c = [] then Inl ''governance: signers cannot be empty''
      else if gc_threshold c = 0 then Inl ''governance: threshold must be > 0''
      else if unat (gc_threshold c) > length (gc_signers c)
        then Inl ''governance: threshold > signers.len()''
      else if has_dup {} (gc_signers c) then Inl ''governance: duplicate signer_id''
      else Inr ())"

definition load_governance :: "'s store_ops \<Rightarrow> ext \<Rightarrow> 's \<Rightarrow> governance_config option" where
  "load_governance ops X s =
     (case st_get ops s Meta (str_bytes ''governance'') of
        None \<Rightarrow> None
      | Some b \<Rightarrow> dec_opt (gov_config_c (kx X)) b)"

section \<open>Threshold proofs\<close>

datatype governance_error = BelowThreshold u32 u32

fun show_governance_error :: "governance_error \<Rightarrow> string" where
  "show_governance_error (BelowThreshold got need) =
     ''governance proof below threshold: got '' @ show_nat (unat got) @ '', need '' @ show_nat (unat need)"

definition find_signer :: "governance_config \<Rightarrow> bytes \<Rightarrow> governance_signer option" where
  "find_signer cfg i = find (\<lambda>s. gs_signer_id s = i) (gc_signers cfg)"

fun count_sigs ::
    "crypto_ext \<Rightarrow> governance_config \<Rightarrow> bytes \<Rightarrow> governance_sig list \<Rightarrow> bytes set \<Rightarrow> u32 \<Rightarrow> governance_error + unit" where
  "count_sigs C cfg msg [] seen verified = Inl (BelowThreshold verified (gc_threshold cfg))"
| "count_sigs C cfg msg (sg # sigs) seen verified =
     (if gsig_signer_id sg \<in> seen then count_sigs C cfg msg sigs seen verified
      else
        let seen = insert (gsig_signer_id sg) seen in
        case find_signer cfg (gsig_signer_id sg) of
          None \<Rightarrow> count_sigs C cfg msg sigs seen verified
        | Some signer \<Rightarrow>
            (case verify C (gs_sig_algo signer) (gs_pubkey signer) (gsig_sig sg) msg of
               Inl e \<Rightarrow> count_sigs C cfg msg sigs seen verified
             | Inr u \<Rightarrow>
                 if verified + 1 \<ge> gc_threshold cfg then Inr ()
                 else count_sigs C cfg msg sigs seen (verified + 1)))"

definition verify_governance_proof ::
    "crypto_ext \<Rightarrow> governance_config \<Rightarrow> governance_proof \<Rightarrow> bytes \<Rightarrow> governance_error + unit" where
  "verify_governance_proof C cfg proof_sigs msg =
     (if (of_nat (length (signatures proof_sigs)) :: u32) < gc_threshold cfg
      then Inl (BelowThreshold (of_nat (length (signatures proof_sigs))) (gc_threshold cfg))
      else count_sigs C cfg msg (signatures proof_sigs) {} 0)"

section \<open>Payloads\<close>

definition upgrade_crypto_gov_bytes :: "u64 \<Rightarrow> u8 \<Rightarrow> u8 \<Rightarrow> bytes" where
  "upgrade_crypto_gov_bytes target_height sig_algo hash_algo =
     str_bytes ''PGgov:upgrade'' @ [0] @ to_le target_height @ [sig_algo, hash_algo]"

definition upgrade_crypto_gov_payload :: "hash_ext \<Rightarrow> u64 \<Rightarrow> u8 \<Rightarrow> u8 \<Rightarrow> bytes" where
  "upgrade_crypto_gov_payload H target_height sig_algo hash_algo =
     blake3 H (upgrade_crypto_gov_bytes target_height sig_algo hash_algo)"

definition register_attest_gov_bytes :: "bytes \<Rightarrow> account_id list \<Rightarrow> bytes" where
  "register_attest_gov_bytes job_id coordinators =
     str_bytes ''PGgov:regattest'' @ [0] @ job_id @ len32 coordinators @ concat (sort coordinators)"

definition register_attest_gov_payload :: "hash_ext \<Rightarrow> bytes \<Rightarrow> account_id list \<Rightarrow> bytes" where
  "register_attest_gov_payload H job_id coordinators =
     blake3 H (register_attest_gov_bytes job_id coordinators)"

definition set_governance_gov_bytes :: "cbor_ext \<Rightarrow> governance_config \<Rightarrow> bytes" where
  "set_governance_gov_bytes K new_config =
     (let buf = (case enc (gov_config_c K) new_config of None \<Rightarrow> [] | Some b \<Rightarrow> b) in
      str_bytes ''PGgov:setgov'' @ [0] @ len32 buf @ buf)"

definition set_governance_gov_payload :: "ext \<Rightarrow> governance_config \<Rightarrow> bytes" where
  "set_governance_gov_payload X new_config =
     blake3 (hx X) (set_governance_gov_bytes (kx X) new_config)"

section \<open>Well-formed configurations\<close>

lemma has_dup_iff:
  "has_dup seen ss \<longleftrightarrow> \<not> distinct (map gs_signer_id ss) \<or> seen \<inter> gs_signer_id ` set ss \<noteq> {}"
  by (induction ss arbitrary: seen) auto

lemma validate_config_iff:
  "validate_config c = Inr () \<longleftrightarrow>
     0 < gc_threshold c \<and> unat (gc_threshold c) \<le> length (gc_signers c) \<and>
     distinct (map gs_signer_id (gc_signers c))"
proof -
  have "0 < gc_threshold c \<Longrightarrow> unat (gc_threshold c) \<le> length (gc_signers c) \<Longrightarrow> gc_signers c \<noteq> []"
    by (auto simp: word_gt_0 unsigned_eq_0_iff)
  then show ?thesis
    by (auto simp: validate_config_def has_dup_iff word_gt_0)
qed

section \<open>Soundness and completeness of the threshold check\<close>

definition valid_signer :: "crypto_ext \<Rightarrow> governance_config \<Rightarrow> bytes \<Rightarrow> governance_sig \<Rightarrow> bool" where
  "valid_signer C cfg msg sg \<longleftrightarrow>
     (\<exists>s. find_signer cfg (gsig_signer_id sg) = Some s \<and>
          verify C (gs_sig_algo s) (gs_pubkey s) (gsig_sig sg) msg = Inr ())"

text \<open>
  The committee members whose \<^emph>\<open>first\<close> signature in the proof verifies: these are the ones the
  loop counts. A member whose first entry does not verify is not counted, whatever follows.
\<close>

definition endorsers :: "crypto_ext \<Rightarrow> governance_config \<Rightarrow> bytes \<Rightarrow> governance_sig list \<Rightarrow> bytes set" where
  "endorsers C cfg msg sigs =
     {i. \<exists>sg. find (\<lambda>g. gsig_signer_id g = i) sigs = Some sg \<and> valid_signer C cfg msg sg}"

lemma endorsers_Nil [simp]: "endorsers C cfg msg [] = {}"
  by (simp add: endorsers_def)

lemma endorsers_Cons:
  "endorsers C cfg msg (sg # sigs) =
     (if valid_signer C cfg msg sg then {gsig_signer_id sg} else {}) \<union>
     (endorsers C cfg msg sigs - {gsig_signer_id sg})"
  by (auto simp: endorsers_def)

lemma finite_endorsers [simp]: "finite (endorsers C cfg msg sigs)"
  by (induction sigs) (simp_all add: endorsers_Cons)

lemma endorsersD:
  assumes "i \<in> endorsers C cfg msg sigs"
  shows "\<exists>sg s. sg \<in> set sigs \<and> s \<in> set (gc_signers cfg) \<and> gsig_signer_id sg = i \<and> gs_signer_id s = i \<and>
    verify C (gs_sig_algo s) (gs_pubkey s) (gsig_sig sg) msg = Inr ()"
proof -
  from assms obtain sg s where f: "find (\<lambda>g. gsig_signer_id g = i) sigs = Some sg"
    "find (\<lambda>s. gs_signer_id s = gsig_signer_id sg) (gc_signers cfg) = Some s"
    and "verify C (gs_sig_algo s) (gs_pubkey s) (gsig_sig sg) msg = Inr ()"
    by (auto simp: endorsers_def valid_signer_def find_signer_def)
  moreover have "sg \<in> set sigs" "gsig_signer_id sg = i" "s \<in> set (gc_signers cfg)"
    "gs_signer_id s = gsig_signer_id sg"
    using f by (auto simp: find_Some_iff)
  ultimately show ?thesis by blast
qed

lemma valid_signer_case:
  "valid_signer C cfg msg sg \<longleftrightarrow>
     (case find_signer cfg (gsig_signer_id sg) of
        None \<Rightarrow> False
      | Some s \<Rightarrow> verify C (gs_sig_algo s) (gs_pubkey s) (gsig_sig sg) msg = Inr ())"
  by (auto simp: valid_signer_def split: option.splits)

text \<open>One step of the loop, by the ways it can go.\<close>

lemma count_sigs_step:
  "count_sigs C cfg msg (sg # sigs) seen v =
     (if gsig_signer_id sg \<in> seen then count_sigs C cfg msg sigs seen v
      else if \<not> valid_signer C cfg msg sg
        then count_sigs C cfg msg sigs (insert (gsig_signer_id sg) seen) v
      else if v + 1 \<ge> gc_threshold cfg then Inr ()
      else count_sigs C cfg msg sigs (insert (gsig_signer_id sg) seen) (v + 1))"
  by (auto simp: valid_signer_case Let_def split: option.splits sum.splits)

lemma count_sigs_iff:
  assumes "v < gc_threshold cfg"
  shows "count_sigs C cfg msg sigs seen v = Inr () \<longleftrightarrow>
    unat (gc_threshold cfg) \<le> unat v + card (endorsers C cfg msg sigs - seen)"
  using assms
proof (induction sigs arbitrary: seen v)
  case Nil
  then show ?case by (simp add: word_less_nat_alt)
next
  case (Cons sg sigs)
  define i where "i = gsig_signer_id sg"
  note step = count_sigs_step [of C cfg msg sg sigs seen v, folded i_def]
  note E = endorsers_Cons [of C cfg msg sg sigs, folded i_def]
  consider "i \<in> seen" | "i \<notin> seen" "\<not> valid_signer C cfg msg sg"
    | "i \<notin> seen" "valid_signer C cfg msg sg" by blast
  then show ?case
  proof cases
    case 1
    then have "endorsers C cfg msg (sg # sigs) - seen = endorsers C cfg msg sigs - seen" by (auto simp: E)
    then show ?thesis using Cons 1 by (simp only: step if_True)
  next
    case 2
    then have "endorsers C cfg msg (sg # sigs) - seen = endorsers C cfg msg sigs - insert i seen" by (auto simp: E)
    then show ?thesis using Cons 2 by (simp only: step if_True if_False not_False_eq_True)
  next
    case 3
    have "endorsers C cfg msg (sg # sigs) - seen = insert i (endorsers C cfg msg sigs - insert i seen)"
      using 3 by (auto simp: E)
    then have card: "card (endorsers C cfg msg (sg # sigs) - seen) =
        Suc (card (endorsers C cfg msg sigs - insert i seen))" by simp
    have v1: "unat (v + 1) = Suc (unat v)" by (rule unat_suc_below [OF Cons.prems])
    show ?thesis
    proof (cases "v + 1 \<ge> gc_threshold cfg")
      case True
      then show ?thesis using 3 card v1 unfolding step by (simp add: word_le_nat_alt)
    next
      case False
      then show ?thesis
        using 3 card v1 Cons.IH [of "v + 1" "insert i seen"] unfolding step by simp
    qed
  qed
qed

lemma verify_governance_proof_iff:
  assumes "0 < gc_threshold cfg"
  shows "verify_governance_proof C cfg pf msg = Inr () \<longleftrightarrow>
    gc_threshold cfg \<le> of_nat (length (signatures pf)) \<and>
    unat (gc_threshold cfg) \<le> card (endorsers C cfg msg (signatures pf))"
  using count_sigs_iff [OF assms, of C msg "signatures pf" "{}"]
  by (auto simp: verify_governance_proof_def not_less)

section \<open>Payload separation\<close>

lemma gov_payload_tags:
  "upgrade_crypto_gov_bytes h a b \<noteq> register_attest_gov_bytes j cs"
  "upgrade_crypto_gov_bytes h a b \<noteq> set_governance_gov_bytes K c"
  "register_attest_gov_bytes j cs \<noteq> set_governance_gov_bytes K c"
  by (simp_all add: upgrade_crypto_gov_bytes_def register_attest_gov_bytes_def
      set_governance_gov_bytes_def str_bytes_def Let_def)

lemma upgrade_gov_bytes_inj:
  "upgrade_crypto_gov_bytes h a b = upgrade_crypto_gov_bytes h' a' b' \<Longrightarrow> h = h' \<and> a = a' \<and> b = b'"
  by (simp add: upgrade_crypto_gov_bytes_def)

lemma register_gov_bytes_inj:
  assumes "length j = 32" "length j' = 32" "length cs < 2 ^ 32" "length cs' < 2 ^ 32"
    and "list_all (\<lambda>c. length c = 20) cs" "list_all (\<lambda>c. length c = 20) cs'"
    and "register_attest_gov_bytes j cs = register_attest_gov_bytes j' cs'"
  shows "j = j' \<and> sort cs = sort cs'"
  using assms concat_sort_inj [of cs cs' 20 "[]" "[]"]
  by (auto simp: register_attest_gov_bytes_def len32_inj)

lemma set_governance_bytes_inj:
  assumes ok: "codec_ok (gov_config_c K)"
    and short: "\<And>b. enc (gov_config_c K) c = Some b \<or> enc (gov_config_c K) c' = Some b \<Longrightarrow> length b < 2 ^ 32"
    and eq: "set_governance_gov_bytes K c = set_governance_gov_bytes K c'"
  shows "c = c'"
proof -
  obtain b b' where b: "enc (gov_config_c K) c = Some b" "dec (gov_config_c K) b = Inr c"
    "enc (gov_config_c K) c' = Some b'" "dec (gov_config_c K) b' = Inr c'"
    using ok unfolding codec_ok_def by metis
  then have "len32 b @ b @ [] = len32 b' @ b' @ []" using eq by (simp add: set_governance_gov_bytes_def)
  then have "b = b'" using len32_frame_inj [of b b' "[]" "[]"] short b by blast
  with b show ?thesis by simp
qed

end
