(* ===== verification/State_Apply.thy ===== *)
theory State_Apply
  imports State_Governance
begin

text \<open>
  Block application: \<open>apply_block\<close> and \<open>validate_tx\<close> of \<open>crates/state/src/apply.rs\<close>, over any
  store. The store is passed through explicitly and returned on errors too, so that what a
  rejected block leaves behind is visible: the result is the error or the output, paired with
  the store at the moment the function returned.
\<close>

section \<open>Data\<close>

datatype apply_error =
    WitnessMissing nat
  | WitnessHashMismatch nat
  | AccountUnknown nat string
  | PubKeyMismatch nat
  | BadTxSignature nat string
  | NonceMismatch nat u64 u64
  | InsufficientBalance nat u128 u128
  | AmountOverflow nat
  | UnsupportedCall nat
  | AlgoMismatch nat u8 u8
  | UpgradeSigAlgoNotAllowed nat u8
  | UpgradeHashAlgoNotAllowed nat u8
  | AttestCoordinatorNotAuthorized nat
  | PedigreeCageCodeInvalid nat
  | GovernanceProofMissing nat
  | GovernanceProofInvalid nat string
  | GovernanceConfigInvalid nat string
  | CoinbaseOverflow

record apply_output =
  txs_applied :: nat
  fees_collected_sat :: u128
  coinbase_minted_sat :: u128
  out_state_root :: bytes

record staged_tx =
  stx_idx :: nat
  stx_from_account :: account_id
  stx_expected_nonce :: u64
  stx_to :: account_id
  stx_amount :: u128
  stx_fee_sat :: u64
  stx_pubkey_bytes :: bytes
  stx_sig_algo :: u8

section \<open>Keys and lookups\<close>

definition pedigree_key :: "bytes \<Rightarrow> bytes \<Rightarrow> bytes" where
  "pedigree_key job_id lot_id = str_bytes ''ped/'' @ job_id @ lot_id"

definition attest_key :: "bytes \<Rightarrow> u64 \<Rightarrow> bytes" where
  "attest_key job_id round_id = job_id @ to_be round_id"

definition attest_auth_key :: "bytes \<Rightarrow> bytes" where
  "attest_auth_key job_id = str_bytes ''attau'' @ job_id"

definition block_key :: "u64 \<Rightarrow> bytes" where
  "block_key h = str_bytes ''block/'' @ to_be h"

definition is_valid_cage :: "bytes \<Rightarrow> bool" where
  "is_valid_cage cage = list_all (\<lambda>b. (0x41 \<le> b \<and> b \<le> 0x5A) \<or> (0x30 \<le> b \<and> b \<le> 0x39)) cage"

definition load_attest_authority :: "'s store_ops \<Rightarrow> ext \<Rightarrow> 's \<Rightarrow> bytes \<Rightarrow> coordinator_authority option" where
  "load_attest_authority ops X s job_id =
     (case st_get ops s Meta (attest_auth_key job_id) of
        None \<Rightarrow> None
      | Some b \<Rightarrow> dec_opt (authority_c (kx X)) b)"

definition load_active_crypto :: "'s store_ops \<Rightarrow> ext \<Rightarrow> 's \<Rightarrow> active_crypto option" where
  "load_active_crypto ops X s =
     (case st_get ops s Meta (str_bytes ''active_crypto'') of
        None \<Rightarrow> None
      | Some b \<Rightarrow> dec_opt (active_c (kx X)) b)"

definition load_latest_reflection :: "'s store_ops \<Rightarrow> ext \<Rightarrow> 's \<Rightarrow> reflection option" where
  "load_latest_reflection ops X s =
     (case st_get ops s Reflect (str_bytes ''latest'') of
        None \<Rightarrow> None
      | Some b \<Rightarrow> dec_opt (reflection_c (kx X)) b)"

definition load_reflection_at :: "'s store_ops \<Rightarrow> ext \<Rightarrow> 's \<Rightarrow> u64 \<Rightarrow> reflection option" where
  "load_reflection_at ops X s h =
     (case st_get ops s Reflect (block_key h) of
        None \<Rightarrow> None
      | Some b \<Rightarrow> dec_opt (reflection_c (kx X)) b)"

text \<open>\<open>AccountId::to_string\<close>; the encoder never fails on twenty bytes.\<close>

definition show_account :: "ext \<Rightarrow> account_id \<Rightarrow> string" where
  "show_account X i = (case to_bech32 (hx X) i of None \<Rightarrow> [] | Some s \<Rightarrow> s)"

section \<open>Validation\<close>

fun call_target :: "account_id \<Rightarrow> tx_call \<Rightarrow> (account_id \<times> u128) option" where
  "call_target from (Transfer to amount) = Some (to, amount)"
| "call_target from (DeployContract code_ref init_args) = None"
| "call_target from (CallContract contract method args) = None"
| "call_target from c = Some (from, 0)"

definition witness_pubkey ::
    "'s store_ops \<Rightarrow> ext \<Rightarrow> 's \<Rightarrow> nat \<Rightarrow> tx_body \<Rightarrow> witness \<Rightarrow> apply_error + bytes" where
  "witness_pubkey ops X s idx tx w =
     (case wit_pubkey w of
        Inline bs \<Rightarrow>
          if from_pubkey (hx X) bs \<noteq> from_account tx then Inl (PubKeyMismatch idx) else Inr bs
      | Known i \<Rightarrow>
          (case load ops X s (from_account tx) of
             None \<Rightarrow> Inl (AccountUnknown idx (show_account X (from_account tx)))
           | Some acct \<Rightarrow>
               if pubkey acct = [] then Inl (AccountUnknown idx (show_account X (from_account tx)))
               else if acct_sig_algo acct \<noteq> wit_sig_algo w
                 then Inl (AlgoMismatch idx (acct_sig_algo acct) (wit_sig_algo w))
               else Inr (pubkey acct)))"

definition validate_tx ::
    "'s store_ops \<Rightarrow> ext \<Rightarrow> nat \<Rightarrow> 's \<Rightarrow> tx_body \<Rightarrow> witness \<Rightarrow> apply_error + staged_tx" where
  "validate_tx ops X idx s tx w =
     (case call_target (from_account tx) (call tx) of
        None \<Rightarrow> Inl (UnsupportedCall idx)
      | Some (to, amount) \<Rightarrow>
          (case witness_pubkey ops X s idx tx w of
             Inl e \<Rightarrow> Inl e
           | Inr pubkey_bytes \<Rightarrow>
               (case verify (cx X) (wit_sig_algo w) pubkey_bytes (wit_sig w) (signing_hash (hx X) tx) of
                  Inl e \<Rightarrow> Inl (BadTxSignature idx (show_crypto_error e))
                | Inr u \<Rightarrow>
                    let acct = load_or_default ops X s (from_account tx);
                        expected_nonce = acct_nonce acct in
                    if tx_nonce tx \<noteq> expected_nonce
                      then Inl (NonceMismatch idx (tx_nonce tx) expected_nonce)
                    else
                      (case checked_add amount (ucast (fee_sat tx)) of
                         None \<Rightarrow> Inl (AmountOverflow idx)
                       | Some required \<Rightarrow>
                           if balance acct < required
                             then Inl (InsufficientBalance idx (balance acct) required)
                           else Inr \<lparr> stx_idx = idx, stx_from_account = from_account tx,
                                  stx_expected_nonce = expected_nonce, stx_to = to,
                                  stx_amount = amount, stx_fee_sat = fee_sat tx,
                                  stx_pubkey_bytes = pubkey_bytes, stx_sig_algo = wit_sig_algo w \<rparr>))))"

fun validate_all ::
    "'s store_ops \<Rightarrow> ext \<Rightarrow> 's \<Rightarrow> witness list \<Rightarrow> nat \<Rightarrow> tx_body list \<Rightarrow> u128 \<Rightarrow>
     apply_error + (u128 \<times> staged_tx list)" where
  "validate_all ops X s ws i [] fees_total = Inr (fees_total, [])"
| "validate_all ops X s ws i (tx # rest) fees_total =
     (if i \<ge> length ws then Inl (WitnessMissing i)
      else if witness_digest (hx X) (ws ! i) \<noteq> witness_hash tx then Inl (WitnessHashMismatch i)
      else
        (case validate_tx ops X i s tx (ws ! i) of
           Inl e \<Rightarrow> Inl e
         | Inr st \<Rightarrow>
             (case checked_add fees_total (ucast (stx_fee_sat st)) of
                None \<Rightarrow> Inl CoinbaseOverflow
              | Some fees_total \<Rightarrow>
                  (case validate_all ops X s ws (Suc i) rest fees_total of
                     Inl e \<Rightarrow> Inl e
                   | Inr (fees_total, staged) \<Rightarrow> Inr (fees_total, st # staged)))))"

section \<open>Applying the staged transfers\<close>

definition debit :: "account \<Rightarrow> staged_tx \<Rightarrow> u128 \<Rightarrow> account" where
  "debit acct tx required =
     (let acct = acct\<lparr>balance := balance acct - required, acct_nonce := sat_add (acct_nonce acct) 1\<rparr> in
      if pubkey acct = [] then acct\<lparr>pubkey := stx_pubkey_bytes tx, acct_sig_algo := stx_sig_algo tx\<rparr>
      else acct)"

definition apply_staged :: "'s store_ops \<Rightarrow> ext \<Rightarrow> 's \<Rightarrow> staged_tx \<Rightarrow> apply_error + 's" where
  "apply_staged ops X s tx =
     (let acct = load_or_default ops X s (stx_from_account tx) in
      if acct_nonce acct \<noteq> stx_expected_nonce tx
        then Inl (NonceMismatch (stx_idx tx) (acct_nonce acct) (stx_expected_nonce tx))
      else
        (case checked_add (stx_amount tx) (ucast (stx_fee_sat tx)) of
           None \<Rightarrow> Inl (AmountOverflow (stx_idx tx))
         | Some required \<Rightarrow>
             if balance acct < required
               then Inl (InsufficientBalance (stx_idx tx) (balance acct) required)
             else
               let s = save ops X s (stx_from_account tx) (debit acct tx required);
                   to_acct = load_or_default ops X s (stx_to tx) in
               Inr (save ops X s (stx_to tx)
                 (to_acct\<lparr>balance := sat_add (balance to_acct) (stx_amount tx)\<rparr>))))"

fun apply_all :: "'s store_ops \<Rightarrow> ext \<Rightarrow> 's \<Rightarrow> staged_tx list \<Rightarrow> apply_error option \<times> 's" where
  "apply_all ops X s [] = (None, s)"
| "apply_all ops X s (tx # rest) =
     (case apply_staged ops X s tx of
        Inl e \<Rightarrow> (Some e, s)
      | Inr s' \<Rightarrow> apply_all ops X s' rest)"

section \<open>Effects outside the accounts\<close>

definition gov_gate ::
    "'s store_ops \<Rightarrow> ext \<Rightarrow> 's \<Rightarrow> nat \<Rightarrow> bytes \<Rightarrow> bytes \<Rightarrow> apply_error + unit" where
  "gov_gate ops X s i gov_proof payload =
     (case load_governance ops X s of
        None \<Rightarrow> Inr ()
      | Some cfg \<Rightarrow>
          if gov_proof = [] then Inl (GovernanceProofMissing i)
          else
            (case dec (gov_proof_c (kx X)) gov_proof of
               Inl e \<Rightarrow> Inl (GovernanceProofInvalid i (''decode: '' @ e))
             | Inr pf \<Rightarrow>
                 (case verify_governance_proof (cx X) cfg pf payload of
                    Inl e \<Rightarrow> Inl (GovernanceProofInvalid i (show_governance_error e))
                  | Inr u \<Rightarrow> Inr ())))"

definition coordinator_refused :: "'s store_ops \<Rightarrow> ext \<Rightarrow> 's \<Rightarrow> bytes \<Rightarrow> account_id \<Rightarrow> bool" where
  "coordinator_refused ops X s job_id from =
     (case load_attest_authority ops X s job_id of
        None \<Rightarrow> False
      | Some a \<Rightarrow> ca_coordinators a \<noteq> [] \<and> from \<notin> set (ca_coordinators a))"

text \<open>Serialise a record and store it; a failing encoder is reported as in the source.\<close>

definition put_record ::
    "'s store_ops \<Rightarrow> 's \<Rightarrow> apply_error \<Rightarrow> 'a codec \<Rightarrow> 'a \<Rightarrow> subtree \<Rightarrow> bytes \<Rightarrow> apply_error + 's" where
  "put_record ops s err c rec sub key =
     (case enc c rec of None \<Rightarrow> Inl err | Some buf \<Rightarrow> Inr (st_put ops s sub key buf))"

definition attest_round_effect ::
    "'s store_ops \<Rightarrow> ext \<Rightarrow> block_header \<Rightarrow> nat \<Rightarrow> account_id \<Rightarrow> bytes \<Rightarrow> u64 \<Rightarrow> bytes \<Rightarrow> u32 \<Rightarrow> 's \<Rightarrow>
     apply_error + 's" where
  "attest_round_effect ops X hdr i from job_id round_id model_hash dp_epsilon_milli s =
     (if coordinator_refused ops X s job_id from then Inl (AttestCoordinatorNotAuthorized i)
      else put_record ops s (WitnessHashMismatch i) (attest_c (kx X))
             \<lparr> ar_job_id = job_id, ar_round_id = round_id, ar_model_hash = model_hash,
               ar_dp_epsilon_milli = dp_epsilon_milli, ar_coordinator = from,
               ar_block_height = height hdr, ar_block_timestamp_ms = timestamp_ms hdr \<rparr>
             Attest (attest_key job_id round_id))"

definition register_coordinator_effect ::
    "'s store_ops \<Rightarrow> ext \<Rightarrow> block_header \<Rightarrow> nat \<Rightarrow> bytes \<Rightarrow> account_id list \<Rightarrow> bytes \<Rightarrow> 's \<Rightarrow> apply_error + 's" where
  "register_coordinator_effect ops X hdr i job_id coordinators gov_proof s =
     (case gov_gate ops X s i gov_proof (register_attest_gov_payload (hx X) job_id coordinators) of
        Inl e \<Rightarrow> Inl e
      | Inr u \<Rightarrow>
          put_record ops s (WitnessHashMismatch i) (authority_c (kx X))
            \<lparr> ca_job_id = job_id, ca_coordinators = coordinators, ca_registered_at_height = height hdr \<rparr>
            Meta (attest_auth_key job_id))"

definition attest_pedigree_effect ::
    "'s store_ops \<Rightarrow> ext \<Rightarrow> block_header \<Rightarrow> nat \<Rightarrow> account_id \<Rightarrow> bytes \<Rightarrow> bytes \<Rightarrow> bytes \<Rightarrow> bytes \<Rightarrow> bytes \<Rightarrow> 's \<Rightarrow>
     apply_error + 's" where
  "attest_pedigree_effect ops X hdr i from job_id lot_id supplier cage_code attestation_authority s =
     (if \<not> is_valid_cage cage_code then Inl (PedigreeCageCodeInvalid i)
      else if coordinator_refused ops X s job_id from then Inl (AttestCoordinatorNotAuthorized i)
      else put_record ops s (WitnessHashMismatch i) (pedigree_c (kx X))
             \<lparr> pr_job_id = job_id, pr_lot_id = lot_id, pr_supplier = supplier, pr_cage_code = cage_code,
               pr_attestation_authority = attestation_authority, pr_attester = from,
               pr_block_height = height hdr, pr_block_timestamp_ms = timestamp_ms hdr \<rparr>
             Attest (pedigree_key job_id lot_id))"

definition upgrade_crypto_effect ::
    "'s store_ops \<Rightarrow> ext \<Rightarrow> block_header \<Rightarrow> nat \<Rightarrow> u64 \<Rightarrow> u8 \<Rightarrow> u8 \<Rightarrow> bytes \<Rightarrow> 's \<Rightarrow> apply_error + 's" where
  "upgrade_crypto_effect ops X hdr i target_height sa ha gov_proof s =
     (if \<not> allowed_sig (cx X) sa then Inl (UpgradeSigAlgoNotAllowed i sa)
      else if \<not> allowed_hash (cx X) ha then Inl (UpgradeHashAlgoNotAllowed i ha)
      else
        (case gov_gate ops X s i gov_proof (upgrade_crypto_gov_payload (hx X) target_height sa ha) of
           Inl e \<Rightarrow> Inl e
         | Inr u \<Rightarrow>
             put_record ops s (WitnessHashMismatch i) (pending_c (kx X))
               \<lparr> pu_target_height = target_height, pu_sig_algo = sa, pu_hash_algo = ha,
                 pu_announced_at_height = height hdr \<rparr>
               Meta (str_bytes ''upgrade_crypto'')))"

definition set_governance_effect ::
    "'s store_ops \<Rightarrow> ext \<Rightarrow> nat \<Rightarrow> bytes \<Rightarrow> bytes \<Rightarrow> 's \<Rightarrow> apply_error + 's" where
  "set_governance_effect ops X i config_cbor gov_proof s =
     (case dec (gov_config_c (kx X)) config_cbor of
        Inl e \<Rightarrow> Inl (GovernanceConfigInvalid i (''decode: '' @ e))
      | Inr new_cfg \<Rightarrow>
          (case validate_config new_cfg of
             Inl reason \<Rightarrow> Inl (GovernanceConfigInvalid i reason)
           | Inr u \<Rightarrow>
               (case gov_gate ops X s i gov_proof (set_governance_gov_payload X new_cfg) of
                  Inl e \<Rightarrow> Inl e
                | Inr u \<Rightarrow>
                    put_record ops s (WitnessHashMismatch i) (gov_config_c (kx X)) new_cfg
                      Meta (str_bytes ''governance''))))"

fun tx_effect ::
    "'s store_ops \<Rightarrow> ext \<Rightarrow> block_header \<Rightarrow> nat \<Rightarrow> account_id \<Rightarrow> tx_call \<Rightarrow> 's \<Rightarrow> apply_error + 's" where
  "tx_effect ops X hdr i from (AttestRound job_id round_id model_hash eps) s =
     attest_round_effect ops X hdr i from job_id round_id model_hash eps s"
| "tx_effect ops X hdr i from (RegisterAttestCoordinator job_id coordinators gov_proof) s =
     register_coordinator_effect ops X hdr i job_id coordinators gov_proof s"
| "tx_effect ops X hdr i from (AttestPedigree job_id lot_id supplier cage_code authority) s =
     attest_pedigree_effect ops X hdr i from job_id lot_id supplier cage_code authority s"
| "tx_effect ops X hdr i from (UpgradeCrypto target_height sa ha gov_proof) s =
     upgrade_crypto_effect ops X hdr i target_height sa ha gov_proof s"
| "tx_effect ops X hdr i from (SetGovernance config_cbor gov_proof) s =
     set_governance_effect ops X i config_cbor gov_proof s"
| "tx_effect ops X hdr i from c s = Inr s"

fun apply_effects ::
    "'s store_ops \<Rightarrow> ext \<Rightarrow> block_header \<Rightarrow> nat \<Rightarrow> tx_body list \<Rightarrow> 's \<Rightarrow> apply_error option \<times> 's" where
  "apply_effects ops X hdr i [] s = (None, s)"
| "apply_effects ops X hdr i (tx # rest) s =
     (case tx_effect ops X hdr i (from_account tx) (call tx) s of
        Inl e \<Rightarrow> (Some e, s)
      | Inr s' \<Rightarrow> apply_effects ops X hdr (Suc i) rest s')"

section \<open>Coinbase, reflection, activation\<close>

definition pay_coinbase ::
    "'s store_ops \<Rightarrow> ext \<Rightarrow> block_header \<Rightarrow> u128 \<Rightarrow> u128 \<Rightarrow> 's \<Rightarrow> apply_error + (u128 \<times> 's)" where
  "pay_coinbase ops X hdr block_reward_sat fees_total s =
     (let miner = from_coinbase (coinbase hdr);
          miner_acct = load_or_default ops X s miner in
      case checked_add block_reward_sat fees_total of
        None \<Rightarrow> Inl CoinbaseOverflow
      | Some total_minted \<Rightarrow>
          (case checked_add (balance miner_acct) total_minted of
             None \<Rightarrow> Inl CoinbaseOverflow
           | Some b \<Rightarrow> Inr (total_minted, save ops X s miner (miner_acct\<lparr>balance := b\<rparr>))))"

definition block_reflection :: "block \<Rightarrow> u128 \<Rightarrow> u128 \<Rightarrow> reflection" where
  "block_reflection blk fees_total total_minted =
     \<lparr> hashrate_proxy = ucast (bits (header blk)),
       active_addresses = of_nat (length (remdups (map from_account (txs (body blk))))),
       fee_sum = fees_total, emission = total_minted,
       r_h_q64 = 0, r_a_q64 = 0, stability_bias = 0 \<rparr>"

definition activate_crypto :: "'s store_ops \<Rightarrow> ext \<Rightarrow> block_header \<Rightarrow> 's \<Rightarrow> 's" where
  "activate_crypto ops X hdr s =
     (case st_get ops s Meta (str_bytes ''upgrade_crypto'') of
        None \<Rightarrow> s
      | Some pending_bytes \<Rightarrow>
          (case dec (pending_c (kx X)) pending_bytes of
             Inl e \<Rightarrow> s
           | Inr pending \<Rightarrow>
               if pu_target_height pending = height hdr then
                 (case enc (active_c (kx X))
                     \<lparr> ac_sig_algo = pu_sig_algo pending, ac_hash_algo = pu_hash_algo pending,
                       ac_activated_at_height = height hdr \<rparr> of
                    None \<Rightarrow> s
                  | Some buf \<Rightarrow> st_put ops s Meta (str_bytes ''active_crypto'') buf)
               else s))"

definition apply_block ::
    "'s store_ops \<Rightarrow> ext \<Rightarrow> 's \<Rightarrow> block \<Rightarrow> u128 \<Rightarrow> (apply_error + apply_output) \<times> 's" where
  "apply_block ops X s blk block_reward_sat =
     (case validate_all ops X s (witnesses (body blk)) 0 (txs (body blk)) 0 of
        Inl e \<Rightarrow> (Inl e, s)
      | Inr (fees_total, staged) \<Rightarrow>
          (case apply_all ops X s staged of
             (Some e, s) \<Rightarrow> (Inl e, s)
           | (None, s) \<Rightarrow>
               (case apply_effects ops X (header blk) 0 (txs (body blk)) s of
                  (Some e, s) \<Rightarrow> (Inl e, s)
                | (None, s) \<Rightarrow>
                    (case pay_coinbase ops X (header blk) block_reward_sat fees_total s of
                       Inl e \<Rightarrow> (Inl e, s)
                     | Inr (total_minted, s) \<Rightarrow>
                         (case enc (reflection_c (kx X)) (block_reflection blk fees_total total_minted) of
                            None \<Rightarrow> (Inl CoinbaseOverflow, s)
                          | Some buf \<Rightarrow>
                              let s = st_put ops s Reflect (block_key (height (header blk))) buf;
                                  s = st_put ops s Reflect (str_bytes ''latest'') buf;
                                  s = activate_crypto ops X (header blk) s;
                                  (r, s) = st_root ops s in
                              (Inr \<lparr> txs_applied = length (txs (body blk)),
                                     fees_collected_sat = fees_total,
                                     coinbase_minted_sat = total_minted,
                                     out_state_root = r \<rparr>, s))))))"

end
