(* ===== verification/State_Ledger.thy ===== *)
theory State_Ledger
  imports State_Apply
begin

text \<open>
  What \<open>apply_block\<close> does to the ledger. Everything is proved once, inside the locale
  \<open>state_store\<close>, for every store that keeps the contract of the trait: the store invariant is
  kept, the result depends on the contents only, the sum of the balances grows by exactly the
  block reward, nonces move by one, and only accounts whose owner signed lose money.
\<close>

section \<open>The function store\<close>

text \<open>The specification of a store: its contents, with the canonical root.\<close>

definition spec_ops :: "hash_ext \<Rightarrow> contents store_ops" where
  "spec_ops H = \<lparr> st_put = (\<lambda>f sub k v. f(sub := (f sub)(k \<mapsto> v))), st_get = (\<lambda>f. f),
     st_root = (\<lambda>f. (root_of H f, f)) \<rparr>"

interpretation spec: state_store "spec_ops H" "\<lambda>_. True" H for H
  by unfold_locales (simp_all add: spec_ops_def)

section \<open>Refinement and the store invariant\<close>

definition refines :: "'s store_ops \<Rightarrow> ('s \<Rightarrow> bool) \<Rightarrow> 's \<Rightarrow> contents \<Rightarrow> bool" where
  "refines ops ok s f \<longleftrightarrow> ok s \<and> st_get ops s = f"

context state_store
begin

lemma refines_get: "refines ops inv s f \<Longrightarrow> st_get ops s = st_get (spec_ops H) f"
  by (simp add: refines_def spec_ops_def)

lemma refines_put: "refines ops inv s f \<Longrightarrow> refines ops inv (st_put ops s sub k v) (st_put (spec_ops H) f sub k v)"
  by (simp add: refines_def spec_ops_def get_put inv_put)

lemma refines_root:
  "refines ops inv s f \<Longrightarrow> fst (st_root ops s) = fst (st_root (spec_ops H) f) \<and>
     refines ops inv (snd (st_root ops s)) (snd (st_root (spec_ops H) f))"
  by (simp add: refines_def spec_ops_def root_canonical inv_root get_root)

lemma refines_load:
  assumes "refines ops inv s f"
  shows "load ops X s = load (spec_ops H) X f"
    and "load_or_default ops X s = load_or_default (spec_ops H) X f"
proof -
  show "load ops X s = load (spec_ops H) X f"
    by (rule ext) (simp only: load_def refines_get [OF assms])
  then show "load_or_default ops X s = load_or_default (spec_ops H) X f"
    by (intro ext) (simp only: load_or_default_def)
qed

lemma refines_save: "refines ops inv s f \<Longrightarrow> refines ops inv (save ops X s i a) (save (spec_ops H) X f i a)"
  by (simp add: save_def refines_put)

lemma refines_validate_tx:
  assumes "refines ops inv s f"
  shows "validate_tx ops X i s tx w = validate_tx (spec_ops H) X i f tx w"
  by (simp only: validate_tx_def witness_pubkey_def refines_load [OF assms])

lemma refines_validate_all:
  assumes "refines ops inv s f"
  shows "validate_all ops X s ws i ts fees = validate_all (spec_ops H) X f ws i ts fees"
  by (induction ts arbitrary: i fees) (simp_all only: validate_all.simps refines_validate_tx [OF assms])

lemma refines_apply_staged:
  assumes "refines ops inv s f"
  shows "rel_sum (=) (refines ops inv) (apply_staged ops X s t) (apply_staged (spec_ops H) X f t)"
proof -
  have sv: "refines ops inv (save ops X s i a) (save (spec_ops H) X f i a)" for i a
    using assms by (rule refines_save)
  show ?thesis
    unfolding apply_staged_def Let_def refines_load(2) [OF assms] refines_load(2) [OF sv]
    by (auto intro: refines_save sv split: option.splits)
qed

lemma refines_apply_all:
  assumes "refines ops inv s f"
  shows "rel_prod (=) (refines ops inv) (apply_all ops X s ts) (apply_all (spec_ops H) X f ts)"
  using assms
proof (induction ts arbitrary: s f)
  case (Cons t ts)
  from refines_apply_staged [OF Cons.prems, of X t] Cons show ?case
    by (auto elim!: rel_sum.cases)
qed simp

lemma refines_put_record:
  "refines ops inv s f \<Longrightarrow> rel_sum (=) (refines ops inv) (put_record ops s e c r sub k) (put_record (spec_ops H) f e c r sub k)"
  by (auto simp: put_record_def refines_put split: option.splits)

lemma refines_gov_gate:
  assumes "refines ops inv s f"
  shows "gov_gate ops X s = gov_gate (spec_ops H) X f"
  by (intro ext) (simp only: gov_gate_def load_governance_def refines_get [OF assms])

lemma refines_tx_effect:
  assumes "refines ops inv s f"
  shows "rel_sum (=) (refines ops inv) (tx_effect ops X hdr i from c s) (tx_effect (spec_ops H) X hdr i from c f)"
proof -
  note r = refines_put_record [OF assms] refines_gov_gate [OF assms]
  have cr: "coordinator_refused ops X s = coordinator_refused (spec_ops H) X f"
    by (intro ext) (simp only: coordinator_refused_def load_attest_authority_def refines_get [OF assms])
  show ?thesis
    by (cases c)
      (auto simp: assms r cr attest_round_effect_def register_coordinator_effect_def
        attest_pedigree_effect_def upgrade_crypto_effect_def set_governance_effect_def split: sum.splits)
qed

lemma refines_apply_effects:
  assumes "refines ops inv s f"
  shows "rel_prod (=) (refines ops inv) (apply_effects ops X hdr i ts s) (apply_effects (spec_ops H) X hdr i ts f)"
  using assms
proof (induction ts arbitrary: i s f)
  case (Cons t ts)
  from refines_tx_effect [OF Cons.prems, of X hdr i "from_account t" "call t"] Cons show ?case
    by (auto elim!: rel_sum.cases)
qed simp

lemma refines_pay_coinbase:
  assumes "refines ops inv s f"
  shows "rel_sum (=) (rel_prod (=) (refines ops inv)) (pay_coinbase ops X hdr r fees s) (pay_coinbase (spec_ops H) X hdr r fees f)"
  unfolding pay_coinbase_def Let_def refines_load(2) [OF assms]
  by (auto intro: refines_save [OF assms] split: option.splits)

lemma refines_activate:
  assumes "refines ops inv s f"
  shows "refines ops inv (activate_crypto ops X hdr s) (activate_crypto (spec_ops H) X hdr f)"
  unfolding activate_crypto_def refines_get [OF assms]
  by (auto intro: refines_put assms split: option.splits sum.splits)

end

text \<open>
  The last part of \<open>apply_block\<close>, after the transfers: effects, coinbase, reflection record,
  activation, root.
\<close>

definition finish_block ::
    "'s store_ops \<Rightarrow> ext \<Rightarrow> 's \<Rightarrow> block \<Rightarrow> u128 \<Rightarrow> u128 \<Rightarrow> (apply_error + apply_output) \<times> 's" where
  "finish_block ops X s blk fees_total total_minted =
     (case enc (reflection_c (kx X)) (block_reflection blk fees_total total_minted) of
        None \<Rightarrow> (Inl CoinbaseOverflow, s)
      | Some buf \<Rightarrow>
          let s = st_put ops s Reflect (block_key (height (header blk))) buf;
              s = st_put ops s Reflect (str_bytes ''latest'') buf;
              s = activate_crypto ops X (header blk) s;
              (r, s) = st_root ops s in
          (Inr \<lparr> txs_applied = length (txs (body blk)), fees_collected_sat = fees_total,
                 coinbase_minted_sat = total_minted, out_state_root = r \<rparr>, s))"

lemma apply_block_alt:
  "apply_block ops X s blk r =
     (case validate_all ops X s (witnesses (body blk)) 0 (txs (body blk)) 0 of
        Inl e \<Rightarrow> (Inl e, s)
      | Inr (fees, staged) \<Rightarrow>
          (case apply_all ops X s staged of
             (Some e, s) \<Rightarrow> (Inl e, s)
           | (None, s) \<Rightarrow>
               (case apply_effects ops X (header blk) 0 (txs (body blk)) s of
                  (Some e, s) \<Rightarrow> (Inl e, s)
                | (None, s) \<Rightarrow>
                    (case pay_coinbase ops X (header blk) r fees s of
                       Inl e \<Rightarrow> (Inl e, s)
                     | Inr (m, s) \<Rightarrow> finish_block ops X s blk fees m))))"
  by (simp only: apply_block_def finish_block_def)

context state_store
begin

lemma refines_finish:
  assumes "refines ops inv s f"
  shows "rel_prod (=) (refines ops inv) (finish_block ops X s blk fees m) (finish_block (spec_ops H) X f blk fees m)"
proof (cases "enc (reflection_c (kx X)) (block_reflection blk fees m)")
  case None
  then show ?thesis using assms by (simp add: finish_block_def)
next
  case (Some buf)
  define s1 where "s1 = activate_crypto ops X (header blk)
    (st_put ops (st_put ops s Reflect (block_key (height (header blk))) buf) Reflect (str_bytes ''latest'') buf)"
  define f1 where "f1 = activate_crypto (spec_ops H) X (header blk)
    (st_put (spec_ops H) (st_put (spec_ops H) f Reflect (block_key (height (header blk))) buf) Reflect (str_bytes ''latest'') buf)"
  have "refines ops inv s1 f1" unfolding s1_def f1_def by (intro refines_activate refines_put assms)
  from refines_root [OF this] show ?thesis
    by (simp add: finish_block_def Some Let_def s1_def [symmetric] f1_def [symmetric] split_beta)
qed

theorem apply_block_refines:
  assumes "refines ops inv s f"
  shows "rel_prod (=) (refines ops inv) (apply_block ops X s blk r) (apply_block (spec_ops H) X f blk r)"
proof (cases "validate_all (spec_ops H) X f (witnesses (body blk)) 0 (txs (body blk)) 0")
  case (Inl e)
  then show ?thesis using assms by (simp add: apply_block_alt refines_validate_all [OF assms])
next
  case (Inr p)
  obtain fees staged where p: "p = (fees, staged)" by (cases p)
  obtain e1 s1 f1 where a: "apply_all ops X s staged = (e1, s1)" "apply_all (spec_ops H) X f staged = (e1, f1)"
    "refines ops inv s1 f1"
    using refines_apply_all [OF assms, of X staged] by (auto simp: rel_prod_sel prod_eq_iff intro: that)
  obtain e2 s2 f2 where b: "apply_effects ops X (header blk) 0 (txs (body blk)) s1 = (e2, s2)"
    "apply_effects (spec_ops H) X (header blk) 0 (txs (body blk)) f1 = (e2, f2)" "refines ops inv s2 f2"
    using refines_apply_effects [OF a(3), of X "header blk" 0 "txs (body blk)"]
    by (auto simp: rel_prod_sel prod_eq_iff intro: that)
  from refines_pay_coinbase [OF b(3), of X "header blk" r fees]
  have "rel_prod (=) (refines ops inv)
      (case pay_coinbase ops X (header blk) r fees s2 of Inl e \<Rightarrow> (Inl e, s2) | Inr (m, s) \<Rightarrow> finish_block ops X s blk fees m)
      (case pay_coinbase (spec_ops H) X (header blk) r fees f2 of Inl e \<Rightarrow> (Inl e, f2) | Inr (m, s) \<Rightarrow> finish_block (spec_ops H) X s blk fees m)"
    by (cases rule: rel_sum.cases) (auto simp: b(3) intro: refines_finish)
  then show ?thesis
    using a(3) b(3)
    by (simp add: apply_block_alt refines_validate_all [OF assms] Inr p a(1,2) b(1,2) split: option.splits)
qed

lemma apply_block_inv: "inv s \<Longrightarrow> inv (snd (apply_block ops X s blk r))"
  using apply_block_refines [of s "st_get ops s" X blk r] by (auto simp: refines_def rel_prod_sel)

end

section \<open>The ledger, on account maps\<close>

type_synonym ledger = "account_id \<Rightarrow> account"

definition required :: "staged_tx \<Rightarrow> nat" where
  "required t = unat (stx_amount t) + unat (stx_fee_sat t)"

definition transfer_ok :: "ledger \<Rightarrow> staged_tx \<Rightarrow> bool" where
  "transfer_ok B t \<longleftrightarrow> acct_nonce (B (stx_from_account t)) = stx_expected_nonce t \<and>
     required t < 2 ^ 128 \<and> required t \<le> unat (balance (B (stx_from_account t)))"

definition transfer :: "ledger \<Rightarrow> staged_tx \<Rightarrow> ledger" where
  "transfer B t =
     (let B = B(stx_from_account t := debit (B (stx_from_account t)) t (stx_amount t + ucast (stx_fee_sat t))) in
      B(stx_to t := (B (stx_to t))\<lparr>balance := sat_add (balance (B (stx_to t))) (stx_amount t)\<rparr>))"

fun ledger_run :: "ledger \<Rightarrow> staged_tx list \<Rightarrow> ledger option" where
  "ledger_run B [] = Some B"
| "ledger_run B (t # ts) = (if transfer_ok B t then ledger_run (transfer B t) ts else None)"

lemma unat_u64_to_u128: "unat (ucast (x :: u64) :: u128) = unat x"
  by (rule unat_ucast_128)

lemma checked_fee:
  "checked_add (stx_amount t) (ucast (stx_fee_sat t)) = Some r \<longleftrightarrow>
     required t < 2 ^ 128 \<and> r = stx_amount t + ucast (stx_fee_sat t)"
  by (auto simp: checked_add_Some_iff required_def unat_u64_to_u128)

lemma unat_fee_sum: "required t < 2 ^ 128 \<Longrightarrow> unat (stx_amount t + ucast (stx_fee_sat t)) = required t"
  using checked_add_Some_unat [of "stx_amount t" "ucast (stx_fee_sat t)"]
  by (auto simp: checked_fee required_def unat_u64_to_u128)

lemma checked_add_le:
  fixes a bal :: u128 and f :: u64
  assumes "unat a + unat f \<le> unat bal"
  obtains q where "checked_add a (ucast f) = Some q" "\<not> bal < q"
proof -
  have "unat a + unat f < 2 ^ 128" using assms unsigned_less [of bal, where ?'a = nat] by simp
  then have "checked_add a (ucast f) = Some (a + ucast f)" by (simp add: checked_add_Some_iff unat_u64_to_u128)
  moreover from checked_add_Some_unat [OF this] assms have "\<not> bal < a + ucast f"
    by (simp add: word_less_nat_alt unat_u64_to_u128)
  ultimately show thesis by (rule that)
qed

lemma apply_staged_ok:
  assumes "transfer_ok (load_or_default ops X s) t"
  shows "\<exists>s'. apply_staged ops X s t = Inr s'"
  using assms unat_fee_sum [of t]
  by (auto simp: apply_staged_def transfer_ok_def Let_def checked_add_def required_def unat_u64_to_u128
      word_less_nat_alt split: option.splits)

context state_store
begin

lemma apply_staged_ledger:
  assumes K: "account_codec_ok (kx X)" and s: "inv s" and r: "apply_staged ops X s t = Inr s'"
  shows "inv s' \<and> transfer_ok (load_or_default ops X s) t \<and>
    load_or_default ops X s' = transfer (load_or_default ops X s) t"
proof -
  define B where "B = load_or_default ops X s"
  obtain req where req: "checked_add (stx_amount t) (ucast (stx_fee_sat t)) = Some req"
    and ok: "acct_nonce (B (stx_from_account t)) = stx_expected_nonce t"
      "\<not> balance (B (stx_from_account t)) < req"
    and s': "s' = (let s1 = save ops X s (stx_from_account t) (debit (B (stx_from_account t)) t req);
        a = load_or_default ops X s1 (stx_to t) in
      save ops X s1 (stx_to t) (a\<lparr>balance := sat_add (balance a) (stx_amount t)\<rparr>))"
    using r by (auto simp: apply_staged_def B_def Let_def split: if_splits option.splits)
  have q: "required t < 2 ^ 128" "req = stx_amount t + ucast (stx_fee_sat t)"
    using req by (simp_all add: checked_fee)
  have "load_or_default ops X s' = transfer B t" "inv s'"
    using s K by (simp_all add: s' transfer_def Let_def load_or_default_save inv_save B_def q(2))
  moreover have "transfer_ok B t"
    using ok q unat_fee_sum [OF q(1)] by (simp add: transfer_ok_def word_less_nat_alt not_less)
  ultimately show ?thesis by (simp add: B_def)
qed

lemma apply_all_ledger:
  assumes K: "account_codec_ok (kx X)" and "inv s" and "apply_all ops X s ts = (None, s')"
  shows "inv s' \<and> ledger_run (load_or_default ops X s) ts = Some (load_or_default ops X s')"
  using assms(2,3)
proof (induction ts arbitrary: s)
  case (Cons t ts)
  then obtain s1 where s1: "apply_staged ops X s t = Inr s1" "apply_all ops X s1 ts = (None, s')"
    by (auto split: sum.splits)
  note a = apply_staged_ledger [OF K Cons.prems(1) s1(1)]
  with Cons.IH [OF _ s1(2)] show ?case by simp
qed simp

lemma put_record_ledger:
  "inv s \<Longrightarrow> put_record ops s e c r sub k = Inr s' \<Longrightarrow> sub \<noteq> Accounts \<Longrightarrow>
     inv s' \<and> load_or_default ops X s' = load_or_default ops X s"
  by (auto simp: put_record_def inv_put load_put_other split: option.splits)

lemma tx_effect_ledger:
  assumes "inv s" "tx_effect ops X hdr i from c s = Inr s'"
  shows "inv s' \<and> load_or_default ops X s' = load_or_default ops X s"
  using assms
  by (cases c)
    (auto simp: attest_round_effect_def register_coordinator_effect_def
      attest_pedigree_effect_def upgrade_crypto_effect_def set_governance_effect_def
      dest: put_record_ledger split: sum.splits if_splits)

lemma apply_effects_ledger:
  assumes "inv s" "apply_effects ops X hdr i ts s = (None, s')"
  shows "inv s' \<and> load_or_default ops X s' = load_or_default ops X s"
  using assms
proof (induction ts arbitrary: i s)
  case (Cons t ts)
  then obtain s1 where s1: "tx_effect ops X hdr i (from_account t) (call t) s = Inr s1"
    "apply_effects ops X hdr (Suc i) ts s1 = (None, s')"
    by (auto split: sum.splits)
  from tx_effect_ledger [OF Cons.prems(1) s1(1)] Cons.IH [OF _ s1(2)] show ?case by simp
qed simp

lemma finish_ledger:
  assumes "inv s" "finish_block ops X s blk fees m = (Inr out, s')"
  shows "inv s' \<and> load_or_default ops X s' = load_or_default ops X s \<and>
    fees_collected_sat out = fees \<and> coinbase_minted_sat out = m"
proof -
  have act: "inv (activate_crypto ops X h u) \<and>
      load_or_default ops X (activate_crypto ops X h u) = load_or_default ops X u" if "inv u" for h u
    using that by (auto simp: activate_crypto_def inv_put load_put_other split: option.splits sum.splits)
  show ?thesis
    using assms
    by (auto simp: finish_block_def Let_def split_beta act inv_put inv_root load_root load_put_other
        split: option.splits)
qed

text \<open>A block that is accepted: what its steps were, and what they did to the accounts.\<close>

lemma apply_block_ledger:
  assumes K: "account_codec_ok (kx X)" and s: "inv s" and r: "apply_block ops X s blk reward = (Inr out, s')"
  obtains fees staged B1 where
    "validate_all ops X s (witnesses (body blk)) 0 (txs (body blk)) 0 = Inr (fees, staged)"
    and "ledger_run (load_or_default ops X s) staged = Some B1"
    and "fees_collected_sat out = fees" "unat (coinbase_minted_sat out) = unat reward + unat fees"
    and "unat (balance (B1 (from_coinbase (coinbase (header blk))))) + unat reward + unat fees < 2 ^ 128"
    and "load_or_default ops X s' = (let m = from_coinbase (coinbase (header blk)) in
      B1(m := (B1 m)\<lparr>balance := balance (B1 m) + coinbase_minted_sat out\<rparr>))"
    and "inv s'"
proof -
  obtain fees staged where v: "validate_all ops X s (witnesses (body blk)) 0 (txs (body blk)) 0 = Inr (fees, staged)"
    using r by (auto simp: apply_block_alt split: sum.splits)
  obtain e1 s1 where a: "apply_all ops X s staged = (e1, s1)" by fastforce
  have e1: "e1 = None" using r v a by (cases e1) (simp_all add: apply_block_alt)
  note a = a [unfolded e1]
  obtain e2 s2 where b: "apply_effects ops X (header blk) 0 (txs (body blk)) s1 = (e2, s2)" by fastforce
  have e2: "e2 = None" using r v a b by (cases e2) (simp_all add: apply_block_alt)
  note b = b [unfolded e2]
  obtain m s3 where c: "pay_coinbase ops X (header blk) reward fees s2 = Inr (m, s3)"
    and f: "finish_block ops X s3 blk fees m = (Inr out, s')"
    using r v a b by (auto simp: apply_block_alt split: sum.splits)
  note A = apply_all_ledger [OF K s a]
  note E = apply_effects_ledger [OF A [THEN conjunct1] b]
  define B1 where "B1 = load_or_default ops X s1"
  define mi where "mi = from_coinbase (coinbase (header blk))"
  have lc: "load_or_default ops X s2 = B1" using E by (simp add: B1_def)
  from c obtain bal where cc: "checked_add reward fees = Some m" "checked_add (balance (B1 mi)) m = Some bal"
    "s3 = save ops X s2 mi ((B1 mi)\<lparr>balance := bal\<rparr>)"
    by (auto simp: pay_coinbase_def Let_def lc mi_def [symmetric] split: option.splits)
  have s3: "inv s3" "load_or_default ops X s3 = B1(mi := (B1 mi)\<lparr>balance := bal\<rparr>)"
    using E K by (simp_all add: cc(3) inv_save load_or_default_save lc)
  note F = finish_ledger [OF s3(1) f]
  have bal: "bal = balance (B1 mi) + m" "unat (balance (B1 mi)) + unat m < 2 ^ 128"
    using cc(2) by (simp_all add: checked_add_Some_iff)
  have m: "unat m = unat reward + unat fees" by (rule checked_add_Some_unat [OF cc(1)])
  show thesis
    by (rule that [of fees staged B1]) (use v A F s3 bal m in \<open>simp_all add: B1_def mi_def Let_def\<close>)
qed

end

end
