(* ===== verification/State_Accounting.thy ===== *)
theory State_Accounting
  imports State_Ledger
begin

text \<open>
  The accounting of an accepted block, derived from its ledger steps: conservation of the money,
  nonces and the distinctness of the senders, authorisation of every debit, and the invariant
  that a committed public key derives its account id.
\<close>

section \<open>Validation, transaction by transaction\<close>

lemma validate_all_Inr:
  assumes "validate_all ops X s ws i ts fees0 = Inr (fees, staged)"
  shows "length staged = length ts \<and>
    unat fees = unat fees0 + sum_list (map (\<lambda>t. unat (stx_fee_sat t)) staged) \<and>
    (\<forall>k < length ts. i + k < length ws \<and> witness_digest (hx X) (ws ! (i + k)) = witness_hash (ts ! k) \<and>
       validate_tx ops X (i + k) s (ts ! k) (ws ! (i + k)) = Inr (staged ! k))"
  using assms
proof (induction ts arbitrary: i fees0 staged)
  case (Cons t ts)
  then obtain st f1 rest where h: "i < length ws" "witness_digest (hx X) (ws ! i) = witness_hash t"
    "validate_tx ops X i s t (ws ! i) = Inr st" "checked_add fees0 (ucast (stx_fee_sat st)) = Some f1"
    "validate_all ops X s ws (Suc i) ts f1 = Inr (fees, rest)" "staged = st # rest"
    by (auto split: if_splits sum.splits option.splits)
  note IH = Cons.IH [OF h(5)]
  have f: "unat f1 = unat fees0 + unat (stx_fee_sat st)"
    using checked_add_Some_unat [OF h(4)] by (simp add: unat_u64_to_u128)
  show ?case
  proof (intro conjI allI impI)
    fix k assume "k < length (t # ts)"
    then show "i + k < length ws" "witness_digest (hx X) (ws ! (i + k)) = witness_hash ((t # ts) ! k)"
      "validate_tx ops X (i + k) s ((t # ts) ! k) (ws ! (i + k)) = Inr (staged ! k)"
      using IH h by (cases k; simp)+
  qed (use IH h(6) f in simp_all)
qed simp

lemma validate_tx_Inr:
  assumes "validate_tx ops X i s tx w = Inr st"
  shows "stx_idx st = i" "stx_from_account st = from_account tx" "stx_fee_sat st = fee_sat tx"
    "stx_sig_algo st = wit_sig_algo w"
    "call_target (from_account tx) (call tx) = Some (stx_to st, stx_amount st)"
    "stx_expected_nonce st = tx_nonce tx"
    "acct_nonce (load_or_default ops X s (from_account tx)) = tx_nonce tx"
    "witness_pubkey ops X s i tx w = Inr (stx_pubkey_bytes st)"
    "verify (cx X) (wit_sig_algo w) (stx_pubkey_bytes st) (wit_sig w) (signing_hash (hx X) tx) = Inr ()"
    "required st < 2 ^ 128" "required st \<le> unat (balance (load_or_default ops X s (from_account tx)))"
proof -
  from assms obtain to amount pkb req where h: "call_target (from_account tx) (call tx) = Some (to, amount)"
    "witness_pubkey ops X s i tx w = Inr pkb"
    "verify (cx X) (wit_sig_algo w) pkb (wit_sig w) (signing_hash (hx X) tx) = Inr ()"
    "tx_nonce tx = acct_nonce (load_or_default ops X s (from_account tx))"
    "checked_add amount (ucast (fee_sat tx)) = Some req"
    "\<not> balance (load_or_default ops X s (from_account tx)) < req"
    "st = \<lparr> stx_idx = i, stx_from_account = from_account tx,
       stx_expected_nonce = acct_nonce (load_or_default ops X s (from_account tx)), stx_to = to,
       stx_amount = amount, stx_fee_sat = fee_sat tx, stx_pubkey_bytes = pkb, stx_sig_algo = wit_sig_algo w \<rparr>"
    by (auto simp: validate_tx_def Let_def split: option.splits sum.splits if_splits)
  then show "stx_idx st = i" "stx_from_account st = from_account tx" "stx_fee_sat st = fee_sat tx"
    "stx_sig_algo st = wit_sig_algo w"
    "call_target (from_account tx) (call tx) = Some (stx_to st, stx_amount st)"
    "stx_expected_nonce st = tx_nonce tx"
    "acct_nonce (load_or_default ops X s (from_account tx)) = tx_nonce tx"
    "witness_pubkey ops X s i tx w = Inr (stx_pubkey_bytes st)"
    "verify (cx X) (wit_sig_algo w) (stx_pubkey_bytes st) (wit_sig w) (signing_hash (hx X) tx) = Inr ()"
    by simp_all
  have "required st = unat req" "required st < 2 ^ 128"
    using h(5,7) checked_add_Some_unat [OF h(5)]
    by (auto simp: required_def unat_u64_to_u128 checked_add_Some_iff)
  then show "required st < 2 ^ 128" "required st \<le> unat (balance (load_or_default ops X s (from_account tx)))"
    using h(6) by (simp_all add: word_less_nat_alt not_less)
qed

section \<open>Conservation\<close>

definition total :: "account_id set \<Rightarrow> ledger \<Rightarrow> nat" where
  "total A B = (\<Sum>i\<in>A. unat (balance (B i)))"

lemma total_upd:
  assumes "finite A" "i \<in> A"
  shows "total A (B(i := a)) + unat (balance (B i)) = total A B + unat (balance a)"
proof -
  have "(\<Sum>x\<in>A - {i}. unat (balance ((B(i := a)) x))) = (\<Sum>x\<in>A - {i}. unat (balance (B x)))"
    by (rule sum.cong) auto
  then show ?thesis
    unfolding total_def sum.remove [OF assms, of "\<lambda>x. unat (balance ((B(i := a)) x))"]
      sum.remove [OF assms, of "\<lambda>x. unat (balance (B x))"] by simp
qed

lemma total_ge: "finite A \<Longrightarrow> i \<in> A \<Longrightarrow> unat (balance (B i)) \<le> total A B"
  unfolding total_def by (rule member_le_sum) simp_all

lemma balance_debit [simp]: "balance (debit a t r) = balance a - r"
  by (simp add: debit_def Let_def)

lemma nonce_debit [simp]: "acct_nonce (debit a t r) = sat_add (acct_nonce a) 1"
  by (simp add: debit_def Let_def)

lemma transfer_total:
  assumes A: "finite A" "stx_from_account t \<in> A" "stx_to t \<in> A"
    and ok: "transfer_ok B t" and small: "total A B < 2 ^ 128"
  shows "total A (transfer B t) + unat (stx_fee_sat t) = total A B"
proof -
  define f where "f = stx_from_account t"
  define r where "r = stx_amount t + ucast (stx_fee_sat t)"
  define B1 where "B1 = B(f := debit (B f) t r)"
  define B2 where "B2 = transfer B t"
  have B2: "B2 = B1(stx_to t := (B1 (stx_to t))\<lparr>balance := sat_add (balance (B1 (stx_to t))) (stx_amount t)\<rparr>)"
    by (simp add: B2_def transfer_def B1_def r_def f_def Let_def)
  have r: "unat r = unat (stx_amount t) + unat (stx_fee_sat t)" "unat r \<le> unat (balance (B f))"
    using ok unat_fee_sum [of t] by (simp_all add: transfer_ok_def r_def f_def required_def)
  then have "unat (balance (B1 f)) + unat r = unat (balance (B f))"
    by (simp add: B1_def unat_sub word_le_nat_alt)
  then have t1: "total A B1 + unat r = total A B"
    using total_upd [of A f B "debit (B f) t r"] A by (simp add: f_def B1_def)
  have "unat (balance (B1 (stx_to t))) \<le> total A B1" using A by (intro total_ge)
  then have "unat (sat_add (balance (B1 (stx_to t))) (stx_amount t)) =
      unat (balance (B1 (stx_to t))) + unat (stx_amount t)"
    using t1 r small by (simp add: word_nat)
  then have "total A B2 = total A B1 + unat (stx_amount t)"
    using total_upd [OF A(1,3), of B1 "(B1 (stx_to t))\<lparr>balance := sat_add (balance (B1 (stx_to t))) (stx_amount t)\<rparr>"]
    by (simp add: B2)
  then show ?thesis using t1 r by (simp add: B2_def)
qed

lemma ledger_run_total:
  assumes "ledger_run B ts = Some B'" "finite A" "total A B < 2 ^ 128"
    and "\<forall>t \<in> set ts. stx_from_account t \<in> A \<and> stx_to t \<in> A"
  shows "total A B' + sum_list (map (\<lambda>t. unat (stx_fee_sat t)) ts) = total A B"
  using assms
proof (induction ts arbitrary: B)
  case (Cons t ts)
  then have ok: "transfer_ok B t" and run: "ledger_run (transfer B t) ts = Some B'" by (auto split: if_splits)
  have "total A (transfer B t) + unat (stx_fee_sat t) = total A B"
    using Cons.prems ok by (intro transfer_total) auto
  with Cons.IH [OF run] Cons.prems show ?case by simp
qed simp

section \<open>Nonces and repeated senders\<close>

lemma transfer_nonce:
  "acct_nonce (transfer B t i) =
     (if i = stx_from_account t then sat_add (acct_nonce (B i)) 1 else acct_nonce (B i))"
  by (simp add: transfer_def Let_def)

lemma ledger_run_nonce_mono:
  "ledger_run B ts = Some B' \<Longrightarrow> unat (acct_nonce (B i)) \<le> unat (acct_nonce (B' i))"
proof (induction ts arbitrary: B)
  case (Cons t ts)
  then have "unat (acct_nonce (transfer B t i)) \<le> unat (acct_nonce (B' i))" by (auto split: if_splits)
  moreover have "unat (acct_nonce (B i)) \<le> unat (acct_nonce (transfer B t i))"
    using unsigned_less [of "acct_nonce (B i)", where ?'a = nat] by (auto simp: transfer_nonce word_nat)
  ultimately show ?case by simp
qed simp

lemma ledger_run_expected:
  "ledger_run B ts = Some B' \<Longrightarrow> t \<in> set ts \<Longrightarrow>
     unat (acct_nonce (B (stx_from_account t))) \<le> unat (stx_expected_nonce t)"
proof (induction ts arbitrary: B)
  case (Cons u ts)
  then have ok: "transfer_ok B u" and run: "ledger_run (transfer B u) ts = Some B'" by (auto split: if_splits)
  show ?case
  proof (cases "t = u")
    case True
    then show ?thesis using ok by (simp add: transfer_ok_def)
  next
    case False
    then have "unat (acct_nonce (transfer B u (stx_from_account t))) \<le> unat (stx_expected_nonce t)"
      using Cons.IH [OF run] Cons.prems by simp
    moreover have "unat (acct_nonce (B (stx_from_account t))) \<le> unat (acct_nonce (transfer B u (stx_from_account t)))"
      using ledger_run_nonce_mono [of B "[u]" "transfer B u"] ok by simp
    ultimately show ?thesis by simp
  qed
qed simp

text \<open>
  Staged transactions all carry the nonce their sender had \<^emph>\<open>before\<close> the block, so a second one of
  the same sender never passes the check of the apply pass.
\<close>

lemma ledger_run_distinct:
  assumes "ledger_run B ts = Some B'"
    and "\<forall>t \<in> set ts. stx_expected_nonce t = acct_nonce (B0 (stx_from_account t)) \<and>
      acct_nonce (B0 (stx_from_account t)) < - 1"
    and "\<forall>i. unat (acct_nonce (B0 i)) \<le> unat (acct_nonce (B i))"
  shows "distinct (map stx_from_account ts) \<and>
    (\<forall>i. acct_nonce (B' i) = (if i \<in> stx_from_account ` set ts then acct_nonce (B i) + 1 else acct_nonce (B i)))"
  using assms
proof (induction ts arbitrary: B)
  case (Cons t ts)
  define f where "f = stx_from_account t"
  from Cons.prems have ok: "transfer_ok B t" and run: "ledger_run (transfer B t) ts = Some B'"
    by (auto split: if_splits)
  have nf: "acct_nonce (B f) = acct_nonce (B0 f)" "acct_nonce (B0 f) < - 1"
    using ok Cons.prems(2) by (simp_all add: transfer_ok_def f_def)
  then have suc: "unat (acct_nonce (B f) + 1) = Suc (unat (acct_nonce (B f)))"
    by (metis unat_suc_below)
  then have bump: "acct_nonce (transfer B t f) = acct_nonce (B f) + 1"
    using unsigned_less [of "acct_nonce (B f) + 1", where ?'a = nat]
    by (simp add: transfer_nonce f_def sat_add_def)
  have notin: "f \<notin> stx_from_account ` set ts"
  proof
    assume "f \<in> stx_from_account ` set ts"
    then obtain u where u: "u \<in> set ts" "stx_from_account u = f" by auto
    have "unat (acct_nonce (transfer B t f)) \<le> unat (stx_expected_nonce u)"
      using ledger_run_expected [OF run u(1)] u(2) by simp
    then show False using Cons.prems(2) u nf bump suc by simp
  qed
  have "\<forall>i. unat (acct_nonce (B0 i)) \<le> unat (acct_nonce (transfer B t i))"
    using Cons.prems(3) ledger_run_nonce_mono [of B "[t]" "transfer B t"] ok by (auto intro: le_trans)
  from Cons.IH [OF run _ this] Cons.prems(2)
  have IH: "distinct (map stx_from_account ts)"
    "\<And>i. acct_nonce (B' i) = (if i \<in> stx_from_account ` set ts then acct_nonce (transfer B t i) + 1 else acct_nonce (transfer B t i))"
    by auto
  have "acct_nonce (B' i) =
      (if i \<in> stx_from_account ` set (t # ts) then acct_nonce (B i) + 1 else acct_nonce (B i))" for i
  proof (cases "i = f")
    case True
    then show ?thesis using IH(2) [of f] notin bump by (simp add: f_def)
  next
    case False
    then have "acct_nonce (transfer B t i) = acct_nonce (B i)" by (simp add: transfer_nonce f_def)
    with False show ?thesis using IH(2) [of i] by (simp add: f_def)
  qed
  with IH(1) notin show ?case by (simp add: f_def)
qed simp

section \<open>Who can lose money, and whose key signed\<close>

lemma ledger_run_other:
  assumes "ledger_run B ts = Some B'" "i \<notin> stx_from_account ` set ts"
  shows "unat (balance (B i)) \<le> unat (balance (B' i)) \<and> pubkey (B' i) = pubkey (B i) \<and>
    acct_sig_algo (B' i) = acct_sig_algo (B i) \<and> acct_nonce (B' i) = acct_nonce (B i)"
  using assms
proof (induction ts arbitrary: B)
  case (Cons t ts)
  then have run: "ledger_run (transfer B t) ts = Some B'" by (auto split: if_splits)
  have "unat (balance (B i)) \<le> unat (balance (transfer B t i)) \<and> pubkey (transfer B t i) = pubkey (B i) \<and>
      acct_sig_algo (transfer B t i) = acct_sig_algo (B i) \<and> acct_nonce (transfer B t i) = acct_nonce (B i)"
    using Cons.prems(2) unsigned_less [of "balance (B i)", where ?'a = nat]
    by (auto simp: transfer_def Let_def word_nat)
  with Cons.IH [OF run] Cons.prems(2) show ?case by fastforce
qed simp

definition keys_ok :: "hash_ext \<Rightarrow> ledger \<Rightarrow> bool" where
  "keys_ok H B \<longleftrightarrow> (\<forall>i. pubkey (B i) \<noteq> [] \<longrightarrow> from_pubkey H (pubkey (B i)) = i)"

lemma ledger_run_keys:
  assumes "ledger_run B ts = Some B'" "keys_ok H B"
    and "\<forall>t \<in> set ts. from_pubkey H (stx_pubkey_bytes t) = stx_from_account t"
  shows "keys_ok H B'"
  using assms
proof (induction ts arbitrary: B)
  case (Cons t ts)
  then have run: "ledger_run (transfer B t) ts = Some B'" by (auto split: if_splits)
  have "keys_ok H (transfer B t)"
    using Cons.prems(2,3) by (auto simp: keys_ok_def transfer_def Let_def debit_def)
  with Cons.IH [OF run] Cons.prems(3) show ?case by simp
qed simp

lemma witness_pubkey_derives:
  assumes "witness_pubkey ops X s i tx w = Inr k" "keys_ok (hx X) (load_or_default ops X s)"
  shows "from_pubkey (hx X) k = from_account tx"
  using assms(1)
proof (cases "wit_pubkey w")
  case (Known j)
  then obtain a where a: "load ops X s (from_account tx) = Some a" "pubkey a \<noteq> []" "k = pubkey a"
    using assms(1) by (auto simp: witness_pubkey_def split: option.splits if_splits)
  then have "load_or_default ops X s (from_account tx) = a" by (simp add: load_or_default_def)
  with a assms(2) show ?thesis unfolding keys_ok_def by metis
next
  case (Inline bs)
  then show ?thesis using assms(1) by (simp add: witness_pubkey_def split: if_splits)
qed

section \<open>Accepted blocks\<close>

definition recipients :: "block \<Rightarrow> account_id set" where
  "recipients blk = {to. \<exists>tx \<in> set (txs (body blk)). \<exists>a. call_target (from_account tx) (call tx) = Some (to, a)}"

definition senders :: "block \<Rightarrow> account_id set" where
  "senders blk = from_account ` set (txs (body blk))"

definition miner_of :: "block \<Rightarrow> account_id" where
  "miner_of blk = from_coinbase (coinbase (header blk))"

definition block_accounts :: "block \<Rightarrow> account_id set" where
  "block_accounts blk = insert (miner_of blk) (senders blk \<union> recipients blk)"

lemma validate_all_accounts:
  assumes "validate_all ops X s (witnesses (body blk)) 0 (txs (body blk)) 0 = Inr (fees, staged)"
  shows "map stx_from_account staged = map from_account (txs (body blk))"
    and "\<forall>t \<in> set staged. stx_from_account t \<in> senders blk \<and> stx_to t \<in> recipients blk \<and>
      stx_expected_nonce t = acct_nonce (load_or_default ops X s (stx_from_account t))"
proof -
  note v = validate_all_Inr [OF assms]
  show "map stx_from_account staged = map from_account (txs (body blk))"
  proof (rule nth_equalityI)
    fix k assume "k < length (map stx_from_account staged)"
    then have k: "k < length (txs (body blk))" "k < length staged" using v by auto
    with v have "validate_tx ops X (0 + k) s (txs (body blk) ! k) (witnesses (body blk) ! (0 + k)) = Inr (staged ! k)"
      by blast
    from validate_tx_Inr(2) [OF this] k show "map stx_from_account staged ! k = map from_account (txs (body blk)) ! k"
      by simp
  qed (use v in simp)
  show "\<forall>t \<in> set staged. stx_from_account t \<in> senders blk \<and> stx_to t \<in> recipients blk \<and>
      stx_expected_nonce t = acct_nonce (load_or_default ops X s (stx_from_account t))"
  proof
    fix t assume "t \<in> set staged"
    then obtain k where k: "k < length (txs (body blk))" "t = staged ! k" using v by (auto simp: in_set_conv_nth)
    then have "validate_tx ops X (0 + k) s (txs (body blk) ! k) (witnesses (body blk) ! (0 + k)) = Inr t"
      using v by blast
    note d = validate_tx_Inr [OF this]
    have "txs (body blk) ! k \<in> set (txs (body blk))" using k by simp
    then show "stx_from_account t \<in> senders blk \<and> stx_to t \<in> recipients blk \<and>
      stx_expected_nonce t = acct_nonce (load_or_default ops X s (stx_from_account t))"
      using d by (auto simp: senders_def recipients_def)
  qed
qed

context state_store
begin

lemma apply_block_conserves:
  assumes K: "account_codec_ok (kx X)" and s: "inv s" and r: "apply_block ops X s blk reward = (Inr out, s')"
    and A: "finite A" "block_accounts blk \<subseteq> A" "total A (load_or_default ops X s) < 2 ^ 128"
  shows "total A (load_or_default ops X s') = total A (load_or_default ops X s) + unat reward"
proof -
  obtain fees staged B1 where v: "validate_all ops X s (witnesses (body blk)) 0 (txs (body blk)) 0 = Inr (fees, staged)"
    and run: "ledger_run (load_or_default ops X s) staged = Some B1"
    and c: "unat (coinbase_minted_sat out) = unat reward + unat fees"
      "unat (balance (B1 (miner_of blk))) + unat reward + unat fees < 2 ^ 128"
      "load_or_default ops X s' = B1(miner_of blk := (B1 (miner_of blk))\<lparr>balance := balance (B1 (miner_of blk)) + coinbase_minted_sat out\<rparr>)"
    by (rule apply_block_ledger [OF K s r, unfolded Let_def, folded miner_of_def]) blast
  have "\<forall>t \<in> set staged. stx_from_account t \<in> A \<and> stx_to t \<in> A"
    using validate_all_accounts(2) [OF v] A(2) by (auto simp: block_accounts_def)
  from ledger_run_total [OF run A(1) A(3) this] validate_all_Inr [OF v]
  have t1: "total A B1 + unat fees = total A (load_or_default ops X s)" by simp
  have "unat (balance (B1 (miner_of blk)) + coinbase_minted_sat out) =
      unat (balance (B1 (miner_of blk))) + unat (coinbase_minted_sat out)"
    using c by (intro unat_add_lem [THEN iffD1]) simp
  moreover have "miner_of blk \<in> A" using A(2) by (auto simp: block_accounts_def)
  ultimately have "total A (load_or_default ops X s') = total A B1 + unat (coinbase_minted_sat out)"
    using total_upd [OF A(1), of "miner_of blk" B1 "(B1 (miner_of blk))\<lparr>balance := balance (B1 (miner_of blk)) + coinbase_minted_sat out\<rparr>"]
    by (simp add: c(3))
  then show ?thesis using t1 c(1) by simp
qed

lemma apply_block_nonces:
  assumes K: "account_codec_ok (kx X)" and s: "inv s" and r: "apply_block ops X s blk reward = (Inr out, s')"
    and small: "\<forall>i \<in> senders blk. acct_nonce (load_or_default ops X s i) < - 1"
  shows "distinct (map from_account (txs (body blk))) \<and>
    (\<forall>i. acct_nonce (load_or_default ops X s' i) =
       (if i \<in> senders blk then acct_nonce (load_or_default ops X s i) + 1
        else acct_nonce (load_or_default ops X s i)))"
proof -
  obtain fees staged B1 where v: "validate_all ops X s (witnesses (body blk)) 0 (txs (body blk)) 0 = Inr (fees, staged)"
    and run: "ledger_run (load_or_default ops X s) staged = Some B1"
    and c: "load_or_default ops X s' = (let m = from_coinbase (coinbase (header blk)) in
      B1(m := (B1 m)\<lparr>balance := balance (B1 m) + coinbase_minted_sat out\<rparr>))"
    using apply_block_ledger [OF K s r] by metis
  note acc = validate_all_accounts [OF v]
  have sd: "stx_from_account ` set staged = senders blk"
    using acc(1) unfolding senders_def by (metis list.set_map)
  have "acct_nonce (load_or_default ops X s' i) = acct_nonce (B1 i)" for i by (simp add: c Let_def)
  moreover have "distinct (map stx_from_account staged) \<and> (\<forall>i. acct_nonce (B1 i) =
      (if i \<in> stx_from_account ` set staged then acct_nonce (load_or_default ops X s i) + 1
       else acct_nonce (load_or_default ops X s i)))"
    by (rule ledger_run_distinct [OF run, of "load_or_default ops X s"]) (use acc(2) small in auto)
  ultimately show ?thesis by (simp add: acc(1) sd)
qed

lemma apply_block_authorised:
  assumes K: "account_codec_ok (kx X)" and s: "inv s" and r: "apply_block ops X s blk reward = (Inr out, s')"
    and keys: "keys_ok (hx X) (load_or_default ops X s)"
  shows "keys_ok (hx X) (load_or_default ops X s')"
    and "unat (balance (load_or_default ops X s' i)) < unat (balance (load_or_default ops X s i)) \<Longrightarrow>
      \<exists>k < length (txs (body blk)). let tx = txs (body blk) ! k; w = witnesses (body blk) ! k in
        from_account tx = i \<and> witness_digest (hx X) w = witness_hash tx \<and>
        (\<exists>pkb. from_pubkey (hx X) pkb = i \<and>
           verify (cx X) (wit_sig_algo w) pkb (wit_sig w) (signing_hash (hx X) tx) = Inr ())"
proof -
  obtain fees staged B1 where v: "validate_all ops X s (witnesses (body blk)) 0 (txs (body blk)) 0 = Inr (fees, staged)"
    and run: "ledger_run (load_or_default ops X s) staged = Some B1"
    and cb: "unat (coinbase_minted_sat out) = unat reward + unat fees"
      "unat (balance (B1 (miner_of blk))) + unat reward + unat fees < 2 ^ 128"
    and c: "load_or_default ops X s' = B1(miner_of blk := (B1 (miner_of blk))\<lparr>balance := balance (B1 (miner_of blk)) + coinbase_minted_sat out\<rparr>)"
    by (rule apply_block_ledger [OF K s r, unfolded Let_def, folded miner_of_def]) blast
  note acc = validate_all_accounts [OF v]
  note V = validate_all_Inr [OF v]
  have derive: "from_pubkey (hx X) (stx_pubkey_bytes (staged ! k)) = from_account (txs (body blk) ! k)"
    if "k < length (txs (body blk))" for k
  proof -
    have "validate_tx ops X (0 + k) s (txs (body blk) ! k) (witnesses (body blk) ! (0 + k)) = Inr (staged ! k)"
      using V that by blast
    from witness_pubkey_derives [OF validate_tx_Inr(8) [OF this] keys] show ?thesis .
  qed
  have "\<forall>t \<in> set staged. from_pubkey (hx X) (stx_pubkey_bytes t) = stx_from_account t"
  proof
    fix t assume "t \<in> set staged"
    then obtain k where k: "k < length (txs (body blk))" "t = staged ! k" using V by (auto simp: in_set_conv_nth)
    then have "validate_tx ops X (0 + k) s (txs (body blk) ! k) (witnesses (body blk) ! (0 + k)) = Inr t"
      using V by blast
    from validate_tx_Inr(2) [OF this] show "from_pubkey (hx X) (stx_pubkey_bytes t) = stx_from_account t"
      using derive [OF k(1)] k(2) by simp
  qed
  from ledger_run_keys [OF run keys this] show "keys_ok (hx X) (load_or_default ops X s')"
    by (auto simp: keys_ok_def c)
  assume less: "unat (balance (load_or_default ops X s' i)) < unat (balance (load_or_default ops X s i))"
  have "unat (balance (B1 (miner_of blk)) + coinbase_minted_sat out) =
      unat (balance (B1 (miner_of blk))) + unat (coinbase_minted_sat out)"
    using cb by (intro unat_add_lem [THEN iffD1]) simp
  then have "unat (balance (B1 i)) < unat (balance (load_or_default ops X s i))"
    using less by (simp add: c split: if_splits)
  then have "i \<in> stx_from_account ` set staged" using ledger_run_other [OF run, of i] by auto
  then obtain k where k: "k < length (txs (body blk))" "stx_from_account (staged ! k) = i"
    using V by (auto simp: in_set_conv_nth)
  then have vt: "validate_tx ops X k s (txs (body blk) ! k) (witnesses (body blk) ! k) = Inr (staged ! k)"
    "witness_digest (hx X) (witnesses (body blk) ! k) = witness_hash (txs (body blk) ! k)"
    using V by simp_all
  show "\<exists>k < length (txs (body blk)). let tx = txs (body blk) ! k; w = witnesses (body blk) ! k in
      from_account tx = i \<and> witness_digest (hx X) w = witness_hash tx \<and>
      (\<exists>pkb. from_pubkey (hx X) pkb = i \<and>
         verify (cx X) (wit_sig_algo w) pkb (wit_sig w) (signing_hash (hx X) tx) = Inr ())"
    using validate_tx_Inr [OF vt(1)] vt(2) k derive [OF k(1)]
    by (intro exI [of _ k]) (auto simp: Let_def)
qed

end

end
