(* ===== verification/State_Rules.thy ===== *)
theory State_Rules
  imports State_Accounting
begin

text \<open>
  What a block does outside the accounts: the stored governance configuration is always a valid
  one and changes only with the consent of a threshold of the current committee, the reflection
  record of a block can be read back, and a pending crypto rotation is activated at its height.
\<close>

section \<open>The governance gate\<close>

definition gov_consent :: "ext \<Rightarrow> governance_config \<Rightarrow> bytes \<Rightarrow> bytes \<Rightarrow> bool" where
  "gov_consent X cfg gov_proof payload \<longleftrightarrow>
     (\<exists>pf. dec (gov_proof_c (kx X)) gov_proof = Inr pf \<and>
        unat (gc_threshold cfg) \<le> card (endorsers (cx X) cfg payload (signatures pf)))"

lemma gov_gate_consent:
  assumes "gov_gate ops X s i gov_proof payload = Inr ()" "load_governance ops X s = Some cfg"
    and "validate_config cfg = Inr ()"
  shows "gov_consent X cfg gov_proof payload"
proof -
  have "0 < gc_threshold cfg" using assms(3) by (simp add: validate_config_iff)
  with assms(1,2) show ?thesis
    by (auto simp: gov_gate_def gov_consent_def verify_governance_proof_iff
        split: if_splits sum.splits)
qed

lemma gov_key_neq:
  "attest_auth_key j \<noteq> str_bytes ''governance''" "str_bytes ''upgrade_crypto'' \<noteq> str_bytes ''governance''"
  "str_bytes ''active_crypto'' \<noteq> str_bytes ''governance''"
  by (simp_all add: attest_auth_key_def str_bytes_def)

definition gov_valid :: "'s store_ops \<Rightarrow> ext \<Rightarrow> 's \<Rightarrow> bool" where
  "gov_valid ops X s \<longleftrightarrow> (\<forall>cfg. load_governance ops X s = Some cfg \<longrightarrow> validate_config cfg = Inr ())"

text \<open>A call that replaces the configuration \<open>cfg\<close> carries the consent of its committee.\<close>

definition consented_change :: "ext \<Rightarrow> governance_config \<Rightarrow> tx_call \<Rightarrow> bool" where
  "consented_change X cfg c \<longleftrightarrow>
     (\<exists>cbor gov_proof new_cfg. c = SetGovernance cbor gov_proof \<and>
        dec (gov_config_c (kx X)) cbor = Inr new_cfg \<and> validate_config new_cfg = Inr () \<and>
        gov_consent X cfg gov_proof (set_governance_gov_payload X new_cfg))"

context state_store
begin

lemma load_governance_put:
  "inv s \<Longrightarrow> (sub, k) \<noteq> (Meta, str_bytes ''governance'') \<Longrightarrow>
     load_governance ops X (st_put ops s sub k v) = load_governance ops X s"
  by (auto simp: load_governance_def get_put)

lemma load_governance_save: "inv s \<Longrightarrow> load_governance ops X (save ops X s i a) = load_governance ops X s"
  by (simp add: save_def load_governance_put)

lemma put_record_governance:
  assumes "inv s" "put_record ops s e c r sub k = Inr s'"
  shows "inv s'" "(sub, k) \<noteq> (Meta, str_bytes ''governance'') \<Longrightarrow> load_governance ops X s' = load_governance ops X s"
  using assms by (auto simp: put_record_def inv_put load_governance_put split: option.splits)

lemma apply_all_governance:
  "inv s \<Longrightarrow> apply_all ops X s ts = (e, s') \<Longrightarrow> inv s' \<and> load_governance ops X s' = load_governance ops X s"
proof (induction ts arbitrary: s)
  case (Cons t ts)
  show ?case
  proof (cases "apply_staged ops X s t")
    case (Inl e')
    then show ?thesis using Cons.prems by simp
  next
    case (Inr s1)
    then have "inv s1 \<and> load_governance ops X s1 = load_governance ops X s"
      using Cons.prems(1)
      by (auto simp: apply_staged_def Let_def load_governance_save inv_save split: if_splits option.splits)
    with Cons.IH [of s1] Cons.prems Inr show ?thesis by simp
  qed
qed simp

lemma tx_effect_governance:
  assumes s: "inv s" and K: "codec_ok (gov_config_c (kx X))" and e: "tx_effect ops X hdr i from c s = Inr s'"
  shows "inv s' \<and> (load_governance ops X s' = load_governance ops X s \<or>
    (\<exists>cbor gov_proof new_cfg. c = SetGovernance cbor gov_proof \<and> dec (gov_config_c (kx X)) cbor = Inr new_cfg \<and>
       validate_config new_cfg = Inr () \<and> load_governance ops X s' = Some new_cfg \<and>
       gov_gate ops X s i gov_proof (set_governance_gov_payload X new_cfg) = Inr ()))"
proof (cases c)
  case (SetGovernance cbor gov_proof)
  with e obtain new_cfg where n: "dec (gov_config_c (kx X)) cbor = Inr new_cfg" "validate_config new_cfg = Inr ()"
    "gov_gate ops X s i gov_proof (set_governance_gov_payload X new_cfg) = Inr ()"
    "put_record ops s (WitnessHashMismatch i) (gov_config_c (kx X)) new_cfg Meta (str_bytes ''governance'') = Inr s'"
    by (auto simp: set_governance_effect_def split: sum.splits)
  obtain b where "enc (gov_config_c (kx X)) new_cfg = Some b" "dec_opt (gov_config_c (kx X)) b = Some new_cfg"
    using codec_okE [OF K] .
  then have "load_governance ops X s' = Some new_cfg"
    using n(4) s by (auto simp: put_record_def load_governance_def)
  then show ?thesis using n SetGovernance put_record_governance(1) [OF s n(4)] by blast
qed (use s e in \<open>auto simp: attest_round_effect_def register_coordinator_effect_def attest_pedigree_effect_def
      upgrade_crypto_effect_def gov_key_neq dest: put_record_governance split: sum.splits if_splits\<close>)

lemma apply_effects_governance:
  assumes "inv s" "codec_ok (gov_config_c (kx X))" "gov_valid ops X s"
    and "apply_effects ops X hdr i ts s = (e, s')"
  shows "inv s' \<and> gov_valid ops X s' \<and>
    (\<forall>cfg. load_governance ops X s = Some cfg \<longrightarrow>
       load_governance ops X s' = Some cfg \<or> (\<exists>tx \<in> set ts. consented_change X cfg (call tx)))"
  using assms
proof (induction ts arbitrary: i s)
  case (Cons t ts)
  show ?case
  proof (cases "tx_effect ops X hdr i (from_account t) (call t) s")
    case (Inl e')
    then show ?thesis using Cons.prems by simp
  next
    case (Inr s1)
    note te = tx_effect_governance [OF Cons.prems(1,2) Inr]
    have v1: "gov_valid ops X s1" using te Cons.prems(3) by (auto simp: gov_valid_def)
    have IH: "inv s' \<and> gov_valid ops X s' \<and>
        (\<forall>cfg. load_governance ops X s1 = Some cfg \<longrightarrow>
           load_governance ops X s' = Some cfg \<or> (\<exists>tx \<in> set ts. consented_change X cfg (call tx)))"
      using Cons.IH [of s1 "Suc i"] Cons.prems(2,4) te v1 Inr by simp
    have "load_governance ops X s' = Some cfg \<or> (\<exists>tx \<in> set (t # ts). consented_change X cfg (call tx))"
      if cfg: "load_governance ops X s = Some cfg" for cfg
    proof (cases "load_governance ops X s1 = Some cfg")
      case True
      then show ?thesis using IH by auto
    next
      case False
      with te cfg obtain cbor gov_proof new_cfg where "call t = SetGovernance cbor gov_proof"
        "dec (gov_config_c (kx X)) cbor = Inr new_cfg" "validate_config new_cfg = Inr ()"
        "gov_gate ops X s i gov_proof (set_governance_gov_payload X new_cfg) = Inr ()" by auto
      moreover have "validate_config cfg = Inr ()" using Cons.prems(3) cfg by (simp add: gov_valid_def)
      ultimately have "consented_change X cfg (call t)"
        using gov_gate_consent [OF _ cfg] by (auto simp: consented_change_def)
      then show ?thesis by simp
    qed
    then show ?thesis using IH by blast
  qed
qed simp

lemma finish_governance:
  assumes "inv s" "finish_block ops X s blk fees m = (r, s')"
  shows "inv s' \<and> load_governance ops X s' = load_governance ops X s"
proof -
  have act: "inv (activate_crypto ops X h u) \<and>
      load_governance ops X (activate_crypto ops X h u) = load_governance ops X u" if "inv u" for h u
    using that by (auto simp: activate_crypto_def inv_put load_governance_put gov_key_neq split: option.splits sum.splits)
  have rt: "load_governance ops X (snd (st_root ops u)) = load_governance ops X u" if "inv u" for u
    using that by (simp add: load_governance_def get_root)
  show ?thesis
    using assms
    by (auto simp: finish_block_def Let_def split_beta act rt inv_put inv_root load_governance_put split: option.splits)
qed

lemma pay_coinbase_governance:
  assumes "inv s" "pay_coinbase ops X hdr r fees s = Inr (m, s')"
  shows "inv s' \<and> load_governance ops X s' = load_governance ops X s"
  using assms by (auto simp: pay_coinbase_def Let_def inv_save load_governance_save split: option.splits)

theorem apply_block_governance:
  assumes s: "inv s" and K: "codec_ok (gov_config_c (kx X))" and v: "gov_valid ops X s"
    and r: "apply_block ops X s blk reward = (res, s')"
  shows "gov_valid ops X s'"
    and "load_governance ops X s = Some cfg \<Longrightarrow> load_governance ops X s' \<noteq> Some cfg \<Longrightarrow>
      \<exists>tx \<in> set (txs (body blk)). consented_change X cfg (call tx)"
proof -
  have "gov_valid ops X s' \<and> (\<forall>cfg. load_governance ops X s = Some cfg \<longrightarrow>
      load_governance ops X s' = Some cfg \<or> (\<exists>tx \<in> set (txs (body blk)). consented_change X cfg (call tx)))"
  proof (cases "validate_all ops X s (witnesses (body blk)) 0 (txs (body blk)) 0")
    case (Inl e)
    then show ?thesis using r v by (simp add: apply_block_alt)
  next
    case (Inr p)
    obtain fees staged where p: "p = (fees, staged)" by (cases p)
    obtain e1 s1 where a: "apply_all ops X s staged = (e1, s1)" by fastforce
    note A = apply_all_governance [OF s a]
    then have v1: "gov_valid ops X s1" using v by (simp add: gov_valid_def)
    obtain e2 s2 where b: "apply_effects ops X (header blk) 0 (txs (body blk)) s1 = (e2, s2)" by fastforce
    note E = apply_effects_governance [OF A [THEN conjunct1] K v1 b]
    have F: "load_governance ops X s3 = load_governance ops X s2"
      if "pay_coinbase ops X (header blk) reward fees s2 = Inr (m, u)" "finish_block ops X u blk fees m = (q, s3)" for m u q s3
      using pay_coinbase_governance [OF _ that(1)] finish_governance [OF _ that(2)] E by simp
    have "load_governance ops X s' = load_governance ops X (if e1 = None then s2 else s1)"
      using r Inr p a b F
      by (cases e1; cases e2; cases "pay_coinbase ops X (header blk) reward fees s2") (auto simp: apply_block_alt)
    then show ?thesis using E A v1 by (auto simp: gov_valid_def split: if_splits)
  qed
  then show "gov_valid ops X s'" and "load_governance ops X s = Some cfg \<Longrightarrow>
      load_governance ops X s' \<noteq> Some cfg \<Longrightarrow> \<exists>tx \<in> set (txs (body blk)). consented_change X cfg (call tx)"
    by blast+
qed

text \<open>The record of an accepted block, and the activation of a pending rotation.\<close>

lemma reflect_key_neq: "block_key h \<noteq> str_bytes ''latest''"
  by (simp add: block_key_def str_bytes_def)

lemma activate_crypto_get:
  assumes "inv s"
  shows "inv (activate_crypto ops X hdr s)"
    and "st_get ops (activate_crypto ops X hdr s) Reflect = st_get ops s Reflect"
    and "st_get ops (activate_crypto ops X hdr s) Meta (str_bytes ''upgrade_crypto'') =
      st_get ops s Meta (str_bytes ''upgrade_crypto'')"
proof -
  have k: "str_bytes ''active_crypto'' \<noteq> str_bytes ''upgrade_crypto''" by (simp add: str_bytes_def)
  show "inv (activate_crypto ops X hdr s)"
    "st_get ops (activate_crypto ops X hdr s) Reflect = st_get ops s Reflect"
    "st_get ops (activate_crypto ops X hdr s) Meta (str_bytes ''upgrade_crypto'') =
      st_get ops s Meta (str_bytes ''upgrade_crypto'')"
    using assms k by (auto simp: activate_crypto_def inv_put get_put split: option.splits sum.splits)
qed

lemma activate_crypto_active:
  assumes "inv s" "codec_ok (active_c (kx X))" "st_get ops s Meta (str_bytes ''upgrade_crypto'') = Some b"
    and "dec (pending_c (kx X)) b = Inr p" "pu_target_height p = height hdr"
  shows "load_active_crypto ops X (activate_crypto ops X hdr s) =
    Some \<lparr> ac_sig_algo = pu_sig_algo p, ac_hash_algo = pu_hash_algo p, ac_activated_at_height = height hdr \<rparr>"
proof -
  obtain buf where "enc (active_c (kx X)) \<lparr> ac_sig_algo = pu_sig_algo p, ac_hash_algo = pu_hash_algo p,
      ac_activated_at_height = height hdr \<rparr> = Some buf"
    "dec_opt (active_c (kx X)) buf = Some \<lparr> ac_sig_algo = pu_sig_algo p, ac_hash_algo = pu_hash_algo p,
      ac_activated_at_height = height hdr \<rparr>"
    using codec_okE [OF assms(2)] .
  then show ?thesis using assms by (simp add: activate_crypto_def load_active_crypto_def)
qed

lemma finish_block_records:
  assumes s: "inv s" and K: "codec_ok (reflection_c (kx X))" "codec_ok (active_c (kx X))"
    and f: "finish_block ops X s blk fees m = (Inr out, s')"
  shows "load_latest_reflection ops X s' = Some (block_reflection blk fees m)"
    and "load_reflection_at ops X s' (height (header blk)) = Some (block_reflection blk fees m)"
    and "out_state_root out = root_of H (st_get ops s')"
    and "st_get ops s' Meta (str_bytes ''upgrade_crypto'') = Some b \<Longrightarrow> dec (pending_c (kx X)) b = Inr p \<Longrightarrow>
      pu_target_height p = height (header blk) \<Longrightarrow>
      load_active_crypto ops X s' = Some \<lparr> ac_sig_algo = pu_sig_algo p, ac_hash_algo = pu_hash_algo p,
        ac_activated_at_height = height (header blk) \<rparr>"
proof -
  obtain buf where buf: "enc (reflection_c (kx X)) (block_reflection blk fees m) = Some buf"
    "dec_opt (reflection_c (kx X)) buf = Some (block_reflection blk fees m)"
    using codec_okE [OF K(1)] .
  define s1 where "s1 = st_put ops (st_put ops s Reflect (block_key (height (header blk))) buf) Reflect (str_bytes ''latest'') buf"
  define s2 where "s2 = activate_crypto ops X (header blk) s1"
  have s1: "inv s1" using s by (simp add: s1_def inv_put)
  note ac = activate_crypto_get [OF s1, of X "header blk", folded s2_def]
  have out: "out_state_root out = fst (st_root ops s2)" "s' = snd (st_root ops s2)"
    using f buf(1) by (auto simp: finish_block_def Let_def split_beta s1_def [symmetric] s2_def [symmetric])
  have g: "st_get ops s' = st_get ops s2" using out(2) ac(1) by (simp add: get_root)
  have "st_get ops s' Reflect (block_key (height (header blk))) = Some buf"
    "st_get ops s' Reflect (str_bytes ''latest'') = Some buf"
    using s reflect_key_neq by (simp_all add: g ac(2) s1_def get_put inv_put)
  then show "load_latest_reflection ops X s' = Some (block_reflection blk fees m)"
    "load_reflection_at ops X s' (height (header blk)) = Some (block_reflection blk fees m)"
    using buf(2) by (simp_all add: load_latest_reflection_def load_reflection_at_def)
  show "out_state_root out = root_of H (st_get ops s')"
    using root_canonical [OF ac(1)] by (simp add: out(1) g)
  assume p: "st_get ops s' Meta (str_bytes ''upgrade_crypto'') = Some b" "dec (pending_c (kx X)) b = Inr p"
    "pu_target_height p = height (header blk)"
  then have "st_get ops s1 Meta (str_bytes ''upgrade_crypto'') = Some b" using ac(3) by (simp add: g)
  from activate_crypto_active [OF s1 K(2) this p(2,3)]
  show "load_active_crypto ops X s' = Some \<lparr> ac_sig_algo = pu_sig_algo p, ac_hash_algo = pu_hash_algo p,
      ac_activated_at_height = height (header blk) \<rparr>"
    by (simp add: load_active_crypto_def g s2_def)
qed

lemma apply_block_records:
  assumes s: "inv s" and K: "codec_ok (reflection_c (kx X))" "codec_ok (active_c (kx X))"
    and r: "apply_block ops X s blk reward = (Inr out, s')"
  shows "load_latest_reflection ops X s' =
      Some (block_reflection blk (fees_collected_sat out) (coinbase_minted_sat out))"
    and "load_reflection_at ops X s' (height (header blk)) =
      Some (block_reflection blk (fees_collected_sat out) (coinbase_minted_sat out))"
    and "out_state_root out = root_of H (st_get ops s')"
    and "txs_applied out = length (txs (body blk))"
    and "st_get ops s' Meta (str_bytes ''upgrade_crypto'') = Some b \<Longrightarrow> dec (pending_c (kx X)) b = Inr p \<Longrightarrow>
      pu_target_height p = height (header blk) \<Longrightarrow>
      load_active_crypto ops X s' = Some \<lparr> ac_sig_algo = pu_sig_algo p, ac_hash_algo = pu_hash_algo p,
        ac_activated_at_height = height (header blk) \<rparr>"
proof -
  obtain fees staged where v: "validate_all ops X s (witnesses (body blk)) 0 (txs (body blk)) 0 = Inr (fees, staged)"
    using r by (auto simp: apply_block_alt split: sum.splits)
  obtain e1 s1 where a: "apply_all ops X s staged = (e1, s1)" by fastforce
  obtain e2 s2 where b: "apply_effects ops X (header blk) 0 (txs (body blk)) s1 = (e2, s2)" by fastforce
  have e: "e1 = None" "e2 = None" using r v a b by (cases e1; cases e2; simp add: apply_block_alt)+
  obtain m s3 where c: "pay_coinbase ops X (header blk) reward fees s2 = Inr (m, s3)"
    and f: "finish_block ops X s3 blk fees m = (Inr out, s')"
    using r v a b e by (auto simp: apply_block_alt split: sum.splits)
  have i1: "inv s1" using apply_all_governance [OF s a] by simp
  have "inv s2" using apply_effects_ledger [OF i1] b e by simp
  then have i3: "inv s3" using pay_coinbase_governance [OF _ c] by simp
  have o: "fees_collected_sat out = fees" "coinbase_minted_sat out = m" "txs_applied out = length (txs (body blk))"
    using f by (auto simp: finish_block_def Let_def split_beta split: option.splits)
  show "load_latest_reflection ops X s' = Some (block_reflection blk (fees_collected_sat out) (coinbase_minted_sat out))"
    "load_reflection_at ops X s' (height (header blk)) =
      Some (block_reflection blk (fees_collected_sat out) (coinbase_minted_sat out))"
    "out_state_root out = root_of H (st_get ops s')" "txs_applied out = length (txs (body blk))"
    using finish_block_records(1-3) [OF i3 K f] o by simp_all
  show "load_active_crypto ops X s' = Some \<lparr> ac_sig_algo = pu_sig_algo p, ac_hash_algo = pu_hash_algo p,
      ac_activated_at_height = height (header blk) \<rparr>"
    if "st_get ops s' Meta (str_bytes ''upgrade_crypto'') = Some b" "dec (pending_c (kx X)) b = Inr p"
      "pu_target_height p = height (header blk)"
    using finish_block_records(4) [OF i3 K f] that by blast
qed

end

end
