(* ===== verification/Wire.thy ===== *)
theory Wire
  imports State_Data Consensus_Pow
begin

text \<open>
  A concrete self-delimiting encoding of the stored records, built from combinators. It stands in
  for the third-party CBOR codec where a theorem with a codec hypothesis is applied to a
  concrete input: \<open>wire_codec_ok\<close> turns the law of the combinators into \<open>codec_ok\<close>.
\<close>

section \<open>Combinators\<close>

record 'a wire =
  ser :: "'a \<Rightarrow> bytes"
  par :: "bytes \<Rightarrow> ('a \<times> bytes) option"

definition wire_ok :: "'a wire \<Rightarrow> bool" where
  "wire_ok w \<longleftrightarrow> (\<forall>x r. par w (ser w x @ r) = Some (x, r))"

fun par_nat :: "bytes \<Rightarrow> (nat \<times> bytes) option" where
  "par_nat [] = None"
| "par_nat (b # bs) =
     (if b = 0 then Some (0, bs)
      else case par_nat bs of None \<Rightarrow> None | Some (n, r) \<Rightarrow> Some (Suc n, r))"

definition w_nat :: "nat wire" where
  "w_nat = \<lparr> ser = (\<lambda>n. replicate n 1 @ [0]), par = par_nat \<rparr>"

definition w_word :: "'a::len word wire" where
  "w_word = \<lparr> ser = to_le,
     par = (\<lambda>bs. if length bs < LENGTH('a) div 8 then None
                 else Some (from_le (take (LENGTH('a) div 8) bs), drop (LENGTH('a) div 8) bs)) \<rparr>"

definition w_pair :: "'a wire \<Rightarrow> 'b wire \<Rightarrow> ('a \<times> 'b) wire" where
  "w_pair v w = \<lparr> ser = (\<lambda>(x, y). ser v x @ ser w y),
     par = (\<lambda>bs. case par v bs of None \<Rightarrow> None
                | Some (x, r) \<Rightarrow> (case par w r of None \<Rightarrow> None | Some (y, r') \<Rightarrow> Some ((x, y), r'))) \<rparr>"

fun par_seq :: "'a wire \<Rightarrow> nat \<Rightarrow> bytes \<Rightarrow> ('a list \<times> bytes) option" where
  "par_seq w 0 bs = Some ([], bs)"
| "par_seq w (Suc n) bs =
     (case par w bs of None \<Rightarrow> None
      | Some (x, r) \<Rightarrow> (case par_seq w n r of None \<Rightarrow> None | Some (xs, r') \<Rightarrow> Some (x # xs, r')))"

definition w_list :: "'a wire \<Rightarrow> 'a list wire" where
  "w_list w = \<lparr> ser = (\<lambda>xs. ser w_nat (length xs) @ concat (map (ser w) xs)),
     par = (\<lambda>bs. case par w_nat bs of None \<Rightarrow> None | Some (n, r) \<Rightarrow> par_seq w n r) \<rparr>"

definition w_iso :: "('b \<Rightarrow> 'a) \<Rightarrow> ('a \<Rightarrow> 'b) \<Rightarrow> 'a wire \<Rightarrow> 'b wire" where
  "w_iso f g w = \<lparr> ser = (\<lambda>y. ser w (f y)),
     par = (\<lambda>bs. case par w bs of None \<Rightarrow> None | Some (x, r) \<Rightarrow> Some (g x, r)) \<rparr>"

abbreviation w_bytes :: "bytes wire" where
  "w_bytes \<equiv> w_list w_word"

lemma wire_nat [intro, simp]: "wire_ok w_nat"
proof -
  have "par_nat (replicate n 1 @ 0 # r) = Some (n, r)" for n r by (induction n) simp_all
  then show ?thesis by (simp add: wire_ok_def w_nat_def)
qed

lemma wire_word [intro, simp]: "8 dvd LENGTH('a::len) \<Longrightarrow> wire_ok (w_word :: 'a word wire)"
  by (simp add: wire_ok_def w_word_def)

lemma wire_pair [intro, simp]: "wire_ok v \<Longrightarrow> wire_ok w \<Longrightarrow> wire_ok (w_pair v w)"
  by (auto simp: wire_ok_def w_pair_def)

lemma wire_list [intro, simp]:
  assumes "wire_ok w"
  shows "wire_ok (w_list w)"
proof -
  have "par_seq w (length xs) (concat (map (ser w) xs) @ r) = Some (xs, r)" for xs r
    using assms by (induction xs) (simp_all add: wire_ok_def)
  moreover have "par w_nat (ser w_nat n @ r) = Some (n, r)" for n r using wire_nat by (simp add: wire_ok_def)
  ultimately show ?thesis by (simp add: wire_ok_def w_list_def)
qed

lemma wire_iso: "wire_ok w \<Longrightarrow> (\<And>y. g (f y) = y) \<Longrightarrow> wire_ok (w_iso f g w)"
  by (simp add: wire_ok_def w_iso_def)

definition wire_codec :: "'a wire \<Rightarrow> 'a codec" where
  "wire_codec w = \<lparr> enc = (\<lambda>x. Some (ser w x)),
     dec = (\<lambda>bs. case par w bs of Some (x, []) \<Rightarrow> Inr x | _ \<Rightarrow> Inl ''malformed'') \<rparr>"

lemma wire_codec_ok:
  assumes "wire_ok w"
  shows "codec_ok (wire_codec w)"
proof -
  have "par w (ser w x) = Some (x, [])" for x using assms by (metis append_Nil2 wire_ok_def)
  then show ?thesis by (simp add: codec_ok_def wire_codec_def)
qed

section \<open>The stored records\<close>

definition w_account :: "account wire" where
  "w_account = w_iso (\<lambda>a. (balance a, acct_nonce a, pubkey a, acct_sig_algo a))
     (\<lambda>(b, n, k, s). \<lparr> balance = b, acct_nonce = n, pubkey = k, acct_sig_algo = s \<rparr>)
     (w_pair w_word (w_pair w_word (w_pair w_bytes w_word)))"

definition w_attest :: "attest_record wire" where
  "w_attest = w_iso
     (\<lambda>a. (ar_job_id a, ar_round_id a, ar_model_hash a, ar_dp_epsilon_milli a, ar_coordinator a,
        ar_block_height a, ar_block_timestamp_ms a))
     (\<lambda>(a, b, c, d, e, f, g). \<lparr> ar_job_id = a, ar_round_id = b, ar_model_hash = c, ar_dp_epsilon_milli = d,
        ar_coordinator = e, ar_block_height = f, ar_block_timestamp_ms = g \<rparr>)
     (w_pair w_bytes (w_pair w_word (w_pair w_bytes (w_pair w_word (w_pair w_bytes (w_pair w_word w_word))))))"

definition w_pending :: "pending_crypto_upgrade wire" where
  "w_pending = w_iso (\<lambda>p. (pu_target_height p, pu_sig_algo p, pu_hash_algo p, pu_announced_at_height p))
     (\<lambda>(a, b, c, d). \<lparr> pu_target_height = a, pu_sig_algo = b, pu_hash_algo = c, pu_announced_at_height = d \<rparr>)
     (w_pair w_word (w_pair w_word (w_pair w_word w_word)))"

definition w_active :: "active_crypto wire" where
  "w_active = w_iso (\<lambda>p. (ac_sig_algo p, ac_hash_algo p, ac_activated_at_height p))
     (\<lambda>(a, b, c). \<lparr> ac_sig_algo = a, ac_hash_algo = b, ac_activated_at_height = c \<rparr>)
     (w_pair w_word (w_pair w_word w_word))"

definition w_reflection :: "reflection wire" where
  "w_reflection = w_iso
     (\<lambda>r. (hashrate_proxy r, active_addresses r, fee_sum r, emission r, r_h_q64 r, r_a_q64 r, stability_bias r))
     (\<lambda>(a, b, c, d, e, f, g). \<lparr> hashrate_proxy = a, active_addresses = b, fee_sum = c, emission = d,
        r_h_q64 = e, r_a_q64 = f, stability_bias = g \<rparr>)
     (w_pair w_word (w_pair w_word (w_pair w_word (w_pair w_word (w_pair w_word (w_pair w_word w_word))))))"

definition w_signer :: "governance_signer wire" where
  "w_signer = w_iso (\<lambda>s. (gs_signer_id s, gs_sig_algo s, gs_pubkey s))
     (\<lambda>(a, b, c). \<lparr> gs_signer_id = a, gs_sig_algo = b, gs_pubkey = c \<rparr>)
     (w_pair w_bytes (w_pair w_word w_bytes))"

definition w_gov_config :: "governance_config wire" where
  "w_gov_config = w_iso (\<lambda>c. (gc_epoch c, gc_threshold c, gc_signers c))
     (\<lambda>(a, b, c). \<lparr> gc_epoch = a, gc_threshold = b, gc_signers = c \<rparr>)
     (w_pair w_word (w_pair w_word (w_list w_signer)))"

definition w_gov_sig :: "governance_sig wire" where
  "w_gov_sig = w_iso (\<lambda>s. (gsig_signer_id s, gsig_sig s)) (\<lambda>(a, b). \<lparr> gsig_signer_id = a, gsig_sig = b \<rparr>)
     (w_pair w_bytes w_bytes)"

definition w_gov_proof :: "governance_proof wire" where
  "w_gov_proof = w_iso signatures (\<lambda>l. \<lparr> signatures = l \<rparr>) (w_list w_gov_sig)"

definition w_authority :: "coordinator_authority wire" where
  "w_authority = w_iso (\<lambda>c. (ca_job_id c, ca_coordinators c, ca_registered_at_height c))
     (\<lambda>(a, b, c). \<lparr> ca_job_id = a, ca_coordinators = b, ca_registered_at_height = c \<rparr>)
     (w_pair w_bytes (w_pair (w_list w_bytes) w_word))"

definition w_pedigree :: "pedigree_record wire" where
  "w_pedigree = w_iso
     (\<lambda>p. (pr_job_id p, pr_lot_id p, pr_supplier p, pr_cage_code p, pr_attestation_authority p,
        pr_attester p, pr_block_height p, pr_block_timestamp_ms p))
     (\<lambda>(a, b, c, d, e, f, g, h). \<lparr> pr_job_id = a, pr_lot_id = b, pr_supplier = c, pr_cage_code = d,
        pr_attestation_authority = e, pr_attester = f, pr_block_height = g, pr_block_timestamp_ms = h \<rparr>)
     (w_pair w_bytes (w_pair w_bytes (w_pair w_bytes (w_pair w_bytes (w_pair w_bytes (w_pair w_bytes
        (w_pair w_word w_word)))))))"

lemma wire_account: "wire_ok w_account"
  unfolding w_account_def by (rule wire_iso) simp_all

lemma wire_signer: "wire_ok w_signer"
  unfolding w_signer_def by (rule wire_iso) simp_all

lemma wire_gov_sig: "wire_ok w_gov_sig"
  unfolding w_gov_sig_def by (rule wire_iso) simp_all

lemma wire_records:
  "wire_ok w_attest" "wire_ok w_pending" "wire_ok w_active" "wire_ok w_reflection"
  "wire_ok w_gov_config" "wire_ok w_gov_proof" "wire_ok w_authority" "wire_ok w_pedigree"
  unfolding w_attest_def w_pending_def w_active_def w_reflection_def w_gov_config_def
    w_gov_proof_def w_authority_def w_pedigree_def
  by (rule wire_iso; simp add: wire_signer wire_gov_sig)+

definition wire_cbor :: cbor_ext where
  "wire_cbor = \<lparr> account_enc = ser w_account, account_dec = (\<lambda>bs. map_option fst (par w_account bs)),
     attest_c = wire_codec w_attest, pending_c = wire_codec w_pending, active_c = wire_codec w_active,
     reflection_c = wire_codec w_reflection, gov_config_c = wire_codec w_gov_config,
     gov_proof_c = wire_codec w_gov_proof, authority_c = wire_codec w_authority,
     pedigree_c = wire_codec w_pedigree \<rparr>"

lemma wire_cbor_ok:
  "account_codec_ok wire_cbor" "codec_ok (attest_c wire_cbor)" "codec_ok (pending_c wire_cbor)"
  "codec_ok (active_c wire_cbor)" "codec_ok (reflection_c wire_cbor)" "codec_ok (gov_config_c wire_cbor)"
  "codec_ok (gov_proof_c wire_cbor)" "codec_ok (authority_c wire_cbor)" "codec_ok (pedigree_c wire_cbor)"
proof -
  have "par w_account (ser w_account a @ []) = Some (a, [])" for a
    using wire_account unfolding wire_ok_def by blast
  then show "account_codec_ok wire_cbor" by (simp add: account_codec_ok_def wire_cbor_def)
qed (simp_all add: wire_cbor_def wire_codec_ok wire_records)

section \<open>Transactions and blocks\<close>

text \<open>A call as a tag with one field of every type a constructor uses.\<close>

type_synonym flat_call = "u8 \<times> u128 \<times> u64 \<times> u32 \<times> u8 \<times> u8 \<times> bytes list"

fun flatten_call :: "tx_call \<Rightarrow> flat_call" where
  "flatten_call (Transfer to amount) = (1, amount, 0, 0, 0, 0, [to])"
| "flatten_call (DeployContract code args) = (2, 0, 0, 0, 0, 0, [code, args])"
| "flatten_call (CallContract to m args) = (3, 0, 0, 0, 0, 0, [to, m, args])"
| "flatten_call (UpgradeCrypto h s a p) = (4, 0, h, 0, s, a, [p])"
| "flatten_call (AttestRound j r m e) = (5, 0, r, e, 0, 0, [j, m])"
| "flatten_call (RegisterAttestCoordinator j cs p) = (6, 0, 0, 0, 0, 0, j # p # cs)"
| "flatten_call (SetGovernance c p) = (7, 0, 0, 0, 0, 0, [c, p])"
| "flatten_call (AttestPedigree a b c d e) = (8, 0, 0, 0, 0, 0, [a, b, c, d, e])"

definition unflatten_call :: "flat_call \<Rightarrow> tx_call" where
  "unflatten_call f = (case f of (tag, a, u, v, s, h, l) \<Rightarrow>
     if tag = 1 then Transfer (l ! 0) a
     else if tag = 2 then DeployContract (l ! 0) (l ! 1)
     else if tag = 3 then CallContract (l ! 0) (l ! 1) (l ! 2)
     else if tag = 4 then UpgradeCrypto u s h (l ! 0)
     else if tag = 5 then AttestRound (l ! 0) u (l ! 1) v
     else if tag = 6 then RegisterAttestCoordinator (l ! 0) (drop 2 l) (l ! 1)
     else if tag = 7 then SetGovernance (l ! 0) (l ! 1)
     else AttestPedigree (l ! 0) (l ! 1) (l ! 2) (l ! 3) (l ! 4))"

lemma unflatten_flatten [simp]: "unflatten_call (flatten_call c) = c"
  by (cases c) (simp_all add: unflatten_call_def)

definition w_call :: "tx_call wire" where
  "w_call = w_iso flatten_call unflatten_call
     (w_pair w_word (w_pair w_word (w_pair w_word (w_pair w_word (w_pair w_word (w_pair w_word (w_list w_bytes)))))))"

definition w_tx :: "tx_body wire" where
  "w_tx = w_iso (\<lambda>t. (tx_nonce t, from_account t, call t, fee_sat t, gas_limit t, witness_hash t))
     (\<lambda>(a, b, c, d, e, f). \<lparr> tx_nonce = a, from_account = b, call = c, fee_sat = d, gas_limit = e, witness_hash = f \<rparr>)
     (w_pair w_word (w_pair w_bytes (w_pair w_call (w_pair w_word (w_pair w_word w_bytes)))))"

definition flatten_key :: "pub_key_ref \<Rightarrow> u8 \<times> bytes" where
  "flatten_key k = (case k of Known i \<Rightarrow> (0, i) | Inline b \<Rightarrow> (1, b))"

definition unflatten_key :: "u8 \<times> bytes \<Rightarrow> pub_key_ref" where
  "unflatten_key p = (if fst p = 0 then Known (snd p) else Inline (snd p))"

lemma unflatten_key [simp]: "unflatten_key (flatten_key k) = k"
  by (cases k) (simp_all add: unflatten_key_def flatten_key_def)

definition w_witness :: "witness wire" where
  "w_witness = w_iso (\<lambda>w. (wit_sig_algo w, wit_sig w, flatten_key (wit_pubkey w)))
     (\<lambda>(a, b, c). \<lparr> wit_sig_algo = a, wit_sig = b, wit_pubkey = unflatten_key c \<rparr>)
     (w_pair w_word (w_pair w_bytes (w_pair w_word w_bytes)))"

definition w_header :: "block_header wire" where
  "w_header = w_iso
     (\<lambda>h. (version h, height h, parent h, timestamp_ms h, bits h, nonce h, hdr_tx_root h, hdr_witness_root h,
        state_root h, reflect_root h, coinbase h, hdr_sig_algo h, hdr_hash_algo h))
     (\<lambda>(a, b, c, d, e, f, g, h, i, j, k, l, m). \<lparr> version = a, height = b, parent = c, timestamp_ms = d, bits = e,
        nonce = f, hdr_tx_root = g, hdr_witness_root = h, state_root = i, reflect_root = j, coinbase = k,
        hdr_sig_algo = l, hdr_hash_algo = m \<rparr>)
     (w_pair w_word (w_pair w_word (w_pair w_bytes (w_pair w_word (w_pair w_word (w_pair w_word (w_pair w_bytes
        (w_pair w_bytes (w_pair w_bytes (w_pair w_bytes (w_pair w_bytes (w_pair w_word w_word))))))))))))"

definition w_block :: "block wire" where
  "w_block = w_iso (\<lambda>b. (header b, txs (body b), witnesses (body b)))
     (\<lambda>(h, t, w). \<lparr> header = h, body = \<lparr> txs = t, witnesses = w \<rparr> \<rparr>)
     (w_pair w_header (w_pair (w_list w_tx) (w_list w_witness)))"

lemma wire_call: "wire_ok w_call"
  unfolding w_call_def by (rule wire_iso) simp_all

lemma wire_tx: "wire_ok w_tx"
  unfolding w_tx_def by (rule wire_iso) (simp_all add: wire_call)

lemma wire_witness: "wire_ok w_witness"
  unfolding w_witness_def by (rule wire_iso) simp_all

lemma wire_header: "wire_ok w_header"
  unfolding w_header_def by (rule wire_iso) simp_all

lemma wire_block: "wire_ok w_block"
  unfolding w_block_def by (rule wire_iso) (simp_all add: wire_tx wire_witness wire_header)

lemma length_w_bytes: "length (ser w_bytes b) = 2 * length b + 1"
proof -
  have "length (concat (map (ser (w_word :: u8 wire)) b)) = length b"
    by (induction b) (simp_all add: w_word_def)
  then show ?thesis by (simp add: w_list_def w_nat_def)
qed

lemma length_w_header:
  assumes "header_wf h"
  shows "length (ser w_header h) = 424"
  using assms by (simp add: w_header_def w_iso_def w_pair_def length_w_bytes header_wf_def) (simp add: w_word_def)

lemma length_w_block:
  assumes "header_wf (header b)" "txs (body b) = []" "witnesses (body b) = []"
  shows "length (ser w_block b) = 426"
  using length_w_header [OF assms(1)] assms(2,3) by (simp add: w_block_def w_iso_def w_pair_def w_list_def w_nat_def)

end
