(* ===== verification/Instance.thy ===== *)
theory Instance
  imports State_Rules Wire
begin

text \<open>
  A concrete instance of the external code, on which the hypotheses of the theorems are
  evaluated: digests that copy a prefix of their input (after four zero bytes for the header
  hash, so that a proof of work exists), a signature scheme that accepts every
  signature of the right size, and the encoding of \<open>Wire\<close> for the stored records. It shows that the hypotheses
  can hold together; nothing is claimed about it as cryptography.
\<close>

section \<open>External code\<close>

definition demo_hash :: hash_ext where
  "demo_hash = \<lparr> blake3 = (\<lambda>bs. take 32 (bs @ replicate 32 0)), blake3_xof64 = (\<lambda>bs. replicate 4 0 @ take 60 (bs @ replicate 60 0)),
     shake256_64 = (\<lambda>bs. take 64 (bs @ replicate 64 0)), sha3_512 = (\<lambda>bs. take 64 (bs @ replicate 64 0)),
     bech32m_encode = (\<lambda>hrp d. if hrp = ''pyg'' then Some (map (\<lambda>b. char_of (unat b)) d) else None),
     bech32_decode = (\<lambda>s. Inr (''pyg'', map (\<lambda>c. of_nat (of_char c)) s)) \<rparr>"

lemma demo_hash_ok: "hash_ok demo_hash"
  by (auto simp: hash_ok_def demo_hash_def min_def)

lemma demo_bech32_ok: "bech32_ok demo_hash"
proof -
  have "map ((\<lambda>c. of_nat (of_char c) :: u8) \<circ> (\<lambda>b. char_of (unat b))) data = data" for data
    using byte_lt by (intro map_idI) simp
  then show ?thesis by (auto simp: bech32_ok_def demo_hash_def split: if_splits)
qed

definition demo_scheme :: "nat \<Rightarrow> nat \<Rightarrow> scheme" where
  "demo_scheme pk_len sig_len = \<lparr> sk_ok = (\<lambda>_. True), pk_ok = (\<lambda>_. True), sig_ok = (\<lambda>_. True),
     raw_sign = (\<lambda>_ _ _. Some (replicate sig_len 0)), raw_verify = (\<lambda>_ _ _. True),
     raw_pk = (\<lambda>_. replicate pk_len 0) \<rparr>"

definition demo_crypto :: crypto_ext where
  "demo_crypto = \<lparr> bld = \<lparr> feat_fips = False, feat_ed25519 = True, feat_falcon = True, feat_slhdsa = True, feat_bls = True \<rparr>,
     ed = demo_scheme 32 ED_SIG_LEN, falcon = demo_scheme FALCON512_VK_LEN FALCON512_SIG_LEN,
     slh = demo_scheme SLHDSA128S_VK_LEN SLHDSA128S_SIG_LEN, bls = demo_scheme BLS_VK_LEN BLS_SIG_LEN,
     bls_agg_sigs = (\<lambda>l. Some (hd l)), bls_agg_pks = (\<lambda>l. Some (hd l)),
     ed_generate = (\<lambda>rng. take ED_SK_LEN (rng @ replicate ED_SK_LEN 0)),
     falcon_keygen = (\<lambda>rng. (replicate FALCON512_SK_LEN 1, replicate FALCON512_VK_LEN 0)),
     slh_keygen = (\<lambda>rng. Some (replicate SLHDSA128S_VK_LEN 0, replicate SLHDSA128S_SK_LEN 1)),
     bls_key_gen = (\<lambda>ikm. Some (replicate BLS_SK_LEN 1)) \<rparr>"

lemma demo_keygen_ok: "keygen_ok demo_crypto"
  by (auto simp: keygen_ok_def key_of_def demo_crypto_def demo_scheme_def)

lemma demo_crypto_ok: "crypto_ok demo_crypto"
  by (simp add: crypto_ok_def demo_crypto_def scheme_correct_def demo_scheme_def)

definition demo_ext :: ext where
  "demo_ext = \<lparr> hx = demo_hash, cx = demo_crypto, kx = wire_cbor \<rparr>"

lemma demo_account_codec_ok: "account_codec_ok (kx demo_ext)"
  by (simp add: demo_ext_def wire_cbor_ok)

section \<open>A transfer\<close>

definition alice_pk :: bytes where "alice_pk = replicate 32 1"
definition alice :: account_id where "alice = from_pubkey demo_hash alice_pk"
definition bob :: account_id where "bob = replicate 20 7"
definition carol :: account_id where "carol = replicate 20 9"

definition demo_witness :: witness where
  "demo_witness = \<lparr> wit_sig_algo = 3, wit_sig = replicate 64 0, wit_pubkey = Inline alice_pk \<rparr>"

definition demo_tx :: "u64 \<Rightarrow> u128 \<Rightarrow> tx_body" where
  "demo_tx n amount = \<lparr> tx_nonce = n, from_account = alice, call = Transfer bob amount, fee_sat = 1,
     gas_limit = 0, witness_hash = witness_digest demo_hash demo_witness \<rparr>"

definition demo_header :: block_header where
  "demo_header = \<lparr> version = 1, height = 1, parent = replicate 32 0, timestamp_ms = 1000, bits = 0x1f00ffff,
     nonce = 0, hdr_tx_root = replicate 32 0, hdr_witness_root = replicate 32 0, state_root = replicate 32 0,
     reflect_root = replicate 32 0, coinbase = pad_to_32 carol, hdr_sig_algo = 3, hdr_hash_algo = 1 \<rparr>"

definition demo_block :: block where
  "demo_block = \<lparr> header = demo_header, body = \<lparr> txs = [demo_tx 0 10], witnesses = [demo_witness] \<rparr> \<rparr>"

definition demo_block2 :: block where
  "demo_block2 = \<lparr> header = demo_header,
     body = \<lparr> txs = [demo_tx 0 10, demo_tx 0 20], witnesses = [demo_witness, demo_witness] \<rparr> \<rparr>"

definition demo_store :: mem_state where
  "demo_store = save (mem_ops demo_hash) demo_ext mem_new alice (default_account\<lparr>balance := 100\<rparr>)"


lemma demo_fields [simp]:
  "hx demo_ext = demo_hash" "cx demo_ext = demo_crypto" "kx demo_ext = wire_cbor"
  by (simp_all add: demo_ext_def)

lemma demo_store_inv: "mem_inv demo_store"
  unfolding demo_store_def by (rule mem.inv_save) simp

lemma demo_load:
  "load_or_default (mem_ops demo_hash) demo_ext demo_store =
     (\<lambda>_. default_account)(alice := default_account\<lparr>balance := 100\<rparr>)"
proof -
  have "load_or_default (mem_ops demo_hash) demo_ext mem_new = (\<lambda>_. default_account)"
    by (simp add: fun_eq_iff load_or_default_def load_def mem_ops_def mem_get_def mem_new_def bt_get_def)
  then show ?thesis
    using mem.load_or_default_save [OF demo_account_codec_ok mem_inv_new] by (simp add: demo_store_def)
qed

lemma demo_verify: "verify demo_crypto 3 alice_pk (replicate 64 0) msg = Inr ()"
  by (simp add: verify_def ed25519_verify_def demo_crypto_def demo_scheme_def alice_pk_def ED_SIG_LEN_def)

lemma demo_names: "alice \<noteq> bob" "alice \<noteq> carol" "bob \<noteq> carol"
proof -
  have "alice ! 0 = 80" "bob ! 0 = 7" "carol ! 0 = 9"
    by (simp_all add: alice_def bob_def carol_def from_pubkey_def demo_hash_def ACCOUNT_ID_LEN_def
        ACCOUNT_DERIVE_TAG_def str_bytes_def)
  then show "alice \<noteq> bob" "alice \<noteq> carol" "bob \<noteq> carol" by auto
qed

lemma length_demo_ids: "length alice = 20" "length bob = 20" "length carol = 20"
  by (simp_all add: alice_def bob_def carol_def length_from_pubkey demo_hash_ok)

definition demo_staged :: "nat \<Rightarrow> u128 \<Rightarrow> staged_tx" where
  "demo_staged i amount = \<lparr> stx_idx = i, stx_from_account = alice, stx_expected_nonce = 0, stx_to = bob,
     stx_amount = amount, stx_fee_sat = 1, stx_pubkey_bytes = alice_pk, stx_sig_algo = 3 \<rparr>"

lemma demo_validate_tx:
  assumes "unat amount < 99"
  shows "validate_tx (mem_ops demo_hash) demo_ext i demo_store (demo_tx 0 amount) demo_witness = Inr (demo_staged i amount)"
proof -
  have "unat (ucast (1 :: u64) :: u128) = 1" by simp
  then have "checked_add amount (ucast (1 :: u64)) = Some (amount + 1)"
    using assms by (simp add: checked_add_def)
  moreover have "\<not> 100 < amount + 1" using assms by (simp add: word_less_nat_alt unat_word_ariths)
  ultimately show ?thesis
    by (simp add: validate_tx_def witness_pubkey_def demo_tx_def demo_witness_def demo_verify demo_load
        default_account_def alice_def [symmetric] demo_staged_def Let_def)
qed

lemma demo_block_validates:
  "validate_all (mem_ops demo_hash) demo_ext demo_store (witnesses (body demo_block)) 0 (txs (body demo_block)) 0 =
     Inr (1, [demo_staged 0 10])"
  by (simp add: demo_block_def demo_validate_tx) (simp add: demo_tx_def demo_staged_def checked_add_def)

lemma demo_coinbase: "from_coinbase (coinbase demo_header) = carol"
  by (simp add: demo_header_def from_coinbase_pad carol_def)

lemma demo_block_accepted:
  "\<exists>out s'. apply_block (mem_ops demo_hash) demo_ext demo_store demo_block 50 = (Inr out, s')"
proof -
  let ?ops = "mem_ops demo_hash"
  have ok: "transfer_ok (load_or_default ?ops demo_ext demo_store) (demo_staged 0 10)"
    by (simp add: transfer_ok_def required_def demo_staged_def demo_load default_account_def)
  obtain s1 where s1: "apply_staged ?ops demo_ext demo_store (demo_staged 0 10) = Inr s1"
    using apply_staged_ok [OF ok] by blast
  note l1 = mem.apply_staged_ledger [OF demo_account_codec_ok demo_store_inv s1]
  have "load_or_default ?ops demo_ext s1 carol = default_account"
    using l1 demo_names by (simp add: transfer_def Let_def demo_staged_def demo_load)
  then have "\<exists>r. pay_coinbase ?ops demo_ext demo_header 50 1 s1 = Inr r"
    by (simp add: pay_coinbase_def Let_def demo_coinbase checked_add_def default_account_def)
  then show ?thesis
    using s1
    by (auto simp: apply_block_alt demo_block_validates finish_block_def wire_cbor_def wire_codec_def Let_def split_beta)
      (auto simp: demo_block_def demo_tx_def finish_block_def wire_cbor_def wire_codec_def Let_def split_beta)
qed

lemma demo_projections:
  "witness_hash (demo_tx n a) = witness_digest demo_hash demo_witness" "stx_fee_sat (demo_staged i a) = 1"
  by (simp_all add: demo_tx_def demo_staged_def)

lemma demo_block2_validates:
  "validate_all (mem_ops demo_hash) demo_ext demo_store (witnesses (body demo_block2)) 0 (txs (body demo_block2)) 0 =
     Inr (2, [demo_staged 0 10, demo_staged 1 20])"
  by (simp add: demo_block2_def demo_validate_tx demo_projections checked_add_def)

lemma demo_block2_rejected:
  "\<exists>s'. apply_block (mem_ops demo_hash) demo_ext demo_store demo_block2 50 = (Inl (NonceMismatch 1 1 0), s') \<and>
     balance (load_or_default (mem_ops demo_hash) demo_ext s' alice) = 89 \<and>
     balance (load_or_default (mem_ops demo_hash) demo_ext s' bob) = 10"
proof -
  let ?ops = "mem_ops demo_hash"
  have ok: "transfer_ok (load_or_default ?ops demo_ext demo_store) (demo_staged 0 10)"
    by (simp add: transfer_ok_def required_def demo_staged_def demo_load default_account_def)
  obtain s1 where s1: "apply_staged ?ops demo_ext demo_store (demo_staged 0 10) = Inr s1"
    using apply_staged_ok [OF ok] by blast
  note l1 = mem.apply_staged_ledger [OF demo_account_codec_ok demo_store_inv s1]
  have l: "load_or_default ?ops demo_ext s1 alice = debit (default_account\<lparr>balance := 100\<rparr>) (demo_staged 0 10) 11"
    "load_or_default ?ops demo_ext s1 bob = default_account\<lparr>balance := 10\<rparr>"
    using l1 demo_names
    by (simp_all add: transfer_def Let_def demo_staged_def demo_load default_account_def sat_add_def)
  have "apply_staged ?ops demo_ext s1 (demo_staged 1 20) = Inl (NonceMismatch 1 1 0)"
    by (simp add: apply_staged_def demo_staged_def Let_def l default_account_def sat_add_def)
  then show ?thesis
    using s1 l by (simp add: apply_block_alt demo_block2_validates default_account_def)
qed

end
