(* ===== verification/Consensus_Asert.thy ===== *)
theory Consensus_Asert
  imports Consensus_Pow "HOL-Library.Signed_Division"
begin

text \<open>
  Per-block difficulty: \<open>crates/consensus/src/asert.rs\<close>. Signed 128-bit quantities are
  integers; \<open>wrap_i128\<close> is the two's-complement wrap of the plain operators and \<open>sat_i128\<close> the
  saturation of \<open>saturating_mul\<close>. \<open>None\<close> stands for the panic of \<open>clamp\<close> on an empty interval.

  The lemmas give the behaviour of one retarget (the 8\% band, its direction) and the invariant
  \<open>bits_ok\<close>, under which no retarget panics and which every retarget keeps.
\<close>

unbundle bit_operations_syntax

section \<open>Definitions\<close>

definition wrap_i128 :: "int \<Rightarrow> int" where
  "wrap_i128 x = signed_take_bit 127 x"

definition sat_i128 :: "int \<Rightarrow> int" where
  "sat_i128 x = max (- (2 ^ 127)) (min (2 ^ 127 - 1) x)"

definition MAX_BITS_MULT_NUMERATOR :: u128 where
  "MAX_BITS_MULT_NUMERATOR = 108"

definition MAX_BITS_MULT_DENOMINATOR :: u128 where
  "MAX_BITS_MULT_DENOMINATOR = 100"

definition pow2_q16 :: "int \<Rightarrow> int \<Rightarrow> int" where
  "pow2_q16 num den =
     (let x_q16 = sat_i128 (num * 2 ^ 16) sdiv max den 1;
          delta_q16 = drop_bit 16 (sat_i128 (x_q16 * 45426)) in
      2 ^ 16 + delta_q16)"

definition scaled_hi :: "u128 \<Rightarrow> int \<Rightarrow> u128" where
  "scaled_hi hi mult_q16 =
     (if mult_q16 < 0 then 0 else max (drop_bit 16 (sat_mul hi (of_int mult_q16))) 1)"

definition clamp_hi :: "u128 \<Rightarrow> u128 \<Rightarrow> u128 option" where
  "clamp_hi hi raw_new_hi =
     (let max_hi = sat_mul hi MAX_BITS_MULT_NUMERATOR div MAX_BITS_MULT_DENOMINATOR;
          min_hi = sat_mul hi MAX_BITS_MULT_DENOMINATOR div MAX_BITS_MULT_NUMERATOR in
      clamp_word raw_new_hi (max min_hi 1) max_hi)"

definition asert_target :: "u32 \<Rightarrow> u64 \<Rightarrow> u64 \<Rightarrow> u64 \<Rightarrow> u64 \<Rightarrow> u64 \<Rightarrow> u64 \<Rightarrow> bytes option" where
  "asert_target anchor_bits anchor_timestamp_ms anchor_height new_block_timestamp_ms
     new_block_height target_block_time_ms tau_ms =
     (if new_block_height \<le> anchor_height \<or> tau_ms = 0 then Some (target_from_bits anchor_bits)
      else
        let height_diff = uint (new_block_height - anchor_height);
            elapsed_ms = uint new_block_timestamp_ms - uint anchor_timestamp_ms;
            expected_elapsed_ms = wrap_i128 (height_diff * uint target_block_time_ms);
            exponent_num_ms = wrap_i128 (elapsed_ms - expected_elapsed_ms);
            mult_q16 = pow2_q16 exponent_num_ms (uint tau_ms);
            anchor = target_from_bits anchor_bits;
            hi = from_be (take 16 anchor);
            raw_new_hi = scaled_hi hi mult_q16 in
        case clamp_hi hi raw_new_hi of
          None \<Rightarrow> None
        | Some clamped_hi \<Rightarrow> Some (to_be clamped_hi @ drop 16 anchor))"

definition next_bits_from_parent ::
    "u32 \<Rightarrow> u64 \<Rightarrow> u64 \<Rightarrow> u64 \<Rightarrow> u64 \<Rightarrow> u64 \<Rightarrow> u64 \<Rightarrow> u64 \<Rightarrow> u32 option" where
  "next_bits_from_parent parent_bits parent_height parent_timestamp_ms new_block_timestamp_ms
     target_block_time_ms bootstrap_height bootstrap_asert_tau_ms asert_tau_ms =
     (let new_height = parent_height + 1;
          tau_ms = (if new_height < bootstrap_height then bootstrap_asert_tau_ms else asert_tau_ms) in
      map_option bits_from_target
        (asert_target parent_bits parent_timestamp_ms parent_height new_block_timestamp_ms
           new_height target_block_time_ms tau_ms))"

section \<open>The multiplier\<close>

lemma sdiv_pos_bounds:
  fixes a b :: int
  assumes "0 < b"
  shows "0 \<le> a \<Longrightarrow> 0 \<le> a sdiv b" and "a \<le> 0 \<Longrightarrow> a sdiv b \<le> 0"
  using assms by (auto simp: signed_divide_int_def sgn_if pos_imp_zdiv_nonneg_iff)

lemma sat_i128_sign:
  "0 \<le> x \<Longrightarrow> 0 \<le> sat_i128 x" "x \<le> 0 \<Longrightarrow> sat_i128 x \<le> 0"
  by (simp_all add: sat_i128_def)

lemma pow2_q16_direction:
  "0 \<le> num \<Longrightarrow> 2 ^ 16 \<le> pow2_q16 num den" "num \<le> 0 \<Longrightarrow> pow2_q16 num den \<le> 2 ^ 16"
proof -
  define x where "x = sat_i128 (num * 2 ^ 16) sdiv max den 1"
  have p: "pow2_q16 num den = 2 ^ 16 + drop_bit 16 (sat_i128 (x * 45426))"
    by (simp add: pow2_q16_def x_def Let_def)
  show "2 ^ 16 \<le> pow2_q16 num den" if "0 \<le> num"
  proof -
    have "0 \<le> x" unfolding x_def using that by (intro sdiv_pos_bounds sat_i128_sign) auto
    then have "0 \<le> sat_i128 (x * 45426)" by (intro sat_i128_sign) simp
    then show ?thesis by (simp add: p)
  qed
  show "pow2_q16 num den \<le> 2 ^ 16" if "num \<le> 0"
  proof -
    have "x \<le> 0" unfolding x_def using that by (intro sdiv_pos_bounds sat_i128_sign) auto
    then have "sat_i128 (x * 45426) \<le> 0" by (intro sat_i128_sign) simp
    then show ?thesis by (simp add: p drop_bit_eq_div)
  qed
qed

lemma pow2_q16_upper: "pow2_q16 num den < 2 ^ 128"
proof -
  have d: "drop_bit 16 (sat_i128 y) \<le> 2 ^ 127 - 1" for y
  proof -
    have "sat_i128 y div 2 ^ 16 \<le> (2 ^ 127 - 1) div 2 ^ 16"
      by (rule zdiv_mono1) (simp_all add: sat_i128_def)
    then show ?thesis by (simp add: drop_bit_eq_div)
  qed
  show ?thesis
    using d [of "sat_i128 (num * 2 ^ 16) sdiv max den 1 * 45426"] by (simp add: pow2_q16_def Let_def)
qed

section \<open>One retarget\<close>

lemma scaled_hi_bounds:
  assumes "unat hi < 2 ^ 112" "0 < unat hi" "m < 2 ^ 128"
  shows "unat (scaled_hi hi m) < 2 ^ 112"
    and "2 ^ 16 \<le> m \<Longrightarrow> unat hi \<le> unat (scaled_hi hi m)"
    and "m \<le> 2 ^ 16 \<Longrightarrow> unat (scaled_hi hi m) \<le> unat hi"
proof -
  have v: "unat (scaled_hi hi m) =
      (if m < 0 then 0 else max (min (unat hi * nat m) (2 ^ 128 - 1) div 2 ^ 16) 1)"
    using assms(3) by (simp add: scaled_hi_def word_nat unsigned_of_int take_bit_eq_mod)
  have "min (unat hi * nat m) (2 ^ 128 - 1) div 2 ^ 16 \<le> (2 ^ 128 - 1) div 2 ^ (16::nat)"
    by (rule div_le_mono) simp
  then show "unat (scaled_hi hi m) < 2 ^ 112" unfolding v by simp
  show "unat hi \<le> unat (scaled_hi hi m)" if "2 ^ 16 \<le> m"
  proof -
    have "(2::nat) ^ 16 \<le> nat m" using that by simp
    then have "unat hi * 2 ^ 16 \<le> unat hi * nat m" by (rule mult_le_mono2)
    then have "unat hi * 2 ^ 16 \<le> min (unat hi * nat m) (2 ^ 128 - 1)" using assms(1) by simp
    then have "unat hi * 2 ^ 16 div 2 ^ 16 \<le> min (unat hi * nat m) (2 ^ 128 - 1) div 2 ^ 16"
      by (rule div_le_mono)
    then show ?thesis using that unfolding v by simp
  qed
  show "unat (scaled_hi hi m) \<le> unat hi" if "m \<le> 2 ^ 16"
  proof -
    have "nat m \<le> 2 ^ 16" using that by simp
    then have "unat hi * nat m \<le> unat hi * 2 ^ 16" by (rule mult_le_mono2)
    then have "min (unat hi * nat m) (2 ^ 128 - 1) div 2 ^ 16 \<le> unat hi * 2 ^ 16 div 2 ^ 16"
      by (intro div_le_mono min.coboundedI1)
    then show ?thesis using assms(2) unfolding v by simp
  qed
qed

lemma clamp_hi_defined:
  assumes "unat hi < 2 ^ 112" "0 < unat hi"
  obtains c where "clamp_hi hi raw = Some c"
    and "unat c = max (max (unat hi * 100 div 108) 1) (min (unat hi * 108 div 100) (unat raw))"
proof -
  define mx mn where m: "mx = sat_mul hi MAX_BITS_MULT_NUMERATOR div MAX_BITS_MULT_DENOMINATOR"
    "mn = max (sat_mul hi MAX_BITS_MULT_DENOMINATOR div MAX_BITS_MULT_NUMERATOR) 1"
  have u: "unat mx = unat hi * 108 div 100" "unat mn = max (unat hi * 100 div 108) 1"
    using assms by (simp_all add: m word_nat MAX_BITS_MULT_NUMERATOR_def MAX_BITS_MULT_DENOMINATOR_def)
  have "mn \<le> mx" using assms(2) unfolding word_le_nat_alt u by linarith
  then obtain c where c: "clamp_word raw mn mx = Some c" by (auto simp: clamp_word_def)
  moreover have "clamp_hi hi raw = clamp_word raw mn mx" by (simp add: clamp_hi_def m Let_def)
  ultimately show thesis using that [of c] clamp_word_SomeD(3) [OF c] by (simp add: u)
qed


section \<open>The invariant of the difficulty\<close>

text \<open>
  The upper half of a target as a number, the part \<open>asert_target\<close> scales. A target is in range
  when that half is positive (otherwise \<open>clamp\<close> panics) and below \<open>2 ^ 112\<close> (where the saturating
  product with the multiplier still exceeds it).
\<close>

definition hi_nat :: "bytes \<Rightarrow> nat" where
  "hi_nat t = be_nat (take 16 t)"

definition bits_ok :: "u32 \<Rightarrow> bool" where
  "bits_ok bts \<longleftrightarrow> 0 < hi_nat (target_from_bits bts) \<and> hi_nat (target_from_bits bts) < 2 ^ 112"

lemma length_place_bytes [simp]: "length (place_bytes off bs t) = length t"
proof -
  have "length (fold (\<lambda>(i, b) t. let idx = off + i in if idx < 32 then t[idx := b] else t) xs t) = length t"
    for xs :: "(nat \<times> u8) list" by (induction xs arbitrary: t) (auto simp: Let_def)
  then show ?thesis by (simp add: place_bytes_def)
qed

lemma length_target_from_bits [simp]: "length (target_from_bits b) = 32"
  by (simp add: target_from_bits_def Let_def)

lemma hi_nat_from_be: "unat (from_be (take 16 t) :: u128) = hi_nat t"
  unfolding hi_nat_def by (rule be_nat_from_be) simp

lemma hi_nat_to_be [simp]: "hi_nat (to_be (c :: u128) @ r) = unat c"
  by (simp add: hi_nat_def be_nat_to_be)

lemma wrap_i128_id: "- (2 ^ 127) \<le> x \<Longrightarrow> x < 2 ^ 127 \<Longrightarrow> wrap_i128 x = x"
  by (simp add: wrap_i128_def signed_take_bit_int_eq_self_iff)

lemma wrap_i128_u64:
  "\<bar>x\<bar> < 2 ^ 64 \<Longrightarrow> \<bar>y\<bar> < 2 ^ 64 \<Longrightarrow> \<bar>z\<bar> < 2 ^ 64 \<Longrightarrow> wrap_i128 (x - y - z) = x - y - z"
  by (rule wrap_i128_id) simp_all

definition drift_ms :: "u64 \<Rightarrow> u64 \<Rightarrow> u64 \<Rightarrow> int" where
  "drift_ms parent_ts block_ts block_time =
     uint block_ts - uint parent_ts - uint block_time"

lemma asert_target_child:
  assumes ok: "bits_ok b" and ht: "unat h + 1 < 2 ^ 64" and tau: "tau \<noteq> 0"
  defines "hi \<equiv> hi_nat (target_from_bits b)"
  obtains c :: u128 where "asert_target b pts h nts (h + 1) tb tau = Some (to_be c @ drop 16 (target_from_bits b))"
    and "unat c < 2 ^ 112" "max (hi * 100 div 108) 1 \<le> unat c" "unat c \<le> hi * 108 div 100"
    and "0 \<le> drift_ms pts nts tb \<Longrightarrow> hi \<le> unat c"
    and "drift_ms pts nts tb \<le> 0 \<Longrightarrow> unat c \<le> hi"
proof -
  define w :: u128 where "w = from_be (take 16 (target_from_bits b))"
  have w: "unat w = hi" unfolding w_def hi_def by (rule hi_nat_from_be)
  have hi: "unat w < 2 ^ 112" "0 < unat w" using ok by (simp_all add: w hi_def bits_ok_def)
  define m where "m = pow2_q16 (drift_ms pts nts tb) (uint tau)"
  have m: "m < 2 ^ 128" unfolding m_def by (rule pow2_q16_upper)
  obtain c where c: "clamp_hi w (scaled_hi w m) = Some c"
    and cv: "unat c = max (max (unat w * 100 div 108) 1) (min (unat w * 108 div 100) (unat (scaled_hi w m)))"
    using clamp_hi_defined [OF hi] .
  have b: "0 \<le> uint x \<and> uint x < 2 ^ 64" for x :: u64 using unsigned_less [of x] by simp
  have "wrap_i128 (uint tb) = uint tb" using wrap_i128_u64 [of 0 0 "- uint tb"] b [of tb] by simp
  moreover have "wrap_i128 (uint nts - uint pts - uint tb) = drift_ms pts nts tb"
    unfolding drift_ms_def using b by (intro wrap_i128_u64) auto
  moreover have "\<not> h + 1 \<le> h" using ht by (simp add: word_le_nat_alt unat_word_ariths)
  ultimately have "asert_target b pts h nts (h + 1) tb tau = Some (to_be c @ drop 16 (target_from_bits b))"
    using tau c by (simp add: asert_target_def Let_def w_def [symmetric] m_def)
  moreover have "unat c < 2 ^ 112" using cv hi scaled_hi_bounds(1) [OF hi m] by auto
  moreover have "max (hi * 100 div 108) 1 \<le> unat c" by (simp add: cv w)
  moreover have "unat c \<le> hi * 108 div 100" using hi(2) unfolding cv w by auto
  moreover have "0 \<le> drift_ms pts nts tb \<Longrightarrow> hi \<le> unat c"
    using pow2_q16_direction(1) [of "drift_ms pts nts tb"] scaled_hi_bounds(2) [OF hi m]
    unfolding cv m_def w by auto
  moreover have "drift_ms pts nts tb \<le> 0 \<Longrightarrow> unat c \<le> hi"
    using pow2_q16_direction(2) [of "drift_ms pts nts tb"] scaled_hi_bounds(3) [OF hi m] hi(2)
    unfolding cv m_def w by auto
  ultimately show thesis using that by blast
qed


lemma hi_nat_split:
  assumes "length t = 32"
  shows "be_nat t = hi_nat t * 2 ^ 128 + be_nat (drop 16 t)" "be_nat (drop 16 t) < 2 ^ 128"
proof -
  show "be_nat t = hi_nat t * 2 ^ 128 + be_nat (drop 16 t)"
    using be_nat_append [of "take 16 t" "drop 16 t"] assms by (simp add: hi_nat_def)
  show "be_nat (drop 16 t) < 2 ^ 128" using be_nat_bound [of "drop 16 t"] assms by simp
qed

lemma hi_nat_div: "length t = 32 \<Longrightarrow> be_nat t div 2 ^ 128 = hi_nat t"
  using hi_nat_split [of t] by simp

lemma be_nat_pos: "x \<in> set xs \<Longrightarrow> x \<noteq> 0 \<Longrightarrow> 0 < be_nat xs"
  by (induction xs) (auto simp: be_nat_Cons unat_gt_0)

text \<open>An in-range target has between one and fifteen leading zero bytes.\<close>

lemma in_range_split:
  assumes len: "length t = 32" and hi: "0 < hi_nat t" "hi_nat t < 2 ^ 112"
  obtains z a rest where "t = replicate z 0 @ a # rest" "a \<noteq> 0" "0 < z" "z < 16"
proof -
  have "be_nat t \<noteq> 0" using hi_nat_split(1) [OF len] hi(1) by simp
  from leading_byte_split [OF len this]
  obtain z a rest where t: "t = replicate z 0 @ a # rest" and a: "a \<noteq> 0" .
  have "z < 16" using hi(1) t be_nat_replicate_0 [of 16] by (cases "z < 16") (auto simp: hi_nat_def)
  moreover have "0 < z"
  proof (rule ccontr)
    assume "\<not> 0 < z"
    then have "1 * 2 ^ 120 \<le> hi_nat t" using a len
      by (simp add: t hi_nat_def be_nat_Cons trans_le_add1 unat_gt_0 Suc_le_eq)
    with hi(2) show False by simp
  qed
  ultimately show thesis using that t a by blast
qed

text \<open>Going through the compact encoding keeps an in-range target in range.\<close>

lemma compact_keeps_range:
  assumes len: "length t = 32" and hi: "0 < hi_nat t" "hi_nat t < 2 ^ 112"
  shows "bits_ok (bits_from_target t)"
    and "be_nat (target_from_bits (bits_from_target t)) \<le> be_nat t"
    and "bits_from_target (target_from_bits (bits_from_target t)) = bits_from_target t"
proof -
  note s = hi_nat_split [OF len]
  define t' where "t' = target_from_bits (bits_from_target t)"
  have len': "length t' = 32" by (simp add: t'_def)
  have lt: "be_nat t < 2 ^ 255" and nz: "be_nat t \<noteq> 0" using s hi by simp_all
  have le: "be_nat t' \<le> be_nat t" using compact_close [OF len nz lt] by (simp add: t'_def)
  then have "be_nat t' < (2 ^ 112) * 2 ^ 128" using s hi(2) by simp
  then have hi': "hi_nat t' < 2 ^ 112" using hi_nat_split(1) [OF len'] by simp
  obtain z a rest where t: "t = replicate z 0 @ a # rest" and a: "a \<noteq> 0" and z: "0 < z" "z < 16"
    using in_range_split [OF len hi] .
  define n where "n = min 32 (z + (if 0x80 \<le> a then 2 else 3))"
  have "t' = take n t @ replicate (32 - n) 0"
    unfolding t'_def n_def using z by (intro compact_truncates [OF t len a]) simp
  then have "take 16 t' ! z = a" using z by (simp add: n_def t nth_append)
  moreover have "z < length (take 16 t')" using z len' by simp
  ultimately have "a \<in> set (take 16 t')" using nth_mem by blast
  then have "0 < hi_nat t'" unfolding hi_nat_def using a by (rule be_nat_pos)
  with hi' show "bits_ok (bits_from_target t)" by (simp add: bits_ok_def t'_def)
  from le show "be_nat (target_from_bits (bits_from_target t)) \<le> be_nat t" by (simp add: t'_def)
  show "bits_from_target (target_from_bits (bits_from_target t)) = bits_from_target t"
    using z by (intro bits_from_target_stable [OF t len a]) simp_all
qed

text \<open>Compact bits that survive decoding and encoding: every value this chain stores is one.\<close>

definition bits_canonical :: "u32 \<Rightarrow> bool" where
  "bits_canonical b \<longleftrightarrow> bits_from_target (target_from_bits b) = b"

section \<open>The next block's bits\<close>

definition tau_for :: "u64 \<Rightarrow> u64 \<Rightarrow> u64 \<Rightarrow> u64 \<Rightarrow> u64" where
  "tau_for h bootstrap btau tau = (if h + 1 < bootstrap then btau else tau)"

lemma next_bits_alt:
  "next_bits_from_parent b h pts nts tb bh btau tau =
     map_option bits_from_target (asert_target b pts h nts (h + 1) tb (tau_for h bh btau tau))"
  by (simp add: next_bits_from_parent_def tau_for_def Let_def)

lemma next_bits_ok:
  assumes ok: "bits_ok b"
  obtains b' where "next_bits_from_parent b h pts nts tb bh btau tau = Some b'" "bits_ok b'" "bits_canonical b'"
proof -
  define tau' where "tau' = tau_for h bh btau tau"
  have "\<exists>out. asert_target b pts h nts (h + 1) tb tau' = Some out \<and> length out = 32 \<and>
      0 < hi_nat out \<and> hi_nat out < 2 ^ 112"
  proof (cases "tau' = 0 \<or> h + 1 \<le> h")
    case True
    then show ?thesis using ok by (auto simp: asert_target_def bits_ok_def)
  next
    case False
    then have "1 + h \<noteq> 0" by (auto simp: add.commute)
    then have "unat (1 + h) = Suc (unat h)" by (rule unatSuc)
    moreover have "unat (1 + h) < 2 ^ LENGTH(64)" by (rule unsigned_less)
    ultimately have "unat h + 1 < 2 ^ 64" by simp
    with False obtain c :: u128 where
      "asert_target b pts h nts (h + 1) tb tau' = Some (to_be c @ drop 16 (target_from_bits b))"
      "unat c < 2 ^ 112" "max (hi_nat (target_from_bits b) * 100 div 108) 1 \<le> unat c"
      using asert_target_child [OF ok] by metis
    then show ?thesis by auto
  qed
  then obtain out where out: "asert_target b pts h nts (h + 1) tb tau' = Some out" "length out = 32"
    "0 < hi_nat out" "hi_nat out < 2 ^ 112" by blast
  then show thesis
    using compact_keeps_range [OF out(2-4)] that [of "bits_from_target out"]
    by (simp add: next_bits_alt tau'_def [symmetric] bits_canonical_def)
qed


lemma next_bits_band:
  assumes ok: "bits_ok b" and canon: "bits_canonical b" and ht: "unat h + 1 < 2 ^ 64"
    and tau: "tau_for h bh btau tau \<noteq> 0"
  obtains b' where "next_bits_from_parent b h pts nts tb bh btau tau = Some b'"
    and "hi_nat (target_from_bits b') \<le> hi_nat (target_from_bits b) * 108 div 100"
    and "hi_nat (target_from_bits b) * 100 div 108 * (2 ^ 15 - 1) \<le> (hi_nat (target_from_bits b') + 1) * 2 ^ 15"
    and "drift_ms pts nts tb \<le> 0 \<Longrightarrow> be_nat (target_from_bits b') \<le> be_nat (target_from_bits b)"
    and "drift_ms pts nts tb = 0 \<Longrightarrow> b' = b"
proof -
  define T where "T = target_from_bits b"
  have lT: "length T = 32" by (simp add: T_def)
  obtain c :: u128 where c:
    "asert_target b pts h nts (h + 1) tb (tau_for h bh btau tau) = Some (to_be c @ drop 16 T)"
    "unat c < 2 ^ 112" "max (hi_nat T * 100 div 108) 1 \<le> unat c" "unat c \<le> hi_nat T * 108 div 100"
    "0 \<le> drift_ms pts nts tb \<Longrightarrow> hi_nat T \<le> unat c" "drift_ms pts nts tb \<le> 0 \<Longrightarrow> unat c \<le> hi_nat T"
    unfolding T_def using asert_target_child [OF ok ht tau] by metis
  define out where "out = to_be c @ drop 16 T"
  have out: "length out = 32" "hi_nat out = unat c" "drop 16 out = drop 16 T"
    using lT by (simp_all add: out_def)
  define b' where "b' = bits_from_target out"
  define T' where "T' = target_from_bits b'"
  have lT': "length T' = 32" by (simp add: T'_def)
  note so = hi_nat_split [OF out(1)] and sT = hi_nat_split [OF lT] and sT' = hi_nat_split [OF lT']
  have rng: "0 < hi_nat out" "hi_nat out < 2 ^ 112" using c(2,3) out(2) by auto
  have T'le: "be_nat T' \<le> be_nat out"
    using compact_keeps_range(2) [OF out(1) rng] by (simp add: T'_def b'_def)
  have "(be_nat out - be_nat T') * 2 ^ 15 < be_nat out"
    using compact_close [OF out(1)] so rng by (simp add: T'_def b'_def)
  then have near: "be_nat out * (2 ^ 15 - 1) \<le> be_nat T' * 2 ^ 15"
    using T'le by (simp add: diff_mult_distrib diff_mult_distrib2)
  show thesis
  proof (rule that [of b'])
    show "next_bits_from_parent b h pts nts tb bh btau tau = Some b'"
      by (simp add: next_bits_alt c(1) b'_def out_def)
    have "hi_nat T' \<le> hi_nat out"
      using div_le_mono [OF T'le, of "2 ^ 128"] unfolding hi_nat_div [OF lT'] hi_nat_div [OF out(1)] .
    then show "hi_nat (target_from_bits b') \<le> hi_nat (target_from_bits b) * 108 div 100"
      using c(4) out(2) by (simp add: T_def T'_def)
    have "hi_nat out * (2 ^ 15 - 1) * 2 ^ 128 \<le> be_nat out * (2 ^ 15 - 1)"
      using so(1) by simp
    also note near
    also have "be_nat T' * 2 ^ 15 \<le> (hi_nat T' + 1) * 2 ^ 15 * 2 ^ 128" using sT' by simp
    finally have "hi_nat out * (2 ^ 15 - 1) \<le> (hi_nat T' + 1) * 2 ^ 15" by simp
    moreover have "hi_nat T * 100 div 108 * (2 ^ 15 - 1) \<le> hi_nat out * (2 ^ 15 - 1)"
      using c(3) out(2) by simp
    ultimately show "hi_nat (target_from_bits b) * 100 div 108 * (2 ^ 15 - 1) \<le>
        (hi_nat (target_from_bits b') + 1) * 2 ^ 15" by (simp add: T_def T'_def)
    show "be_nat (target_from_bits b') \<le> be_nat (target_from_bits b)" if "drift_ms pts nts tb \<le> 0"
      using T'le c(6) [OF that] so sT out by (simp add: T_def T'_def)
    show "b' = b" if "drift_ms pts nts tb = 0"
    proof -
      have "be_nat out = be_nat T" using c(5,6) that so sT out by simp
      then have "out = T" using be_nat_inj out(1) lT by metis
      then show ?thesis using canon by (simp add: b'_def T_def bits_canonical_def)
    qed
  qed
qed

end
