(* ===== verification/Consensus_Emission.thy ===== *)
theory Consensus_Emission
  imports Pg_Prelude
begin

text \<open>
  The emission schedule: \<open>crates/consensus/src/emission.rs\<close>. All amounts are \<open>u128\<close>, as in the
  source. \<open>None\<close> is the panic of \<open>clamp\<close>, which the lemmas show cannot happen.
\<close>

section \<open>Definitions\<close>

record emission_params =
  initial_reward_sat :: u128
  seconds_per_halving :: u64
  target_block_time_ms :: u64
  supply_cap_sat :: u128
  max_reward_pct_change_per_block :: u32
  bootstrap_height :: u64
  bootstrap_reward_pct :: u32

definition bitcoin_like :: emission_params where
  "bitcoin_like = \<lparr> initial_reward_sat = 5000000000, seconds_per_halving = 210000 * 600,
     target_block_time_ms = 600000, supply_cap_sat = 21000000 * 100000000,
     max_reward_pct_change_per_block = 25, bootstrap_height = 2016, bootstrap_reward_pct = 50 \<rparr>"

fun epoch_loop :: "nat \<Rightarrow> u128 \<Rightarrow> u128 \<Rightarrow> u128 \<Rightarrow> u128 \<times> u128" where
  "epoch_loop 0 bph cumulative current_reward = (cumulative, current_reward)"
| "epoch_loop (Suc n) bph cumulative current_reward =
     epoch_loop n bph (sat_add cumulative (sat_mul current_reward bph)) (drop_bit 1 current_reward)"

definition halving_ms :: "emission_params \<Rightarrow> u128" where
  "halving_ms p = ucast (seconds_per_halving p) * 1000"

definition scheduled_supply_at :: "u64 \<Rightarrow> emission_params \<Rightarrow> u128" where
  "scheduled_supply_at t_ms_since_genesis p =
     (if t_ms_since_genesis = 0 then 0
      else
        let t_h_ms = halving_ms p; target_ms = ucast (target_block_time_ms p) :: u128 in
        if t_h_ms = 0 \<or> target_ms = 0 then 0
        else
          let blocks_per_halving = t_h_ms div target_ms; t_ms = ucast t_ms_since_genesis :: u128;
              epoch_u128 = t_ms div t_h_ms in
          if epoch_u128 \<ge> 64 then supply_cap_sat p
          else
            let (cumulative, current_reward) =
                  epoch_loop (unat epoch_u128) blocks_per_halving 0 (initial_reward_sat p);
                elapsed_in_epoch = t_ms - epoch_u128 * t_h_ms;
                partial_blocks = sat_mul elapsed_in_epoch blocks_per_halving div t_h_ms;
                cumulative = sat_add cumulative (sat_mul current_reward partial_blocks) in
            min cumulative (supply_cap_sat p))"

definition epoch_reward_at :: "emission_params \<Rightarrow> u64 \<Rightarrow> u128" where
  "epoch_reward_at p t_ms =
     (let epoch_u128 = ucast t_ms div max (halving_ms p) 1 in
      if epoch_u128 \<ge> 64 then 0 else drop_bit (unat epoch_u128) (initial_reward_sat p))"

definition uncapped_reward :: "emission_params \<Rightarrow> u64 \<Rightarrow> u64 \<Rightarrow> u64 \<Rightarrow> u128 \<Rightarrow> u64 \<Rightarrow> u128" where
  "uncapped_reward p genesis_time_ms block_timestamp_ms parent_timestamp_ms minted_so_far_sat
     block_height =
     (let t_ms = block_timestamp_ms - genesis_time_ms;
          scheduled = scheduled_supply_at t_ms p;
          calendar_remaining = sat_sub scheduled minted_so_far_sat;
          epoch_reward = epoch_reward_at p t_ms;
          elapsed_ms = sat_sub block_timestamp_ms parent_timestamp_ms;
          elapsed_for_cap = ucast (max elapsed_ms 1);
          proportional_cap =
            sat_mul epoch_reward elapsed_for_cap div max (ucast (target_block_time_ms p)) 1;
          reward = min (min calendar_remaining epoch_reward) proportional_cap in
      if block_height < bootstrap_height p
      then min reward (sat_mul epoch_reward (ucast (bootstrap_reward_pct p)) div 100)
      else reward)"

definition current_reward_with_height ::
    "emission_params \<Rightarrow> u64 \<Rightarrow> u64 \<Rightarrow> u64 \<Rightarrow> u128 \<Rightarrow> u64 \<Rightarrow> u128 option \<Rightarrow> u128 option" where
  "current_reward_with_height p genesis_time_ms block_timestamp_ms parent_timestamp_ms
     minted_so_far_sat block_height prev_block_reward =
     (if block_timestamp_ms \<le> genesis_time_ms then Some 0
      else
        let reward = uncapped_reward p genesis_time_ms block_timestamp_ms parent_timestamp_ms
              minted_so_far_sat block_height in
        case prev_block_reward of
          None \<Rightarrow> Some reward
        | Some prev \<Rightarrow>
            if prev > 0 then
              let pct = ucast (max (max_reward_pct_change_per_block p) 1) :: u128;
                  max_up = sat_mul prev (100 + pct) div 100;
                  max_down = sat_mul prev (sat_sub 100 pct) div 100 in
              clamp_word reward max_down max_up
            else Some reward)"

definition current_reward ::
    "emission_params \<Rightarrow> u64 \<Rightarrow> u64 \<Rightarrow> u64 \<Rightarrow> u128 \<Rightarrow> u128 option" where
  "current_reward p genesis_time_ms block_timestamp_ms parent_timestamp_ms minted_so_far_sat =
     current_reward_with_height p genesis_time_ms block_timestamp_ms parent_timestamp_ms
       minted_so_far_sat (- 1) None"

section \<open>The schedule\<close>

lemma scheduled_supply_cap: "unat (scheduled_supply_at t p) \<le> unat (supply_cap_sat p)"
  by (auto simp: scheduled_supply_at_def Let_def word_nat split: prod.splits)

text \<open>The state of the loop after \<open>n\<close> halvings, on natural numbers.\<close>

fun halvings :: "nat \<Rightarrow> nat \<Rightarrow> nat \<Rightarrow> nat" where
  "halvings 0 bph r = 0"
| "halvings (Suc n) bph r =
     min (halvings n bph r + min (r div 2 ^ n * bph) (2 ^ 128 - 1)) (2 ^ 128 - 1)"

lemma epoch_loop_snoc:
  "epoch_loop (Suc n) bph c r =
     (case epoch_loop n bph c r of (c', r') \<Rightarrow> (sat_add c' (sat_mul r' bph), drop_bit 1 r'))"
proof (induction n arbitrary: c r)
  case (Suc n)
  show ?case by (subst epoch_loop.simps(2), subst Suc, subst epoch_loop.simps(2) [of n], rule refl)
qed simp

lemma epoch_loop_nat:
  "unat (fst (epoch_loop n bph 0 r)) = halvings n (unat bph) (unat r) \<and>
   unat (snd (epoch_loop n bph 0 r)) = unat r div 2 ^ n"
proof (induction n)
  case (Suc n)
  then show ?case
    by (simp add: epoch_loop_snoc split_beta word_nat div_mult2_eq [symmetric] mult.commute del: epoch_loop.simps)
qed simp

definition schedule_nat :: "nat \<Rightarrow> nat \<Rightarrow> nat \<Rightarrow> nat \<Rightarrow> nat" where
  "schedule_nat th bph r t =
     min (halvings (t div th) bph r +
          min (r div 2 ^ (t div th) * (min (t mod th * bph) (2 ^ 128 - 1) div th)) (2 ^ 128 - 1))
       (2 ^ 128 - 1)"

lemma unat_halving_ms: "unat (halving_ms p) = unat (seconds_per_halving p) * 1000"
proof -
  have "unat (seconds_per_halving p) < 2 ^ 64" using unsigned_less [of "seconds_per_halving p"] by simp
  then show ?thesis
    by (simp add: halving_ms_def unat_word_ariths unsigned_ucast_eq take_bit_eq_mod)
qed

lemma unat_u64_u128 [word_nat]: "unat (ucast (x :: u64) :: u128) = unat x"
  using unsigned_less [of x, where ?'a = nat] by (simp add: unsigned_ucast_eq take_bit_eq_mod)

lemma unat_u32_u128 [word_nat]: "unat (ucast (x :: u32) :: u128) = unat x"
  using unsigned_less [of x, where ?'a = nat] by (simp add: unsigned_ucast_eq take_bit_eq_mod)

lemma scheduled_supply_nat:
  assumes "0 < seconds_per_halving p" "0 < target_block_time_ms p"
  defines "th \<equiv> unat (seconds_per_halving p) * 1000"
  shows "unat (scheduled_supply_at t p) =
    (if unat t = 0 then 0
     else if unat t div th \<ge> 64 then unat (supply_cap_sat p)
     else min (schedule_nat th (th div unat (target_block_time_ms p)) (unat (initial_reward_sat p)) (unat t))
            (unat (supply_cap_sat p)))"
proof -
  have th: "unat (halving_ms p) = th" by (simp add: th_def unat_halving_ms)
  have th0: "0 < th" and tt0: "0 < unat (target_block_time_ms p)"
    using assms by (simp_all add: th_def word_less_nat_alt)
  define bph where "bph = halving_ms p div ucast (target_block_time_ms p)"
  have bph: "unat bph = th div unat (target_block_time_ms p)" by (simp add: bph_def word_nat th)
  define t' :: u128 where "t' = ucast t"
  have t': "unat t' = unat t" by (simp add: t'_def word_nat)
  have ep: "unat (t' div halving_ms p) = unat t div th" by (simp add: word_nat t' th)
  have el: "unat (t' - t' div halving_ms p * halving_ms p) = unat t mod th"
    by (simp add: minus_div_mult_eq_mod unat_mod t' th)
  obtain c r where lp: "epoch_loop (unat t div th) bph 0 (initial_reward_sat p) = (c, r)" by fastforce
  have cr: "unat c = halvings (unat t div th) (unat bph) (unat (initial_reward_sat p))"
    "unat r = unat (initial_reward_sat p) div 2 ^ (unat t div th)"
    using epoch_loop_nat [of "unat t div th" bph "initial_reward_sat p"] by (simp_all add: lp)
  have nz: "halving_ms p \<noteq> 0" "(ucast (target_block_time_ms p) :: u128) \<noteq> 0"
    using th th0 tt0 by (auto simp: word_unat_eq_iff word_nat)
  define y where "y = sat_mul (t' - t' div halving_ms p * halving_ms p) bph div halving_ms p"
  have y: "unat y = min (unat t mod th * unat bph) (2 ^ 128 - 1) div th"
    unfolding y_def unat_word_div unat_sat_mul el th by simp
  have g: "64 \<le> t' div halving_ms p \<longleftrightarrow> 64 \<le> unat t div th"
    unfolding word_le_nat_alt ep by simp
  have "scheduled_supply_at t p =
     (if t = 0 then 0 else if 64 \<le> unat t div th then supply_cap_sat p
      else min (sat_add c (sat_mul r y)) (supply_cap_sat p))"
    using nz unfolding g [symmetric]
    by (simp add: scheduled_supply_at_def Let_def t'_def [symmetric] bph_def [symmetric] y_def ep lp)
  moreover have "unat (min (sat_add c (sat_mul r y)) (supply_cap_sat p)) =
      min (schedule_nat th (unat bph) (unat (initial_reward_sat p)) (unat t)) (unat (supply_cap_sat p))"
    by (simp add: word_nat cr y schedule_nat_def)
  ultimately show ?thesis by (simp add: bph word_unat_eq_iff)
qed

lemma halvings_mono: "m \<le> n \<Longrightarrow> halvings m bph r \<le> halvings n bph r"
proof (induction n rule: nat_induct_at_least)
  case (Suc n)
  have "halvings n bph r \<le> 2 ^ 128 - 1" by (cases n) simp_all
  with Suc show ?case by simp
qed simp

lemma schedule_nat_mono:
  assumes th: "0 < th" and le: "t \<le> t'"
  shows "schedule_nat th bph r t \<le> schedule_nat th bph r t'"
proof (cases "t div th = t' div th")
  case True
  then have "t mod th \<le> t' mod th" using le by (metis add_le_cancel_left div_mult_mod_eq)
  then have "min (t mod th * bph) (2 ^ 128 - 1) div th \<le> min (t' mod th * bph) (2 ^ 128 - 1) div th"
    by (intro div_le_mono min.mono mult_le_mono1) simp_all
  then show ?thesis unfolding schedule_nat_def True by (intro min.mono add_left_mono mult_le_mono2) simp_all
next
  case False
  then have e: "Suc (t div th) \<le> t' div th" using div_le_mono [OF le, of th] by simp
  have "t mod th * bph \<le> th * bph" using th by (simp add: less_imp_le)
  then have "min (t mod th * bph) (2 ^ 128 - 1) div th \<le> th * bph div th"
    by (intro div_le_mono min.coboundedI1)
  then have "min (t mod th * bph) (2 ^ 128 - 1) div th \<le> bph" using th by simp
  then have "schedule_nat th bph r t \<le> halvings (Suc (t div th)) bph r"
    unfolding schedule_nat_def halvings.simps by (intro min.mono add_left_mono mult_le_mono2) simp_all
  also have "\<dots> \<le> halvings (t' div th) bph r" using e by (rule halvings_mono)
  also have "\<dots> \<le> schedule_nat th bph r t'"
  proof -
    have "halvings (t' div th) bph r \<le> 2 ^ 128 - 1" by (cases "t' div th") simp_all
    then show ?thesis by (simp add: schedule_nat_def)
  qed
  finally show ?thesis .
qed

lemma scheduled_supply_mono:
  assumes "t \<le> t'"
  shows "unat (scheduled_supply_at t p) \<le> unat (scheduled_supply_at t' p)"
proof (cases "seconds_per_halving p = 0 \<or> target_block_time_ms p = 0")
  case True
  then have "halving_ms p = 0 \<or> (ucast (target_block_time_ms p) :: u128) = 0" by (auto simp: halving_ms_def)
  then show ?thesis by (auto simp: scheduled_supply_at_def Let_def)
next
  case False
  then have pos: "0 < seconds_per_halving p" "0 < target_block_time_ms p"
    by (simp_all add: word_neq_0_conv)
  have th: "0 < unat (seconds_per_halving p) * 1000" using pos by (simp add: word_less_nat_alt)
  have le: "unat t \<le> unat t'" using assms by (simp add: word_le_nat_alt)
  show ?thesis
    unfolding scheduled_supply_nat [OF pos]
    using le div_le_mono [OF le] schedule_nat_mono [OF th le]
    by (auto simp: min.coboundedI1 intro: min.coboundedI1 le_trans)
qed

section \<open>One block's reward\<close>

lemma epoch_reward_bound: "unat (epoch_reward_at p t) \<le> unat (initial_reward_sat p)"
  by (simp add: epoch_reward_at_def Let_def word_nat)

lemma uncapped_reward_bounds:
  "unat (uncapped_reward p g ts pts m h) \<le> unat (scheduled_supply_at (ts - g) p) - unat m"
  "unat (uncapped_reward p g ts pts m h) \<le> unat (epoch_reward_at p (ts - g))"
  by (auto simp: uncapped_reward_def Let_def word_nat min_le_iff_disj)

text \<open>The percentage the slew limit uses, and the limits it puts around the previous reward.\<close>

definition slew_pct :: "emission_params \<Rightarrow> nat" where
  "slew_pct p = max (unat (max_reward_pct_change_per_block p)) 1"

lemma reward_defined:
  obtains r where "current_reward_with_height p g ts pts m h prev = Some r"
    and "g < ts \<Longrightarrow> prev = None \<or> prev = Some 0 \<Longrightarrow> r = uncapped_reward p g ts pts m h"
    and "\<And>q. g < ts \<Longrightarrow> prev = Some q \<Longrightarrow> 0 < q \<Longrightarrow>
      unat r = max (min (unat q * (100 - slew_pct p)) (2 ^ 128 - 1) div 100)
        (min (min (unat q * (100 + slew_pct p)) (2 ^ 128 - 1) div 100) (unat (uncapped_reward p g ts pts m h)))"
    and "ts \<le> g \<Longrightarrow> r = 0"
proof (cases "\<exists>q. g < ts \<and> prev = Some q \<and> 0 < q")
  case True
  then obtain q where q: "g < ts" "prev = Some q" "0 < q" by blast
  define pct :: u128 where "pct = ucast (max (max_reward_pct_change_per_block p) 1)"
  have pct: "unat pct = slew_pct p" by (simp add: pct_def slew_pct_def word_nat)
  have "unat (max_reward_pct_change_per_block p) < 2 ^ 32"
    using unsigned_less [of "max_reward_pct_change_per_block p", where ?'a = nat] by simp
  then have "slew_pct p < 2 ^ 32" by (simp add: slew_pct_def)
  then have up: "unat (100 + pct) = 100 + slew_pct p" by (simp add: unat_word_ariths pct)
  define mu md where m: "mu = sat_mul q (100 + pct) div 100" "md = sat_mul q (sat_sub 100 pct) div 100"
  have u: "unat mu = min (unat q * (100 + slew_pct p)) (2 ^ 128 - 1) div 100"
    "unat md = min (unat q * (100 - slew_pct p)) (2 ^ 128 - 1) div 100"
    by (simp_all add: m word_nat up pct)
  have "md \<le> mu" unfolding word_le_nat_alt u by (intro div_le_mono min.mono mult_le_mono2) simp_all
  then obtain r where r: "clamp_word (uncapped_reward p g ts pts m h) md mu = Some r"
    by (auto simp: clamp_word_def)
  have e: "current_reward_with_height p g ts pts m h prev = Some r"
    unfolding r [symmetric]
    using q by (simp add: current_reward_with_height_def Let_def m pct_def not_le [symmetric])
  show thesis
  proof (rule that [OF e])
    show "r = uncapped_reward p g ts pts m h" if "prev = None \<or> prev = Some 0" using that q by simp
    show "r = 0" if "ts \<le> g" using that q(1) by simp
    show "unat r = max (min (unat q' * (100 - slew_pct p)) (2 ^ 128 - 1) div 100)
        (min (min (unat q' * (100 + slew_pct p)) (2 ^ 128 - 1) div 100) (unat (uncapped_reward p g ts pts m h)))"
      if "prev = Some q'" for q'
    proof -
      have "q' = q" using that q(2) by simp
      then show ?thesis using clamp_word_SomeD(3) [OF r] by (simp only: u)
    qed
  qed
next
  case False
  then have e: "current_reward_with_height p g ts pts m h prev =
      Some (if ts \<le> g then 0 else uncapped_reward p g ts pts m h)"
    by (auto simp: current_reward_with_height_def Let_def not_le split: option.splits)
  show thesis by (rule that [OF e]) (use False in auto)
qed

text \<open>
  The potential that bounds over-issue: with \<open>d\<close> the slew percentage, \<open>d * minted\<close> plus
  \<open>100 - d\<close> times the last reward never exceeds \<open>d\<close> times the schedule plus \<open>100 - d\<close> times
  the initial reward. A reward above the calendar is the slew floor, at most \<open>100 - d\<close> percent
  of the previous one, and pays for itself with the drop of the second term.
\<close>

definition prev_nat :: "u128 option \<Rightarrow> nat" where
  "prev_nat prev = (case prev of None \<Rightarrow> 0 | Some q \<Rightarrow> unat q)"

definition emission_potential :: "emission_params \<Rightarrow> nat \<Rightarrow> nat \<Rightarrow> nat \<Rightarrow> bool" where
  "emission_potential p minted prev scheduled \<longleftrightarrow>
     slew_pct p * minted + (100 - slew_pct p) * prev \<le>
     slew_pct p * scheduled + (100 - slew_pct p) * unat (initial_reward_sat p)"

lemma reward_within:
  assumes r: "current_reward_with_height p g ts pts m h prev = Some r"
  shows "unat r \<le> unat (uncapped_reward p g ts pts m h) \<or>
    100 * unat r \<le> prev_nat prev * (100 - slew_pct p)"
proof -
  define x where "x = unat (uncapped_reward p g ts pts m h)"
  show ?thesis
  proof (rule reward_defined [of p g ts pts m h prev])
    fix r'
    assume "current_reward_with_height p g ts pts m h prev = Some r'"
      and none: "g < ts \<Longrightarrow> prev = None \<or> prev = Some 0 \<Longrightarrow> r' = uncapped_reward p g ts pts m h"
      and some: "\<And>q. g < ts \<Longrightarrow> prev = Some q \<Longrightarrow> 0 < q \<Longrightarrow>
        unat r' = max (min (unat q * (100 - slew_pct p)) (2 ^ 128 - 1) div 100)
          (min (min (unat q * (100 + slew_pct p)) (2 ^ 128 - 1) div 100) (unat (uncapped_reward p g ts pts m h)))"
      and early: "ts \<le> g \<Longrightarrow> r' = 0"
    with r have r': "r' = r" by simp
    consider "ts \<le> g" | "g < ts" "prev = None \<or> prev = Some 0" | q where "g < ts" "prev = Some q" "0 < q"
      by (metis not_le not_None_eq word_neq_0_conv)
    then show ?thesis
    proof cases
      case (3 q)
      define A where "A = min (unat q * (100 - slew_pct p)) (2 ^ 128 - 1) div 100"
      have "100 * A \<le> min (unat q * (100 - slew_pct p)) (2 ^ 128 - 1)"
        unfolding A_def by (rule times_div_less_eq_dividend)
      then have "100 * A \<le> unat q * (100 - slew_pct p)" by simp
      moreover have "unat r \<le> x \<or> unat r = A"
        using some [OF 3] by (auto simp: r' A_def x_def max_def)
      ultimately show ?thesis using 3 by (auto simp: prev_nat_def x_def)
    qed (use early none in \<open>simp_all add: r'\<close>)
  qed
qed

lemma emission_potential_step:
  assumes pot: "emission_potential p (unat m) (prev_nat prev) s"
    and r: "current_reward_with_height p g ts pts m h prev = Some r"
    and mono: "s \<le> unat (scheduled_supply_at (ts - g) p)"
  shows "emission_potential p (unat m + unat r) (unat r) (unat (scheduled_supply_at (ts - g) p))"
proof -
  define d S R x where "d = slew_pct p" and "S = unat (scheduled_supply_at (ts - g) p)"
    and "R = unat (initial_reward_sat p)" and "x = unat (uncapped_reward p g ts pts m h)"
  have pot': "d * unat m + (100 - d) * prev_nat prev \<le> d * S + (100 - d) * R"
    using pot mult_le_mono2 [OF mono, of d] unfolding emission_potential_def d_def S_def R_def by linarith
  have x: "x \<le> S - unat m" "x \<le> R"
    using uncapped_reward_bounds [of p g ts pts m h] epoch_reward_bound [of p "ts - g"]
    by (simp_all add: x_def S_def R_def)
  have calendar: "d * (unat m + y) + (100 - d) * y \<le> d * S + (100 - d) * R" if "y \<le> x" for y
  proof (cases "unat m \<le> S")
    case True
    then show ?thesis using that x by (intro add_mono mult_le_mono2) simp_all
  next
    case False
    then show ?thesis using that x pot' by simp
  qed
  have floor: "d * (unat m + y) + (100 - d) * y \<le> d * S + (100 - d) * R"
    if y: "100 * y \<le> prev_nat prev * (100 - d)" for y
  proof (cases "d \<le> 100")
    case True
    have "d * (unat m + y) + (100 - d) * y = d * unat m + 100 * y" using True
      by (metis (no_types, lifting) add.assoc add_mult_distrib add_mult_distrib2 le_add_diff_inverse)
    also have "\<dots> \<le> d * unat m + (100 - d) * prev_nat prev" using y by (simp add: mult.commute)
    finally show ?thesis using pot' by simp
  next
    case False
    then show ?thesis using y pot' by simp
  qed
  have "unat r \<le> x \<or> 100 * unat r \<le> prev_nat prev * (100 - d)"
    unfolding x_def d_def by (rule reward_within [OF r])
  then show ?thesis using calendar floor
    by (auto simp: emission_potential_def d_def [symmetric] S_def [symmetric] R_def [symmetric])
qed

lemma reward_bounds:
  assumes "g < ts"
  shows "\<exists>r. current_reward_with_height p g ts pts m h prev = Some r \<and>
    (prev_nat prev = 0 \<longrightarrow> unat r \<le> unat (scheduled_supply_at (ts - g) p) - unat m \<and>
       unat r \<le> unat (epoch_reward_at p (ts - g))) \<and>
    (0 < prev_nat prev \<longrightarrow>
       min (prev_nat prev * (100 - slew_pct p)) (2 ^ 128 - 1) div 100 \<le> unat r \<and>
       unat r \<le> min (prev_nat prev * (100 + slew_pct p)) (2 ^ 128 - 1) div 100)"
proof (rule reward_defined [of p g ts pts m h prev])
  fix r
  assume r: "current_reward_with_height p g ts pts m h prev = Some r"
    and none: "g < ts \<Longrightarrow> prev = None \<or> prev = Some 0 \<Longrightarrow> r = uncapped_reward p g ts pts m h"
    and some: "\<And>q. g < ts \<Longrightarrow> prev = Some q \<Longrightarrow> 0 < q \<Longrightarrow>
      unat r = max (min (unat q * (100 - slew_pct p)) (2 ^ 128 - 1) div 100)
        (min (min (unat q * (100 + slew_pct p)) (2 ^ 128 - 1) div 100) (unat (uncapped_reward p g ts pts m h)))"
  have le: "min (unat q * (100 - slew_pct p)) (2 ^ 128 - 1) div 100 \<le> min (unat q * (100 + slew_pct p)) (2 ^ 128 - 1) div 100"
    for q :: u128 by (intro div_le_mono min.mono mult_le_mono2) simp_all
  show ?thesis
  proof (cases "prev_nat prev = 0")
    case True
    then have "prev = None \<or> prev = Some 0" by (auto simp: prev_nat_def unsigned_eq_0_iff split: option.splits)
    then show ?thesis using True r none [OF assms] uncapped_reward_bounds by auto
  next
    case False
    then obtain q where q: "prev = Some q" "0 < q"
      by (auto simp: prev_nat_def word_less_nat_alt split: option.splits)
    then have pn: "prev_nat prev = unat q" by (simp add: prev_nat_def)
    have lo: "min (prev_nat prev * (100 - slew_pct p)) (2 ^ 128 - 1) div 100 \<le> unat r"
      unfolding some [OF assms q] pn by (rule max.cobounded1)
    have hi: "unat r \<le> min (prev_nat prev * (100 + slew_pct p)) (2 ^ 128 - 1) div 100"
      unfolding some [OF assms q] pn by (rule max.boundedI [OF le min.cobounded1])
    show ?thesis by (rule exI [of _ r]) (use False r lo hi in \<open>simp only: simp_thms\<close>)
  qed
qed

end
