(* ===== verification/Consensus_Accordion.thy ===== *)
theory Consensus_Accordion
  imports Pg_Prelude
begin

text \<open>
  The accordion controller of \<open>crates/consensus/src/accordion.rs\<close>. It computes with the type
  \<open>I64F64\<close> of the third-party crate \<open>fixed\<close>, which is a parameter here: a type \<open>'f\<close> with the
  operations the controller uses. \<open>fixed_ok\<close> states what that crate documents: a value is a multiple of
  \<open>2 ^ -64\<close> held in 128 bits, comparisons are exact, sums are exact when they fit, and products and
  quotients are off by less than one unit and never cross or move away from zero on the positive side.
\<close>

record 'f fixed_ext =
  fx_bits :: "'f \<Rightarrow> int"
  fx_from_int :: "int \<Rightarrow> 'f"
  fx_from_dec :: "int \<Rightarrow> nat \<Rightarrow> 'f"
  fx_add :: "'f \<Rightarrow> 'f \<Rightarrow> 'f"
  fx_sub :: "'f \<Rightarrow> 'f \<Rightarrow> 'f"
  fx_neg :: "'f \<Rightarrow> 'f"
  fx_mul :: "'f \<Rightarrow> 'f \<Rightarrow> 'f"
  fx_div :: "'f \<Rightarrow> 'f \<Rightarrow> 'f"
  fx_le :: "'f \<Rightarrow> 'f \<Rightarrow> bool"
  fx_lt :: "'f \<Rightarrow> 'f \<Rightarrow> bool"

section \<open>The controller\<close>

record 'f accordion_params =
  epsilon :: 'f
  beta_h :: 'f
  beta_a :: 'f
  beta_s :: 'f

definition accordion_defaults :: "'f fixed_ext \<Rightarrow> 'f accordion_params" where
  "accordion_defaults F =
     \<lparr> epsilon = fx_from_dec F 5 2, beta_h = fx_from_dec F 5 1, beta_a = fx_from_dec F 5 1, beta_s = fx_from_int F 0 \<rparr>"

datatype regime = Equilibrium | Growth | Contraction

record 'f accordion_outcome =
  ao_regime :: regime
  ao_alpha_h :: 'f
  ao_per_block_advance :: 'f

definition ln_step :: "'f fixed_ext \<Rightarrow> 'f \<Rightarrow> 'f \<times> 'f \<Rightarrow> nat \<Rightarrow> 'f \<times> 'f" where
  "ln_step F y2 ts n =
     (let term = fx_mul F (fst ts) y2;
          denom = fx_from_int F (int (2 * n + 1)) in
      (term, fx_add F (snd ts) (fx_div F term denom)))"

definition ln_fixed :: "'f fixed_ext \<Rightarrow> 'f \<Rightarrow> 'f" where
  "ln_fixed F x =
     (let one = fx_from_int F 1 in
      if fx_le F x (fx_from_int F 0) then fx_from_int F 0
      else
        let y = fx_div F (fx_sub F x one) (fx_add F x one);
            y2 = fx_mul F y y;
            ts = foldl (ln_step F y2) (y, y) [1..<16] in
        fx_mul F (snd ts) (fx_from_int F 2))"

definition fx_abs :: "'f fixed_ext \<Rightarrow> 'f \<Rightarrow> 'f" where
  "fx_abs F v = (if fx_lt F v (fx_from_int F 0) then fx_neg F v else v)"

definition max_zero :: "'f fixed_ext \<Rightarrow> 'f \<Rightarrow> 'f" where
  "max_zero F v = (if fx_lt F v (fx_from_int F 0) then fx_from_int F 0 else v)"

definition regime_of :: "'f fixed_ext \<Rightarrow> 'f accordion_params \<Rightarrow> 'f \<Rightarrow> 'f \<Rightarrow> regime" where
  "regime_of F params lh la =
     (if fx_le F (fx_abs F lh) (epsilon params) \<and> fx_le F (fx_abs F la) (epsilon params) then Equilibrium
      else if fx_le F (fx_from_int F 0) lh \<and> fx_le F (fx_from_int F 0) la then Growth
      else Contraction)"

definition growth_advance :: "'f fixed_ext \<Rightarrow> 'f accordion_params \<Rightarrow> 'f \<Rightarrow> 'f \<Rightarrow> 'f \<Rightarrow> 'f" where
  "growth_advance F params lh la bias =
     (let one = fx_from_int F 1;
          raw = fx_add F (fx_add F (fx_add F one (fx_mul F (beta_h params) (max_zero F lh)))
                  (fx_mul F (beta_a params) (max_zero F la))) (fx_mul F (beta_s params) bias) in
      if fx_lt F raw one then one else raw)"

definition contraction_advance :: "'f fixed_ext \<Rightarrow> 'f accordion_params \<Rightarrow> 'f \<Rightarrow> 'f \<Rightarrow> 'f \<Rightarrow> 'f" where
  "contraction_advance F params lh la bias =
     (let one = fx_from_int F 1;
          denom = fx_add F (fx_add F (fx_add F one (fx_mul F (beta_h params) (max_zero F (fx_neg F lh))))
                    (fx_mul F (beta_a params) (max_zero F (fx_neg F la))))
                  (fx_mul F (beta_s params) (max_zero F (fx_neg F bias))) in
      fx_div F one denom)"

definition evaluate :: "'f fixed_ext \<Rightarrow> 'f accordion_params \<Rightarrow> 'f \<Rightarrow> 'f \<Rightarrow> i8 \<Rightarrow> 'f accordion_outcome" where
  "evaluate F params r_h r_a stability_bias =
     (let one = fx_from_int F 1;
          lh = ln_fixed F r_h;
          la = ln_fixed F r_a;
          regime = regime_of F params lh la;
          alpha_h = fx_div F one (fx_add F one (fx_abs F lh));
          bias = fx_from_int F (sint stability_bias) in
      \<lparr> ao_regime = regime, ao_alpha_h = alpha_h,
        ao_per_block_advance =
          (case regime of
             Equilibrium \<Rightarrow> one
           | Growth \<Rightarrow> growth_advance F params lh la bias
           | Contraction \<Rightarrow> contraction_advance F params lh la bias) \<rparr>)"

section \<open>What the fixed-point type promises\<close>

definition fits128 :: "int \<Rightarrow> bool" where
  "fits128 n \<longleftrightarrow> - (2 ^ 127) \<le> n \<and> n < 2 ^ 127"

text \<open>\<open>near d n q\<close>: the quotient of \<open>n\<close> by the positive \<open>d\<close>, off by less than one and not past zero.\<close>

definition near :: "int \<Rightarrow> int \<Rightarrow> int \<Rightarrow> bool" where
  "near d n q \<longleftrightarrow> \<bar>q * d - n\<bar> < d \<and> (0 \<le> n \<longrightarrow> 0 \<le> q \<and> q * d \<le> n) \<and> (n \<le> 0 \<longrightarrow> q \<le> 0)"

definition fixed_ok :: "'f fixed_ext \<Rightarrow> bool" where
  "fixed_ok F \<longleftrightarrow>
     (\<forall>n. - (2 ^ 63) \<le> n \<and> n < 2 ^ 63 \<longrightarrow> fx_bits F (fx_from_int F n) = n * 2 ^ 64) \<and>
     (\<forall>a b. fx_le F a b \<longleftrightarrow> fx_bits F a \<le> fx_bits F b) \<and> (\<forall>a b. fx_lt F a b \<longleftrightarrow> fx_bits F a < fx_bits F b) \<and>
     (\<forall>a b. fits128 (fx_bits F a + fx_bits F b) \<longrightarrow> fx_bits F (fx_add F a b) = fx_bits F a + fx_bits F b) \<and>
     (\<forall>a b. fits128 (fx_bits F a - fx_bits F b) \<longrightarrow> fx_bits F (fx_sub F a b) = fx_bits F a - fx_bits F b) \<and>
     (\<forall>a. fits128 (- fx_bits F a) \<longrightarrow> fx_bits F (fx_neg F a) = - fx_bits F a) \<and>
     (\<forall>a b. \<bar>fx_bits F a * fx_bits F b\<bar> < 2 ^ 190 \<longrightarrow>
        near (2 ^ 64) (fx_bits F a * fx_bits F b) (fx_bits F (fx_mul F a b))) \<and>
     (\<forall>a b. 0 < fx_bits F b \<and> \<bar>fx_bits F a * 2 ^ 64\<bar> < 2 ^ 126 * fx_bits F b \<longrightarrow>
        near (fx_bits F b) (fx_bits F a * 2 ^ 64) (fx_bits F (fx_div F a b)))"

text \<open>A number of the repository's range, in units of \<open>2 ^ -64\<close>.\<close>

abbreviation unit64 :: int where "unit64 \<equiv> 2 ^ 64"

lemma near_abs:
  assumes "near d n q" "\<bar>n\<bar> \<le> k * d"
  shows "\<bar>q\<bar> \<le> k"
proof -
  have d: "0 < d" using assms(1) unfolding near_def by linarith
  have "\<bar>q\<bar> * d = \<bar>q * d\<bar>" using d by (simp add: abs_mult)
  also have "\<dots> < (k + 1) * d" using assms unfolding near_def by (simp add: algebra_simps) linarith
  finally show ?thesis using d by (simp add: mult_less_cancel_right)
qed

lemma near_sign: "near d n q \<Longrightarrow> 0 \<le> n \<Longrightarrow> 0 \<le> q" "near d n q \<Longrightarrow> n \<le> 0 \<Longrightarrow> q \<le> 0"
  by (simp_all add: near_def)

section \<open>The logarithm\<close>

lemma from_int_bits: "fixed_ok F \<Longrightarrow> - (2 ^ 63) \<le> n \<Longrightarrow> n < 2 ^ 63 \<Longrightarrow> fx_bits F (fx_from_int F n) = n * unit64"
  by (simp add: fixed_ok_def)

lemma small_bits:
  assumes "fixed_ok F"
  shows "fx_bits F (fx_from_int F 0) = 0" "fx_bits F (fx_from_int F 1) = unit64" "fx_bits F (fx_from_int F 2) = 2 * unit64"
  using from_int_bits [OF assms, of 0] from_int_bits [OF assms, of 1] from_int_bits [OF assms, of 2] by simp_all

lemma add_bits:
  assumes "fixed_ok F" "\<bar>fx_bits F a\<bar> \<le> 2 ^ 126 - 1" "\<bar>fx_bits F b\<bar> \<le> 2 ^ 126"
  shows "fx_bits F (fx_add F a b) = fx_bits F a + fx_bits F b"
proof -
  have "fits128 (fx_bits F a + fx_bits F b)" using assms(2,3) unfolding fits128_def by (auto simp: abs_le_iff)
  then show ?thesis using assms(1) unfolding fixed_ok_def by blast
qed

lemma neg_bits:
  assumes "fixed_ok F" "\<bar>fx_bits F a\<bar> \<le> 2 ^ 126"
  shows "fx_bits F (fx_neg F a) = - fx_bits F a"
proof -
  have "fits128 (- fx_bits F a)" using assms(2) unfolding fits128_def by (auto simp: abs_le_iff)
  then show ?thesis using assms(1) unfolding fixed_ok_def by blast
qed

lemma mul_bits:
  assumes "fixed_ok F" "\<bar>fx_bits F a\<bar> \<le> m" "\<bar>fx_bits F b\<bar> \<le> n * unit64" "m * n \<le> 2 ^ 125"
  shows "\<bar>fx_bits F (fx_mul F a b)\<bar> \<le> m * n"
    "0 \<le> fx_bits F a \<Longrightarrow> 0 \<le> fx_bits F b \<Longrightarrow> 0 \<le> fx_bits F (fx_mul F a b)"
    "fx_bits F a \<le> 0 \<Longrightarrow> 0 \<le> fx_bits F b \<Longrightarrow> fx_bits F (fx_mul F a b) \<le> 0"
proof -
  have p: "\<bar>fx_bits F a * fx_bits F b\<bar> \<le> m * n * unit64"
    using mult_mono [OF assms(2,3)] assms(2) by (simp add: abs_mult mult.assoc)
  also have "\<dots> < 2 ^ 190" using assms(4) by simp
  finally have nr: "near unit64 (fx_bits F a * fx_bits F b) (fx_bits F (fx_mul F a b))"
    using assms(1) unfolding fixed_ok_def by blast
  show "\<bar>fx_bits F (fx_mul F a b)\<bar> \<le> m * n" by (rule near_abs [OF nr p])
  show "0 \<le> fx_bits F a \<Longrightarrow> 0 \<le> fx_bits F b \<Longrightarrow> 0 \<le> fx_bits F (fx_mul F a b)"
    using near_sign(1) [OF nr] by simp
  show "fx_bits F a \<le> 0 \<Longrightarrow> 0 \<le> fx_bits F b \<Longrightarrow> fx_bits F (fx_mul F a b) \<le> 0"
    using near_sign(2) [OF nr] by (simp add: mult_nonpos_nonneg)
qed

lemma div_bits:
  assumes "fixed_ok F" "0 < fx_bits F b" "\<bar>fx_bits F a\<bar> * unit64 \<le> k * fx_bits F b" "k < 2 ^ 126"
  shows "\<bar>fx_bits F (fx_div F a b)\<bar> \<le> k"
    "0 \<le> fx_bits F a \<Longrightarrow> 0 \<le> fx_bits F (fx_div F a b)" "fx_bits F a \<le> 0 \<Longrightarrow> fx_bits F (fx_div F a b) \<le> 0"
    "near (fx_bits F b) (fx_bits F a * unit64) (fx_bits F (fx_div F a b))"
proof -
  have "\<bar>fx_bits F a * unit64\<bar> = \<bar>fx_bits F a\<bar> * unit64" by (simp add: abs_mult)
  then have p: "\<bar>fx_bits F a * unit64\<bar> \<le> k * fx_bits F b" using assms(3) by linarith
  also have "\<dots> < 2 ^ 126 * fx_bits F b" using assms(2,4) by (simp only: mult_less_cancel_right) simp
  finally show nr: "near (fx_bits F b) (fx_bits F a * unit64) (fx_bits F (fx_div F a b))"
    using assms(1,2) unfolding fixed_ok_def by blast
  show "\<bar>fx_bits F (fx_div F a b)\<bar> \<le> k" by (rule near_abs [OF nr p])
  show "0 \<le> fx_bits F a \<Longrightarrow> 0 \<le> fx_bits F (fx_div F a b)" using near_sign(1) [OF nr] by simp
  show "fx_bits F a \<le> 0 \<Longrightarrow> fx_bits F (fx_div F a b) \<le> 0" using near_sign(2) [OF nr] by simp
qed

text \<open>The loop keeps the sign of \<open>y\<close> and adds at most one to the magnitude of the sum in each round.\<close>

definition ln_inv :: "'f fixed_ext \<Rightarrow> 'f \<Rightarrow> int \<Rightarrow> 'f \<times> 'f \<Rightarrow> bool" where
  "ln_inv F y k ts \<longleftrightarrow> \<bar>fx_bits F (fst ts)\<bar> \<le> unit64 \<and> \<bar>fx_bits F (snd ts)\<bar> \<le> k * unit64 \<and>
     (0 \<le> fx_bits F y \<longrightarrow> 0 \<le> fx_bits F (fst ts) \<and> 0 \<le> fx_bits F (snd ts)) \<and>
     (fx_bits F y \<le> 0 \<longrightarrow> fx_bits F (fst ts) \<le> 0 \<and> fx_bits F (snd ts) \<le> 0)"

lemma ln_step_inv:
  assumes F: "fixed_ok F" and y2: "0 \<le> fx_bits F y2" "fx_bits F y2 \<le> unit64"
    and i: "ln_inv F y k ts" "0 \<le> k" "k \<le> 1000" "n < 1000"
  shows "ln_inv F y (k + 1) (ln_step F y2 ts n)"
proof -
  let ?t = "fx_mul F (fst ts) y2" and ?d = "fx_from_int F (int (2 * n + 1))"
  have d: "fx_bits F ?d = int (2 * n + 1) * unit64" using i(4) by (intro from_int_bits [OF F]) simp_all
  note m = mul_bits [OF F, of "fst ts" unit64 y2 1]
  have t: "\<bar>fx_bits F ?t\<bar> \<le> unit64" using m(1) i(1) y2 by (simp add: ln_inv_def)
  have "\<bar>fx_bits F ?t\<bar> * unit64 \<le> unit64 * unit64" using t by (rule mult_right_mono) simp
  also have "\<dots> \<le> unit64 * fx_bits F ?d" unfolding d by simp
  finally have q: "\<bar>fx_bits F ?t\<bar> * unit64 \<le> unit64 * fx_bits F ?d" .
  note dv = div_bits [OF F _ q]
  have dp: "0 < fx_bits F ?d" unfolding d by simp
  have qb: "\<bar>fx_bits F (fx_div F ?t ?d)\<bar> \<le> unit64" using dv(1) dp by simp
  have s: "\<bar>fx_bits F (snd ts)\<bar> \<le> k * unit64" using i(1) by (simp add: ln_inv_def)
  have "k * unit64 \<le> 1000 * unit64" using i(3) by (rule mult_right_mono) simp
  then have a: "fx_bits F (fx_add F (snd ts) (fx_div F ?t ?d)) = fx_bits F (snd ts) + fx_bits F (fx_div F ?t ?d)"
    using s qb by (intro add_bits [OF F]) simp_all
  have mag: "\<bar>fx_bits F (fx_add F (snd ts) (fx_div F ?t ?d))\<bar> \<le> (k + 1) * unit64"
    using a s qb by (simp add: distrib_right)
  have pos: "0 \<le> fx_bits F ?t \<and> 0 \<le> fx_bits F (fx_add F (snd ts) (fx_div F ?t ?d))" if "0 \<le> fx_bits F y"
  proof -
    have "0 \<le> fx_bits F (fst ts)" "0 \<le> fx_bits F (snd ts)" using i(1) that by (simp_all add: ln_inv_def)
    then show ?thesis using m(2) i(1) y2 dv(2) dp a by (simp add: ln_inv_def)
  qed
  have neg: "fx_bits F ?t \<le> 0 \<and> fx_bits F (fx_add F (snd ts) (fx_div F ?t ?d)) \<le> 0" if "fx_bits F y \<le> 0"
  proof -
    have "fx_bits F (fst ts) \<le> 0" "fx_bits F (snd ts) \<le> 0" using i(1) that by (simp_all add: ln_inv_def)
    then show ?thesis using m(3) i(1) y2 dv(3) dp a by (simp add: ln_inv_def)
  qed
  show ?thesis using t mag pos neg by (simp add: ln_inv_def ln_step_def Let_def)
qed

lemma ln_loop_inv:
  assumes F: "fixed_ok F" and y2: "0 \<le> fx_bits F y2" "fx_bits F y2 \<le> unit64"
  shows "ln_inv F y k ts \<Longrightarrow> 0 \<le> k \<Longrightarrow> k + int (length ns) \<le> 1000 \<Longrightarrow> \<forall>n \<in> set ns. n < 1000 \<Longrightarrow>
    ln_inv F y (k + int (length ns)) (foldl (ln_step F y2) ts ns)"
proof (induction ns arbitrary: k ts)
  case (Cons n ns)
  have "ln_inv F y (k + 1) (ln_step F y2 ts n)" using Cons.prems by (intro ln_step_inv [OF F y2]) simp_all
  from Cons.IH [OF this] show ?case using Cons.prems by (simp add: add.assoc add.commute [of 1])
qed simp

lemma ln_fixed_bounds:
  assumes F: "fixed_ok F" and x: "fx_bits F x \<le> 2 ^ 125"
  shows "\<bar>fx_bits F (ln_fixed F x)\<bar> \<le> 32 * unit64"
    "unit64 \<le> fx_bits F x \<Longrightarrow> 0 \<le> fx_bits F (ln_fixed F x)"
    "fx_bits F x \<le> unit64 \<Longrightarrow> fx_bits F (ln_fixed F x) \<le> 0"
proof -
  let ?x = "fx_bits F x" and ?one = "fx_from_int F 1"
  let ?y = "fx_div F (fx_sub F x ?one) (fx_add F x ?one)"
  let ?ts = "foldl (ln_step F (fx_mul F ?y ?y)) (?y, ?y) [1..<16]"
  have z: "fx_le F x (fx_from_int F 0) \<longleftrightarrow> ?x \<le> 0" using F small_bits(1) [OF F] by (simp add: fixed_ok_def)
  have "\<bar>fx_bits F (ln_fixed F x)\<bar> \<le> 32 * unit64 \<and> (unit64 \<le> ?x \<longrightarrow> 0 \<le> fx_bits F (ln_fixed F x)) \<and>
    (?x \<le> unit64 \<longrightarrow> fx_bits F (ln_fixed F x) \<le> 0)"
  proof (cases "?x \<le> 0")
    case True
    then show ?thesis using z small_bits(1) [OF F] by (simp add: ln_fixed_def Let_def)
  next
    case False
    note b = small_bits [OF F]
    have "fits128 (?x - fx_bits F ?one)" using x False unfolding fits128_def b by simp
    then have sb: "fx_bits F (fx_sub F x ?one) = ?x - unit64" using F b(2) unfolding fixed_ok_def by metis
    have ab: "fx_bits F (fx_add F x ?one) = ?x + unit64" using add_bits [OF F, of x ?one] x False b(2) by simp
    have q: "\<bar>fx_bits F (fx_sub F x ?one)\<bar> * unit64 \<le> unit64 * fx_bits F (fx_add F x ?one)"
      unfolding sb ab using False by (simp add: abs_if)
    note dv = div_bits [OF F _ q]
    have ap: "0 < fx_bits F (fx_add F x ?one)" using ab False by simp
    have y: "\<bar>fx_bits F ?y\<bar> \<le> unit64" "unit64 \<le> ?x \<Longrightarrow> 0 \<le> fx_bits F ?y" "?x \<le> unit64 \<Longrightarrow> fx_bits F ?y \<le> 0"
      using dv(1-3) ap sb by simp_all
    have "\<bar>fx_bits F ?y * fx_bits F ?y\<bar> \<le> unit64 * unit64" using mult_mono [OF y(1) y(1)] by (simp add: abs_mult)
    also have "\<dots> < 2 ^ 190" by simp
    finally have "near unit64 (fx_bits F ?y * fx_bits F ?y) (fx_bits F (fx_mul F ?y ?y))" using F unfolding fixed_ok_def by blast
    from near_sign(1) [OF this] near_abs [OF this, of unit64] mult_mono [OF y(1) y(1)]
    have y2: "0 \<le> fx_bits F (fx_mul F ?y ?y)" "fx_bits F (fx_mul F ?y ?y) \<le> unit64" by (simp_all add: abs_mult)
    have "ln_inv F ?y (1 + int (length [1..<16])) ?ts"
      by (rule ln_loop_inv [OF F y2]) (use y(1) in \<open>simp_all add: ln_inv_def\<close>)
    then have s: "\<bar>fx_bits F (snd ?ts)\<bar> \<le> 16 * unit64" "0 \<le> fx_bits F ?y \<Longrightarrow> 0 \<le> fx_bits F (snd ?ts)"
      "fx_bits F ?y \<le> 0 \<Longrightarrow> fx_bits F (snd ?ts) \<le> 0" by (simp_all add: ln_inv_def)
    note mm = mul_bits [OF F s(1), of "fx_from_int F 2" 2]
    have l: "ln_fixed F x = fx_mul F (snd ?ts) (fx_from_int F 2)" using z False by (simp add: ln_fixed_def Let_def)
    show ?thesis using mm b(3) s y(2,3) unfolding l by simp
  qed
  then show "\<bar>fx_bits F (ln_fixed F x)\<bar> \<le> 32 * unit64"
    "unit64 \<le> fx_bits F x \<Longrightarrow> 0 \<le> fx_bits F (ln_fixed F x)"
    "fx_bits F x \<le> unit64 \<Longrightarrow> fx_bits F (ln_fixed F x) \<le> 0" by blast+
qed

section \<open>The outcome\<close>

definition params_ok :: "'f fixed_ext \<Rightarrow> 'f accordion_params \<Rightarrow> bool" where
  "params_ok F p \<longleftrightarrow> (\<forall>b \<in> {beta_h p, beta_a p, beta_s p}. 0 \<le> fx_bits F b \<and> fx_bits F b \<le> 2 ^ 100)"

lemma abs_bits:
  assumes "fixed_ok F" "\<bar>fx_bits F v\<bar> \<le> 2 ^ 126"
  shows "fx_bits F (fx_abs F v) = \<bar>fx_bits F v\<bar>"
  using neg_bits [OF assms] assms(1) small_bits(1) [OF assms(1)] by (simp add: fx_abs_def fixed_ok_def)

lemma max_zero_bits: "fixed_ok F \<Longrightarrow> fx_bits F (max_zero F v) = max 0 (fx_bits F v)"
  using small_bits(1) [of F] by (auto simp: max_zero_def fixed_ok_def)

text \<open>A reciprocal of a number at least one lies between zero and one, and is positive.\<close>

lemma recip_bits:
  assumes F: "fixed_ok F" and d: "unit64 \<le> fx_bits F d" "fx_bits F d \<le> 2 ^ 120"
  shows "0 < fx_bits F (fx_div F (fx_from_int F 1) d)" "fx_bits F (fx_div F (fx_from_int F 1) d) \<le> unit64"
proof -
  note b = small_bits(2) [OF F]
  have dp: "0 < fx_bits F d" using d(1) less_le_trans [of 0 unit64] by simp
  have q: "\<bar>fx_bits F (fx_from_int F 1)\<bar> * unit64 \<le> unit64 * fx_bits F d" unfolding b using d(1) by simp
  note dv = div_bits [OF F dp q]
  show "fx_bits F (fx_div F (fx_from_int F 1) d) \<le> unit64" using dv(1) by simp
  have "near (fx_bits F d) (unit64 * unit64) (fx_bits F (fx_div F (fx_from_int F 1) d))" using dv(4) b by simp
  then have n: "\<bar>fx_bits F (fx_div F (fx_from_int F 1) d) * fx_bits F d - unit64 * unit64\<bar> < fx_bits F d"
    "0 \<le> fx_bits F (fx_div F (fx_from_int F 1) d)"
    by (simp only: near_def) (use \<open>near _ _ _\<close> near_sign(1) in simp)
  have "fx_bits F (fx_div F (fx_from_int F 1) d) \<noteq> 0"
  proof
    assume "fx_bits F (fx_div F (fx_from_int F 1) d) = 0"
    then have "unit64 * unit64 < fx_bits F d" using n(1) by simp
    then show False using d(2) by simp
  qed
  then show "0 < fx_bits F (fx_div F (fx_from_int F 1) d)" using n(2) by linarith
qed

text \<open>One plus three weighted, non-negative terms stays in range and is at least one.\<close>

lemma weighted_bits:
  assumes F: "fixed_ok F" and p: "params_ok F p"
    and t: "0 \<le> fx_bits F u" "fx_bits F u \<le> 128 * unit64" "0 \<le> fx_bits F v" "fx_bits F v \<le> 128 * unit64"
      "0 \<le> fx_bits F w" "fx_bits F w \<le> 128 * unit64"
  defines "r \<equiv> fx_add F (fx_add F (fx_add F (fx_from_int F 1) (fx_mul F (beta_h p) u)) (fx_mul F (beta_a p) v)) (fx_mul F (beta_s p) w)"
  shows "unit64 \<le> fx_bits F r" "fx_bits F r \<le> 2 ^ 120"
proof -
  have m: "0 \<le> fx_bits F (fx_mul F b x) \<and> fx_bits F (fx_mul F b x) \<le> 2 ^ 107"
    if "b \<in> {beta_h p, beta_a p, beta_s p}" "0 \<le> fx_bits F x" "fx_bits F x \<le> 128 * unit64" for b x
  proof -
    have b: "0 \<le> fx_bits F b" "fx_bits F b \<le> 2 ^ 100" using p that(1) unfolding params_ok_def by blast+
    have "\<bar>fx_bits F b\<bar> \<le> 2 ^ 100" "\<bar>fx_bits F x\<bar> \<le> 128 * unit64" using b that(2,3) by simp_all
    note mm = mul_bits [OF F this]
    have "\<bar>fx_bits F (fx_mul F b x)\<bar> \<le> 2 ^ 100 * 128" "0 \<le> fx_bits F (fx_mul F b x)" using mm(1,2) b(1) that(2) by simp_all
    then show ?thesis by simp
  qed
  note m1 = m [of "beta_h p" u] and m2 = m [of "beta_a p" v] and m3 = m [of "beta_s p" w] and one = small_bits(2) [OF F]
  have a1: "fx_bits F (fx_add F (fx_from_int F 1) (fx_mul F (beta_h p) u)) = unit64 + fx_bits F (fx_mul F (beta_h p) u)"
    using m1 t one add_bits [OF F, of "fx_from_int F 1" "fx_mul F (beta_h p) u"] by simp
  have a2: "fx_bits F (fx_add F (fx_add F (fx_from_int F 1) (fx_mul F (beta_h p) u)) (fx_mul F (beta_a p) v)) =
      unit64 + fx_bits F (fx_mul F (beta_h p) u) + fx_bits F (fx_mul F (beta_a p) v)"
    using m1 m2 t a1 add_bits [OF F, of "fx_add F (fx_from_int F 1) (fx_mul F (beta_h p) u)" "fx_mul F (beta_a p) v"] by simp
  have "fx_bits F r = unit64 + fx_bits F (fx_mul F (beta_h p) u) + fx_bits F (fx_mul F (beta_a p) v) + fx_bits F (fx_mul F (beta_s p) w)"
    using m1 m2 m3 t a2 add_bits [OF F, of "fx_add F (fx_add F (fx_from_int F 1) (fx_mul F (beta_h p) u)) (fx_mul F (beta_a p) v)"
      "fx_mul F (beta_s p) w"] unfolding r_def by simp
  then show "unit64 \<le> fx_bits F r" "fx_bits F r \<le> 2 ^ 120" using m1 m2 m3 t by simp_all
qed

lemma bias_bits:
  assumes "fixed_ok F"
  shows "\<bar>fx_bits F (fx_from_int F (sint (b :: i8)))\<bar> \<le> 128 * unit64"
proof -
  have s: "- 128 \<le> sint b" "sint b < 128" using sint_ge [of b] sint_lt [of b] by simp_all
  then have "fx_bits F (fx_from_int F (sint b)) = sint b * unit64" by (intro from_int_bits [OF assms]) simp_all
  then show ?thesis using s by (simp add: abs_mult)
qed

lemma contraction_bounds:
  assumes F: "fixed_ok F" and p: "params_ok F p"
    and l: "\<bar>fx_bits F lh\<bar> \<le> 32 * unit64" "\<bar>fx_bits F la\<bar> \<le> 32 * unit64" "\<bar>fx_bits F bias\<bar> \<le> 128 * unit64"
  shows "0 < fx_bits F (contraction_advance F p lh la bias)" "fx_bits F (contraction_advance F p lh la bias) \<le> unit64"
proof -
  have z: "0 \<le> fx_bits F (max_zero F (fx_neg F v)) \<and> fx_bits F (max_zero F (fx_neg F v)) \<le> 128 * unit64"
    if "\<bar>fx_bits F v\<bar> \<le> 128 * unit64" for v
    using that neg_bits [OF F, of v] by (auto simp: max_zero_bits [OF F] abs_le_iff)
  have "\<bar>fx_bits F lh\<bar> \<le> 128 * unit64" "\<bar>fx_bits F la\<bar> \<le> 128 * unit64" using l(1,2) by simp_all
  note z1 = z [OF this(1)] and z2 = z [OF this(2)] and z3 = z [OF l(3)]
  note w = weighted_bits [OF F p, of "max_zero F (fx_neg F lh)" "max_zero F (fx_neg F la)" "max_zero F (fx_neg F bias)"]
  show "0 < fx_bits F (contraction_advance F p lh la bias)" "fx_bits F (contraction_advance F p lh la bias) \<le> unit64"
    unfolding contraction_advance_def Let_def using z1 z2 z3 by (intro recip_bits [OF F] w; blast)+
qed

lemma growth_at_least_one: "fixed_ok F \<Longrightarrow> unit64 \<le> fx_bits F (growth_advance F p lh la bias)"
  using small_bits(2) [of F] by (auto simp: growth_advance_def Let_def fixed_ok_def)

lemma regime_sides:
  assumes F: "fixed_ok F" and l: "\<bar>fx_bits F lh\<bar> \<le> 32 * unit64" "\<bar>fx_bits F la\<bar> \<le> 32 * unit64"
  shows "0 \<le> fx_bits F lh \<Longrightarrow> 0 \<le> fx_bits F la \<Longrightarrow> regime_of F p lh la \<noteq> Contraction"
    "fx_bits F lh \<le> 0 \<Longrightarrow> fx_bits F la \<le> 0 \<Longrightarrow> 0 \<le> fx_bits F (epsilon p) \<Longrightarrow> regime_of F p lh la \<noteq> Growth"
proof -
  have a: "fx_bits F (fx_abs F lh) = \<bar>fx_bits F lh\<bar>" "fx_bits F (fx_abs F la) = \<bar>fx_bits F la\<bar>"
    using l by (intro abs_bits [OF F]; simp)+
  have le: "fx_le F x y \<longleftrightarrow> fx_bits F x \<le> fx_bits F y" for x y using F by (simp add: fixed_ok_def)
  show "0 \<le> fx_bits F lh \<Longrightarrow> 0 \<le> fx_bits F la \<Longrightarrow> regime_of F p lh la \<noteq> Contraction"
    using small_bits(1) [OF F] by (simp add: regime_of_def le)
  show "fx_bits F lh \<le> 0 \<Longrightarrow> fx_bits F la \<le> 0 \<Longrightarrow> 0 \<le> fx_bits F (epsilon p) \<Longrightarrow> regime_of F p lh la \<noteq> Growth"
    using small_bits(1) [OF F] a by (auto simp: regime_of_def le)
qed

lemma alpha_bounds:
  assumes F: "fixed_ok F" and l: "\<bar>fx_bits F lh\<bar> \<le> 32 * unit64"
  defines "a \<equiv> fx_div F (fx_from_int F 1) (fx_add F (fx_from_int F 1) (fx_abs F lh))"
  shows "0 < fx_bits F a" "fx_bits F a \<le> unit64"
proof -
  have "fx_bits F (fx_abs F lh) = \<bar>fx_bits F lh\<bar>" using l by (intro abs_bits [OF F]) simp
  then have "fx_bits F (fx_add F (fx_from_int F 1) (fx_abs F lh)) = unit64 + \<bar>fx_bits F lh\<bar>"
    using l small_bits(2) [OF F] add_bits [OF F, of "fx_from_int F 1" "fx_abs F lh"] by simp
  then have "unit64 \<le> fx_bits F (fx_add F (fx_from_int F 1) (fx_abs F lh))"
    "fx_bits F (fx_add F (fx_from_int F 1) (fx_abs F lh)) \<le> 2 ^ 120" using l by simp_all
  from recip_bits [OF F this] show "0 < fx_bits F a" "fx_bits F a \<le> unit64" unfolding a_def by blast+
qed

text \<open>A model of the fixed-point type: integers counted in units of \<open>2 ^ -64\<close>, quotients rounded down.\<close>

definition int_fixed :: "int fixed_ext" where
  "int_fixed = \<lparr> fx_bits = id, fx_from_int = (\<lambda>n. n * unit64), fx_from_dec = (\<lambda>n k. n * unit64 div 10 ^ k),
     fx_add = (+), fx_sub = (-), fx_neg = uminus, fx_mul = (\<lambda>a b. a * b div unit64), fx_div = (\<lambda>a b. a * unit64 div b),
     fx_le = (\<le>), fx_lt = (<) \<rparr>"

lemma near_floor:
  assumes "0 < d"
  shows "near d n (n div d)"
proof -
  have "n = n div d * d + n mod d" "0 \<le> n mod d" "n mod d < d" using assms by simp_all
  moreover have "n \<le> 0 \<Longrightarrow> n div d \<le> 0" using zdiv_mono1 [of n 0 d] assms by simp
  moreover have "0 \<le> n \<Longrightarrow> 0 \<le> n div d" using assms by (simp add: pos_imp_zdiv_nonneg_iff)
  ultimately show ?thesis unfolding near_def by linarith
qed

lemma int_fixed_ok: "fixed_ok int_fixed"
  by (simp add: fixed_ok_def int_fixed_def near_floor)

end
