(* ===== verification/Claims_Core.thy ===== *)
theory Claims_Core
  imports Instance Consensus_Asert Consensus_Emission Consensus_Accordion
begin

text \<open>
  The properties of transactions, blocks, proof of work, difficulty, emission and signatures,
  each with a witness at a concrete input where it has hypotheses.
\<close>

unbundle bit_operations_syntax

section \<open>What digests commit to\<close>

definition tx_core :: "tx_body \<Rightarrow> tx_body" where
  "tx_core t = t\<lparr>call := call_core (call t)\<rparr>"

definition tx_root_bytes :: "hash_ext \<Rightarrow> block_body \<Rightarrow> bytes" where
  "tx_root_bytes H b = (str_bytes ''PGtxroot'' @ [0]) @ len32 (txs b) @ concat (map (body_hash H) (txs b))"

definition tx_preimages :: "hash_ext \<Rightarrow> block_body \<Rightarrow> bytes set" where
  "tx_preimages H b = insert (tx_root_bytes H b) (body_bytes ` set (txs b))"

definition witness_root_bytes :: "hash_ext \<Rightarrow> block_body \<Rightarrow> bytes" where
  "witness_root_bytes H b =
     (str_bytes ''PGwitroot'' @ [0]) @ len32 (witnesses b) @ concat (map (witness_digest H) (witnesses b))"

definition witness_preimages :: "hash_ext \<Rightarrow> block_body \<Rightarrow> bytes set" where
  "witness_preimages H b = insert (witness_root_bytes H b) (witness_bytes ` set (witnesses b))"

lemma len32_map [simp]: "len32 (map f xs) = len32 xs"
  by (simp add: len32_def)

lemma tx_root_alt: "tx_root H b = blake3 H (tx_root_bytes H b)"
  by (simp add: tx_root_def vec_root_def tx_root_bytes_def)

lemma witness_root_alt: "witness_root H b = blake3 H (witness_root_bytes H b)"
  by (simp add: witness_root_def vec_root_def witness_root_bytes_def)

text \<open>Two framed digest lists with equal serialisations are the same list of digests.\<close>

lemma digest_list_inj:
  assumes "length xs < 2 ^ 32" "length ys < 2 ^ 32"
    and "\<forall>x \<in> set xs. length (f x) = 32" "\<forall>y \<in> set ys. length (f y) = 32"
    and "tag @ len32 xs @ concat (map f xs) = tag @ len32 ys @ concat (map f ys)"
  shows "map f xs = map f ys"
proof -
  have "len32 xs = len32 ys" "concat (map f xs) = concat (map f ys)" using assms(5) by simp_all
  then have "length xs = length ys" using assms(1,2) by (simp add: len32_inj)
  then show ?thesis
    using concat_fixed_inj [of "map f xs" "map f ys" 32 "[]" "[]"] assms(3,4) \<open>concat _ = _\<close>
    by (simp add: list_all_iff)
qed

lemma map_core_eq:
  assumes "map f xs = map f ys" "\<And>x y. x \<in> set xs \<Longrightarrow> y \<in> set ys \<Longrightarrow> f x = f y \<Longrightarrow> g x = g y"
  shows "map g xs = map g ys"
proof (rule nth_equalityI)
  have len: "length xs = length ys" using assms(1) map_eq_imp_length_eq by blast
  then show "length (map g xs) = length (map g ys)" by simp
  fix i assume "i < length (map g xs)"
  moreover have "f (xs ! i) = f (ys ! i)" if "i < length xs"
    using that assms(1) len by (metis nth_map)
  ultimately show "map g xs ! i = map g ys ! i" using assms(2) len by simp
qed

text \<open>
  The transaction root determines the transactions, up to the parts that no digest covers
  (governance proofs, and the order of a coordinator list).
\<close>

lemma tx_root_core:
  assumes "hash_ok H" "inj_on (blake3 H) (tx_preimages H b \<union> tx_preimages H c)"
    and "length (txs b) < 2 ^ 32" "length (txs c) < 2 ^ 32"
    and "\<forall>t \<in> set (txs b) \<union> set (txs c). tx_wf t"
    and "tx_root H b = tx_root H c"
  shows "map tx_core (txs b) = map tx_core (txs c)"
proof -
  have "tx_root_bytes H b = tx_root_bytes H c"
    by (rule inj_onD [OF assms(2)]) (use assms(6) in \<open>simp_all add: tx_root_alt tx_preimages_def\<close>)
  then have "map (body_hash H) (txs b) = map (body_hash H) (txs c)"
    using assms(1,3,4) unfolding tx_root_bytes_def
    by (intro digest_list_inj) (simp_all add: body_hash_def hash_ok_def)
  then show ?thesis
  proof (rule map_core_eq)
    fix t u assume tu: "t \<in> set (txs b)" "u \<in> set (txs c)" and "body_hash H t = body_hash H u"
    have "body_bytes t = body_bytes u"
      by (rule inj_onD [OF assms(2)])
        (use tu \<open>body_hash H t = body_hash H u\<close> in \<open>simp_all add: body_hash_def tx_preimages_def\<close>)
    then show "tx_core t = tx_core u"
      using body_bytes_core [of t u] tu assms(5) by (simp add: tx_core_def)
  qed
qed

definition demo_upgrade :: "bytes \<Rightarrow> block_body" where
  "demo_upgrade gov_proof =
     \<lparr> txs = [(demo_tx 0 10)\<lparr>call := UpgradeCrypto 5 3 1 gov_proof\<rparr>], witnesses = [demo_witness] \<rparr>"

lemma demo_digest_nth: "i < 32 \<Longrightarrow> i < length bs \<Longrightarrow> blake3 demo_hash bs ! i = bs ! i"
  by (simp add: demo_hash_def nth_append)

lemma demo_upgrade_injective:
  "inj_on (blake3 demo_hash) (tx_preimages demo_hash (demo_upgrade p) \<union> tx_preimages demo_hash (demo_upgrade q))"
proof -
  define t where "t g = (demo_tx 0 10)\<lparr>call := UpgradeCrypto 5 3 1 g\<rparr>" for g
  have b: "body_bytes (t g) = body_bytes (t [])" for g by (simp add: t_def body_bytes_def)
  have r: "tx_root_bytes demo_hash (demo_upgrade g) = tx_root_bytes demo_hash (demo_upgrade [])" for g
    using b [of g] by (simp add: tx_root_bytes_def demo_upgrade_def body_hash_def t_def len32_def)
  have sub: "tx_preimages demo_hash (demo_upgrade g) =
      {tx_root_bytes demo_hash (demo_upgrade []), body_bytes (t [])}" for g
    using r [of g] b [of g] by (simp add: tx_preimages_def demo_upgrade_def t_def)
  have "blake3 demo_hash (tx_root_bytes demo_hash (demo_upgrade [])) ! 4 = 114"
    "blake3 demo_hash (body_bytes (t [])) ! 4 = 98"
    by (simp_all add: demo_digest_nth tx_root_bytes_def body_bytes_def nth_append str_bytes_def)
  then have "blake3 demo_hash (tx_root_bytes demo_hash (demo_upgrade [])) \<noteq> blake3 demo_hash (body_bytes (t []))"
    by auto
  then show ?thesis unfolding sub by auto
qed

text \<open>The witness root determines the witnesses, bytes and keys included.\<close>

lemma witness_root_core:
  assumes "hash_ok H" "inj_on (blake3 H) (witness_preimages H b \<union> witness_preimages H c)"
    and "length (witnesses b) < 2 ^ 32" "length (witnesses c) < 2 ^ 32"
    and "\<forall>w \<in> set (witnesses b) \<union> set (witnesses c). witness_wf w"
    and "witness_root H b = witness_root H c"
  shows "witnesses b = witnesses c"
proof -
  have "witness_root_bytes H b = witness_root_bytes H c"
    by (rule inj_onD [OF assms(2)]) (use assms(6) in \<open>simp_all add: witness_root_alt witness_preimages_def\<close>)
  then have "map (witness_digest H) (witnesses b) = map (witness_digest H) (witnesses c)"
    using assms(1,3,4) unfolding witness_root_bytes_def
    by (intro digest_list_inj) (simp_all add: witness_digest_def hash_ok_def)
  then have "map (\<lambda>w. w) (witnesses b) = map (\<lambda>w. w) (witnesses c)"
  proof (rule map_core_eq)
    fix v w assume vw: "v \<in> set (witnesses b)" "w \<in> set (witnesses c)" and e: "witness_digest H v = witness_digest H w"
    have "witness_bytes v = witness_bytes w"
      by (rule inj_onD [OF assms(2)]) (use vw e in \<open>simp_all add: witness_digest_def witness_preimages_def\<close>)
    then show "v = w" using witness_bytes_inj vw assms(5) by blast
  qed
  then show ?thesis by simp
qed

lemma demo_upgrade_witness_injective:
  "inj_on (blake3 demo_hash) (witness_preimages demo_hash (demo_upgrade p) \<union> witness_preimages demo_hash (demo_upgrade q))"
proof -
  have eq: "witness_preimages demo_hash (demo_upgrade p) =
      {witness_root_bytes demo_hash (demo_upgrade []), witness_bytes demo_witness}" for p
    by (simp add: witness_preimages_def witness_root_bytes_def demo_upgrade_def)
  have "blake3 demo_hash (witness_root_bytes demo_hash (demo_upgrade [])) ! 5 = 114"
    "blake3 demo_hash (witness_bytes demo_witness) ! 5 = 0"
    by (simp_all add: demo_digest_nth witness_root_bytes_def witness_bytes_def nth_append str_bytes_def)
  then have "blake3 demo_hash (witness_root_bytes demo_hash (demo_upgrade [])) \<noteq>
      blake3 demo_hash (witness_bytes demo_witness)" by auto
  then show ?thesis unfolding eq by auto
qed

text \<open>
  Claim C15. A block hash commits to the whole block: if the hash does not collide on the preimages
  involved, two blocks with the same hash, whose headers carry the roots of their bodies, have the
  same header (state root, coinbase and nonce included), the same witnesses, and the same
  transactions up to the parts that no digest covers (governance proofs, and the order of a
  coordinator list).
\<close>

theorem block_hash_commits:
  assumes "hash_ok H" "hash_header H (header b) = hash_header H (header c)"
    and "inj_on (\<lambda>m. truncate_to_32 (hash_with_domain H Blake3Xof512 ''hdr'' m))
      {header_preimage (header b), header_preimage (header c)}"
    and "inj_on (blake3 H) (tx_preimages H (body b) \<union> tx_preimages H (body c))"
    and "inj_on (blake3 H) (witness_preimages H (body b) \<union> witness_preimages H (body c))"
    and "\<forall>x \<in> {b, c}. header_wf (header x) \<and> hdr_tx_root (header x) = tx_root H (body x) \<and>
      hdr_witness_root (header x) = witness_root H (body x) \<and>
      length (txs (body x)) < 2 ^ 32 \<and> length (witnesses (body x)) < 2 ^ 32 \<and>
      (\<forall>t \<in> set (txs (body x)). tx_wf t) \<and> (\<forall>w \<in> set (witnesses (body x)). witness_wf w)"
  shows "header b = header c \<and> map tx_core (txs (body b)) = map tx_core (txs (body c)) \<and>
    witnesses (body b) = witnesses (body c)"
proof -
  have "header_preimage (header b) = header_preimage (header c)"
    by (rule inj_onD [OF assms(3)]) (use assms(2) in \<open>simp_all add: hash_header_def\<close>)
  then have h: "header b = header c" using header_preimage_inj assms(6) by blast
  have "map tx_core (txs (body b)) = map tx_core (txs (body c))"
    by (rule tx_root_core [OF assms(1,4)]) (use assms(6) h in auto)
  moreover have "witnesses (body b) = witnesses (body c)"
    by (rule witness_root_core [OF assms(1,5)]) (use assms(6) h in auto)
  ultimately show ?thesis using h by blast
qed

definition demo_sealed :: "bytes \<Rightarrow> block" where
  "demo_sealed p = \<lparr> header = demo_header\<lparr>hdr_tx_root := tx_root demo_hash (demo_upgrade p),
     hdr_witness_root := witness_root demo_hash (demo_upgrade p)\<rparr>, body = demo_upgrade p \<rparr>"

theorem block_hash_commits_witness:
  "header (demo_sealed [1]) = header (demo_sealed [2]) \<and>
   map tx_core (txs (demo_upgrade [1])) = map tx_core (txs (demo_upgrade [2])) \<and>
   txs (demo_upgrade [1]) \<noteq> txs (demo_upgrade [2])"
proof -
  have "tx_root demo_hash (demo_upgrade [1]) = tx_root demo_hash (demo_upgrade [2])"
    "witness_root demo_hash (demo_upgrade [1]) = witness_root demo_hash (demo_upgrade [2])"
    by (simp_all add: tx_root_def witness_root_def demo_upgrade_def body_hash_def body_bytes_def)
  note r = this
  then have h: "header (demo_sealed [1]) = header (demo_sealed [2])" by (simp add: demo_sealed_def)
  have l: "length (blake3 demo_hash m) = 32" for m using demo_hash_ok by (simp add: hash_ok_def)
  have wf: "header_wf (header (demo_sealed p)) \<and> hdr_tx_root (header (demo_sealed p)) = tx_root demo_hash (body (demo_sealed p)) \<and>
      hdr_witness_root (header (demo_sealed p)) = witness_root demo_hash (body (demo_sealed p)) \<and>
      length (txs (body (demo_sealed p))) < 2 ^ 32 \<and> length (witnesses (body (demo_sealed p))) < 2 ^ 32 \<and>
      (\<forall>t \<in> set (txs (body (demo_sealed p))). tx_wf t) \<and> (\<forall>w \<in> set (witnesses (body (demo_sealed p))). witness_wf w)" for p
    by (simp add: demo_sealed_def header_wf_def demo_header_def length_pad_to_32 tx_root_alt witness_root_alt l
        demo_upgrade_def tx_wf_def demo_tx_def length_demo_ids witness_digest_def demo_witness_def alice_pk_def)
  have "header (demo_sealed [1]) = header (demo_sealed [2]) \<and>
      map tx_core (txs (body (demo_sealed [1]))) = map tx_core (txs (body (demo_sealed [2]))) \<and>
      witnesses (body (demo_sealed [1])) = witnesses (body (demo_sealed [2]))"
    by (rule block_hash_commits [OF demo_hash_ok])
      (use h wf r in \<open>simp_all add: demo_sealed_def demo_upgrade_injective demo_upgrade_witness_injective\<close>)
  then show ?thesis using h by (simp add: demo_sealed_def) (simp add: demo_upgrade_def demo_tx_def)
qed

section \<open>Proof of work and difficulty\<close>

text \<open>
  Claim C24. Compact bits are a faithful short form of a target: encoding and decoding a target
  that is positive and below \<open>2 ^ 255\<close> never makes it easier and loses less than one part in \<open>2 ^ 15\<close>, and canonical
  bits (an exponent from 3 to 32 and a mantissa from \<open>2 ^ 15\<close> up to \<open>2 ^ 23\<close>) survive decoding and encoding unchanged.
\<close>

theorem compact_bits_faithful:
  assumes "length t = 32" "0 < be_nat t" "be_nat t < 2 ^ 255"
    and "3 \<le> e" "e \<le> 32" "2 ^ 15 \<le> unat m" "unat m < 2 ^ 23"
  shows "be_nat (target_from_bits (bits_from_target t)) \<le> be_nat t \<and>
    (be_nat t - be_nat (target_from_bits (bits_from_target t))) * 2 ^ 15 < be_nat t \<and>
    bits_from_target (target_from_bits (push_bit 24 (of_nat e) OR (m AND 0x007fffff))) =
      push_bit 24 (of_nat e) OR (m AND 0x007fffff)"
  using compact_close [OF assms(1) _ assms(3)] assms(2) bits_roundtrip [OF assms(4-7)] by blast

theorem compact_bits_faithful_witness:
  "be_nat (target_from_bits (bits_from_target (replicate 31 0 @ [1]))) \<le> be_nat (replicate 31 0 @ [1]) \<and>
    bits_from_target (target_from_bits (push_bit 24 (of_nat 31) OR (0xffff AND 0x007fffff))) =
      push_bit 24 (of_nat 31) OR (0xffff AND 0x007fffff)"
  using compact_bits_faithful [of "replicate 31 0 @ [1]" 31 "0xffff"]
  by (simp add: be_nat_append be_nat_Cons)

lemma target_genesis_bits: "target_from_bits 0x1f00ffff = replicate 2 0 @ [0xff, 0xff] @ replicate 28 0"
proof -
  have "target_from_bits (push_bit 24 (of_nat 31) OR ((0xffff :: u32) AND 0x007fffff)) =
      take 32 (replicate (32 - 31) 0 @ [0, 0xff, 0xff] @ replicate 32 0)"
    by (rule target_of_packed) simp_all
  then show ?thesis by (simp add: eval_nat_numeral)
qed

lemma genesis_bits_ok: "bits_ok 0x1f00ffff"
  by (simp add: bits_ok_def hi_nat_def target_genesis_bits be_nat_append be_nat_Cons)

lemma genesis_bits_canonical: "bits_canonical 0x1f00ffff"
  using bits_roundtrip [of 31 "0xffff"] by (simp add: bits_canonical_def)

text \<open>
  Claim C16. The difficulty never gets stuck and never jumps: from bits in range, the next block's
  bits are always defined (no \<open>clamp\<close> panics), whatever the timestamps, heights and parameters, and
  they are again in range and canonical. One retarget of canonical bits moves the upper half of the
  target by at most eight percent (up to the precision of the compact form); a block that is early
  or on time never lowers the difficulty, and a block exactly on schedule leaves the bits unchanged.
\<close>

theorem difficulty_bounded:
  assumes "bits_ok b"
  shows "\<exists>b'. next_bits_from_parent b h pts nts tb bh btau tau = Some b' \<and> bits_ok b' \<and> bits_canonical b' \<and>
    (bits_canonical b \<and> unat h + 1 < 2 ^ 64 \<and> tau_for h bh btau tau \<noteq> 0 \<longrightarrow>
       hi_nat (target_from_bits b') \<le> hi_nat (target_from_bits b) * 108 div 100 \<and>
       hi_nat (target_from_bits b) * 100 div 108 * (2 ^ 15 - 1) \<le> (hi_nat (target_from_bits b') + 1) * 2 ^ 15 \<and>
       (drift_ms pts nts tb \<le> 0 \<longrightarrow> be_nat (target_from_bits b') \<le> be_nat (target_from_bits b)) \<and>
       (drift_ms pts nts tb = 0 \<longrightarrow> b' = b))"
proof -
  obtain b' where b': "next_bits_from_parent b h pts nts tb bh btau tau = Some b'" "bits_ok b'" "bits_canonical b'"
    using next_bits_ok [OF assms] by metis
  show ?thesis
  proof (intro exI conjI impI)
    assume g: "bits_canonical b \<and> unat h + 1 < 2 ^ 64 \<and> tau_for h bh btau tau \<noteq> 0"
    obtain c where c: "next_bits_from_parent b h pts nts tb bh btau tau = Some c"
      "hi_nat (target_from_bits c) \<le> hi_nat (target_from_bits b) * 108 div 100"
      "hi_nat (target_from_bits b) * 100 div 108 * (2 ^ 15 - 1) \<le> (hi_nat (target_from_bits c) + 1) * 2 ^ 15"
      "drift_ms pts nts tb \<le> 0 \<longrightarrow> be_nat (target_from_bits c) \<le> be_nat (target_from_bits b)"
      "drift_ms pts nts tb = 0 \<longrightarrow> c = b"
      by (rule next_bits_band [OF assms conjunct1 [OF g] conjunct1 [OF conjunct2 [OF g]] conjunct2 [OF conjunct2 [OF g]]]) blast
    have e: "c = b'" using b'(1) c(1) by simp
    note c' = c(2-5) [unfolded e]
    show "hi_nat (target_from_bits b') \<le> hi_nat (target_from_bits b) * 108 div 100" by (rule c')
    show "hi_nat (target_from_bits b) * 100 div 108 * (2 ^ 15 - 1) \<le> (hi_nat (target_from_bits b') + 1) * 2 ^ 15" by (rule c')
    show "drift_ms pts nts tb \<le> 0 \<Longrightarrow> be_nat (target_from_bits b') \<le> be_nat (target_from_bits b)" by (rule mp [OF c'(3)])
    show "drift_ms pts nts tb = 0 \<Longrightarrow> b' = b" using c'(4) e by simp
  qed (rule b')+
qed

theorem difficulty_bounded_witness:
  "next_bits_from_parent 0x1f00ffff 5 1000 601000 600000 2016 3600000 172800000 = Some 0x1f00ffff"
  using difficulty_bounded [OF genesis_bits_ok, of 5 1000 601000 600000 2016 3600000 172800000] genesis_bits_canonical
  by (auto simp: tau_for_def drift_ms_def)

text \<open>
  Claim C18. The 256-bit retarget is exact: the limb-wise product and long division compute
  \<open>old * timespan / expected\<close> in natural-number arithmetic, with the timespan held within a
  factor of four of the expected one, saturating at the largest target.
\<close>

theorem retarget_is_exact:
  assumes "length t = 32" "expected \<noteq> 0"
  shows "\<exists>t'. bitcoin_retarget t actual expected = Some t' \<and> length t' = 32 \<and>
    be_nat t' = min (be_nat t * used_timespan (unat actual) (unat expected) div unat expected) (2 ^ 256 - 1)"
  using assms by (rule bitcoin_retarget_exact)

theorem retarget_is_exact_witness:
  "\<exists>t'. bitcoin_retarget (replicate 31 0 @ [10]) 1000 100 = Some t' \<and> be_nat t' = 40"
  using retarget_is_exact [of "replicate 31 0 @ [10]" 100 1000]
  by (auto simp: used_timespan_def be_nat_append be_nat_Cons)

section \<open>Emission\<close>

text \<open>
  Claim C17. Emission follows the calendar: the scheduled supply never decreases with time and never
  exceeds the cap, for every choice of parameters, and the reward of a block is always defined. Without
  a previous reward it exceeds neither the part of the schedule not yet minted nor the nominal reward
  of the epoch; after a positive reward it stays within the slew percentage of it. In particular the
  slew limit traps small rewards: once the slew percentage of a reward is less than one unit (at 25
  percent: one, two or three units), the next reward does not exceed it, however much of the schedule
  is left.
\<close>

theorem reward_limits:
  assumes "g < ts" "t \<le> t'"
  shows "unat (scheduled_supply_at t p) \<le> unat (scheduled_supply_at t' p) \<and>
    unat (scheduled_supply_at t' p) \<le> unat (supply_cap_sat p) \<and>
    (\<exists>r. current_reward_with_height p g ts pts m h prev = Some r \<and>
      (prev_nat prev = 0 \<longrightarrow> unat r \<le> unat (scheduled_supply_at (ts - g) p) - unat m \<and>
         unat r \<le> unat (epoch_reward_at p (ts - g))) \<and>
      (0 < prev_nat prev \<longrightarrow>
         min (prev_nat prev * (100 - slew_pct p)) (2 ^ 128 - 1) div 100 \<le> unat r \<and>
         unat r \<le> min (prev_nat prev * (100 + slew_pct p)) (2 ^ 128 - 1) div 100 \<and>
         (prev_nat prev * slew_pct p < 100 \<longrightarrow> unat r \<le> prev_nat prev)))"
proof -
  have "min (q * (100 + s)) (2 ^ 128 - 1) div 100 \<le> q" if "q * s < 100" for q s :: nat
  proof -
    have "q * (100 + s) = q * s + q * 100" by (simp add: algebra_simps)
    then have "q * (100 + s) div 100 = q" using that by simp
    moreover have "min (q * (100 + s)) (2 ^ 128 - 1) div 100 \<le> q * (100 + s) div 100" by (intro div_le_mono) simp
    ultimately show ?thesis by simp
  qed
  note trapped = this [of "prev_nat prev" "slew_pct p"]
  have "\<exists>r. current_reward_with_height p g ts pts m h prev = Some r \<and>
      (prev_nat prev = 0 \<longrightarrow> unat r \<le> unat (scheduled_supply_at (ts - g) p) - unat m \<and>
         unat r \<le> unat (epoch_reward_at p (ts - g))) \<and>
      (0 < prev_nat prev \<longrightarrow>
         min (prev_nat prev * (100 - slew_pct p)) (2 ^ 128 - 1) div 100 \<le> unat r \<and>
         unat r \<le> min (prev_nat prev * (100 + slew_pct p)) (2 ^ 128 - 1) div 100 \<and>
         (prev_nat prev * slew_pct p < 100 \<longrightarrow> unat r \<le> prev_nat prev))"
    using reward_bounds [OF assms(1), of p pts m h prev] le_trans [OF _ trapped] by metis
  then show ?thesis by (intro conjI scheduled_supply_mono [OF assms(2)] scheduled_supply_cap)
qed

theorem reward_limits_witness:
  "unat (scheduled_supply_at 600000 bitcoin_like) \<le> unat (scheduled_supply_at 1200000 bitcoin_like) \<and>
   (\<exists>r. current_reward_with_height bitcoin_like 0 600000 0 0 5000 (Some 1000) = Some r \<and> 750 \<le> unat r \<and> unat r \<le> 1250) \<and>
   (\<exists>r. current_reward_with_height bitcoin_like 0 600000 0 0 5000 (Some 3) = Some r \<and> unat r \<le> 3)"
  using reward_limits [of 0 600000 600000 1200000 bitcoin_like 0 0 5000 "Some 1000"]
    reward_limits [of 0 600000 600000 1200000 bitcoin_like 0 0 5000 "Some 3"]
  by (simp add: prev_nat_def slew_pct_def bitcoin_like_def) blast

section \<open>Signatures\<close>

text \<open>
  Claim C23. Key generation, signing and verifying agree: under correct schemes and generators,
  whatever build features are on, a signature the dispatcher produces with a secret key is accepted
  by the dispatcher under the verifying key of that secret key, which is the one key generation
  returned with it; and every signature the dispatcher accepts, whoever made it and under whatever key, has exactly
  the declared key and signature sizes of its algorithm.
\<close>

theorem sign_then_verify:
  assumes "crypto_ok X" "keygen_ok X" "sign X rng algo sk msg = Inr sg"
  shows "verify X algo (pk_for X algo sk) sg msg = Inr () \<and>
    sizes algo = Some (length (pk_for X algo sk), length sg) \<and>
    (\<forall>pk. generated X algo (sk, pk) \<longrightarrow> verify X algo pk sg msg = Inr ()) \<and>
    (\<forall>a pk s m. verify X a pk s m = Inr () \<longrightarrow> sizes a = Some (length pk, length s))"
proof (intro conjI allI impI)
  show v: "verify X algo (pk_for X algo sk) sg msg = Inr ()" using sign_verify [OF assms(1,3)] .
  then show "sizes algo = Some (length (pk_for X algo sk), length sg)" using verify_sizes by blast
  show "verify X algo pk sg msg = Inr ()" if "generated X algo (sk, pk)" for pk
    using generated_key [OF assms(2) that] v by simp
  show "sizes a = Some (length pk, length s)" if "verify X a pk s m = Inr ()" for a pk s m
    using that by (rule verify_sizes)
qed

theorem sign_then_verify_witness:
  "let (sk, pk) = ed25519_keypair demo_crypto (replicate 32 5) in
     sign demo_crypto [] 3 sk [1] = Inr (replicate 64 0) \<and> verify demo_crypto 3 pk (replicate 64 0) [1] = Inr () \<and>
     sizes 3 = Some (length pk, 64) \<and> (\<forall>s m. verify demo_crypto 3 alice_pk s m = Inr () \<longrightarrow> length s = 64)"
proof -
  obtain sk pk where kp: "ed25519_keypair demo_crypto (replicate 32 5) = (sk, pk)" by fastforce
  then have sk: "length sk = 32"
    by (auto simp: ed25519_keypair_def demo_crypto_def crypto_lens Let_def)
  then have sg: "sign demo_crypto [] 3 sk [1] = Inr (replicate 64 0)"
    by (simp add: sign_def ed25519_sign_def demo_crypto_def demo_scheme_def crypto_lens)
  note T = sign_then_verify [OF demo_crypto_ok demo_keygen_ok sg]
  have v: "verify demo_crypto 3 pk (replicate 64 0) [1] = Inr ()"
    using T gen_ed25519 [of demo_crypto "replicate 32 5"] by (simp add: kp)
  then have pk: "sizes 3 = Some (length pk, length (replicate 64 (0 :: u8)))" using T by blast
  have "length s = 64" if "verify demo_crypto 3 alice_pk s m = Inr ()" for s m
  proof -
    have "sizes 3 = Some (length alice_pk, length s)" using T that by blast
    then show ?thesis by (simp add: sizes_def crypto_lens)
  qed
  then show ?thesis using sg v pk by (simp add: kp)
qed

section \<open>The accordion controller\<close>

text \<open>
  Claim C19. The accordion controller stays within its limits: for all ratios below \<open>2 ^ 61\<close> and
  non-negative weights below \<open>2 ^ 36\<close>, the damping factor lies in \<open>(0, 1]\<close>, and the advance per block is exactly one in equilibrium, at least one in growth and in
  \<open>(0, 1]\<close> in contraction, whatever the stability bias. Two ratios of at least one are never a
  contraction, two ratios of at most one never growth, and two ratios of one are an equilibrium.
\<close>

theorem accordion_bounds:
  fixes bias :: i8
  assumes F: "fixed_ok F" and p: "params_ok F p" "0 \<le> fx_bits F (epsilon p)"
    and r: "fx_bits F r_h \<le> 2 ^ 125" "fx_bits F r_a \<le> 2 ^ 125"
  defines "out \<equiv> evaluate F p r_h r_a bias"
  shows "0 < fx_bits F (ao_alpha_h out) \<and> fx_bits F (ao_alpha_h out) \<le> unit64 \<and>
    (case ao_regime out of
       Equilibrium \<Rightarrow> fx_bits F (ao_per_block_advance out) = unit64
     | Growth \<Rightarrow> unit64 \<le> fx_bits F (ao_per_block_advance out)
     | Contraction \<Rightarrow> 0 < fx_bits F (ao_per_block_advance out) \<and> fx_bits F (ao_per_block_advance out) \<le> unit64) \<and>
    (unit64 \<le> fx_bits F r_h \<and> unit64 \<le> fx_bits F r_a \<longrightarrow> ao_regime out \<noteq> Contraction) \<and>
    (fx_bits F r_h \<le> unit64 \<and> fx_bits F r_a \<le> unit64 \<longrightarrow> ao_regime out \<noteq> Growth)"
proof -
  let ?lh = "ln_fixed F r_h" and ?la = "ln_fixed F r_a" and ?b = "fx_from_int F (sint bias)"
  note h = ln_fixed_bounds [OF F r(1)] and a = ln_fixed_bounds [OF F r(2)]
  have o: "ao_regime out = regime_of F p ?lh ?la" "ao_alpha_h out = fx_div F (fx_from_int F 1) (fx_add F (fx_from_int F 1) (fx_abs F ?lh))"
    "ao_per_block_advance out = (case regime_of F p ?lh ?la of Equilibrium \<Rightarrow> fx_from_int F 1
       | Growth \<Rightarrow> growth_advance F p ?lh ?la ?b | Contraction \<Rightarrow> contraction_advance F p ?lh ?la ?b)"
    by (simp_all add: out_def evaluate_def Let_def)
  have "case ao_regime out of
       Equilibrium \<Rightarrow> fx_bits F (ao_per_block_advance out) = unit64
     | Growth \<Rightarrow> unit64 \<le> fx_bits F (ao_per_block_advance out)
     | Contraction \<Rightarrow> 0 < fx_bits F (ao_per_block_advance out) \<and> fx_bits F (ao_per_block_advance out) \<le> unit64"
    using small_bits(2) [OF F] growth_at_least_one [OF F] contraction_bounds [OF F p(1) h(1) a(1) bias_bits [OF F]]
    unfolding o by (cases "regime_of F p ?lh ?la") simp_all
  moreover have "0 < fx_bits F (ao_alpha_h out)" "fx_bits F (ao_alpha_h out) \<le> unit64"
    unfolding o by (rule alpha_bounds [OF F h(1)])+
  moreover have "unit64 \<le> fx_bits F r_h \<Longrightarrow> unit64 \<le> fx_bits F r_a \<Longrightarrow> ao_regime out \<noteq> Contraction"
    unfolding o using h(2) a(2) by (intro regime_sides(1) [OF F h(1) a(1)])
  moreover have "fx_bits F r_h \<le> unit64 \<Longrightarrow> fx_bits F r_a \<le> unit64 \<Longrightarrow> ao_regime out \<noteq> Growth"
    unfolding o using h(3) a(3) p(2) by (intro regime_sides(2) [OF F h(1) a(1)])
  ultimately show ?thesis by blast
qed

theorem accordion_bounds_witness:
  "let ev = \<lambda>r. evaluate int_fixed (accordion_defaults int_fixed) r r (- 1) in
   0 < ao_alpha_h (ev (2 ^ 64)) \<and> ao_alpha_h (ev (2 ^ 64)) \<le> unit64 \<and> ao_regime (ev (2 ^ 64)) = Equilibrium \<and>
   ao_per_block_advance (ev (2 ^ 64)) = unit64 \<and>
   ao_regime (ev (2 ^ 65)) \<noteq> Contraction \<and> unit64 \<le> ao_per_block_advance (ev (2 ^ 65)) \<and>
   ao_regime (ev (2 ^ 63)) \<noteq> Growth \<and> 0 < ao_per_block_advance (ev (2 ^ 63)) \<and> ao_per_block_advance (ev (2 ^ 63)) \<le> unit64"
proof -
  let ?p = "accordion_defaults int_fixed"
  let ?ev = "\<lambda>r. evaluate int_fixed ?p r r (- 1)"
  have p: "params_ok int_fixed ?p" "0 \<le> fx_bits int_fixed (epsilon ?p)"
    by (simp_all add: params_ok_def accordion_defaults_def int_fixed_def)
  have b: "fx_bits int_fixed x = x" for x by (simp add: int_fixed_def)
  have T: "0 < ao_alpha_h (?ev r) \<and> ao_alpha_h (?ev r) \<le> unit64 \<and>
      (case ao_regime (?ev r) of
         Equilibrium \<Rightarrow> ao_per_block_advance (?ev r) = unit64
       | Growth \<Rightarrow> unit64 \<le> ao_per_block_advance (?ev r)
       | Contraction \<Rightarrow> 0 < ao_per_block_advance (?ev r) \<and> ao_per_block_advance (?ev r) \<le> unit64) \<and>
      (unit64 \<le> r \<longrightarrow> ao_regime (?ev r) \<noteq> Contraction) \<and> (r \<le> unit64 \<longrightarrow> ao_regime (?ev r) \<noteq> Growth)" if "r \<le> 2 ^ 125" for r
    using accordion_bounds [OF int_fixed_ok p, of r r "- 1"] that unfolding b by simp
  have "0 < ao_alpha_h (?ev (2 ^ 64)) \<and> ao_alpha_h (?ev (2 ^ 64)) \<le> unit64 \<and> ao_regime (?ev (2 ^ 64)) = Equilibrium \<and>
      ao_per_block_advance (?ev (2 ^ 64)) = unit64"
    using T [of "2 ^ 64"] by (cases "ao_regime (?ev (2 ^ 64))") simp_all
  moreover have "ao_regime (?ev (2 ^ 65)) \<noteq> Contraction \<and> unit64 \<le> ao_per_block_advance (?ev (2 ^ 65))"
    using T [of "2 ^ 65"] by (cases "ao_regime (?ev (2 ^ 65))") simp_all
  moreover have "ao_regime (?ev (2 ^ 63)) \<noteq> Growth \<and> 0 < ao_per_block_advance (?ev (2 ^ 63)) \<and> ao_per_block_advance (?ev (2 ^ 63)) \<le> unit64"
    using T [of "2 ^ 63"] by (cases "ao_regime (?ev (2 ^ 63))") simp_all
  ultimately show ?thesis unfolding Let_def by blast
qed

end
