(* ===== verification/State_Attest.thy ===== *)
theory State_Attest
  imports State_Rules
begin

text \<open>
  The attestation registry of \<open>crates/state/src/apply.rs\<close>: who may write attestation and pedigree
  records, and who may change the list of coordinators of a job. The records live in the \<open>Attest\<close>
  subtree, the lists in \<open>Meta\<close>.
\<close>

section \<open>Calls\<close>

text \<open>The job, key and bytes of the record that a call of \<open>from\<close> stores, if it stores one.\<close>

definition attested :: "ext \<Rightarrow> block_header \<Rightarrow> account_id \<Rightarrow> tx_call \<Rightarrow> (bytes \<times> bytes \<times> bytes) option" where
  "attested X hdr from c =
     (case c of
        AttestRound job_id round_id model_hash eps \<Rightarrow>
          map_option (\<lambda>b. (job_id, attest_key job_id round_id, b))
            (enc (attest_c (kx X)) \<lparr> ar_job_id = job_id, ar_round_id = round_id, ar_model_hash = model_hash,
               ar_dp_epsilon_milli = eps, ar_coordinator = from, ar_block_height = height hdr, ar_block_timestamp_ms = timestamp_ms hdr \<rparr>)
      | AttestPedigree job_id lot_id supplier cage_code authority \<Rightarrow>
          if is_valid_cage cage_code then
            map_option (\<lambda>b. (job_id, pedigree_key job_id lot_id, b))
              (enc (pedigree_c (kx X)) \<lparr> pr_job_id = job_id, pr_lot_id = lot_id, pr_supplier = supplier, pr_cage_code = cage_code,
                 pr_attestation_authority = authority, pr_attester = from, pr_block_height = height hdr,
                 pr_block_timestamp_ms = timestamp_ms hdr \<rparr>)
          else None
      | _ \<Rightarrow> None)"

definition registers :: "bytes \<Rightarrow> tx_call \<Rightarrow> bool" where
  "registers job c \<longleftrightarrow> (\<exists>cs g. c = RegisterAttestCoordinator job cs g)"

definition sets_governance :: "tx_call \<Rightarrow> bool" where
  "sets_governance c \<longleftrightarrow> (\<exists>cbor g. c = SetGovernance cbor g)"

text \<open>
  The \<open>k\<close>-th transaction of a block is signed: its witness is the committed one and carries a
  valid signature under a key that derives the sender.
\<close>

definition signed_tx :: "ext \<Rightarrow> block \<Rightarrow> nat \<Rightarrow> bool" where
  "signed_tx X blk k \<longleftrightarrow>
     (let tx = txs (body blk) ! k; w = witnesses (body blk) ! k in
      witness_digest (hx X) w = witness_hash tx \<and>
      (\<exists>pkb. from_pubkey (hx X) pkb = from_account tx \<and>
         verify (cx X) (wit_sig_algo w) pkb (wit_sig w) (signing_hash (hx X) tx) = Inr ()))"

lemma validated_signed:
  assumes "validate_all ops X s (witnesses (body blk)) 0 (txs (body blk)) 0 = Inr p"
    and "keys_ok (hx X) (load_or_default ops X s)" "k < length (txs (body blk))"
  shows "signed_tx X blk k"
proof -
  obtain fees staged where p: "p = (fees, staged)" by (cases p)
  have v: "witness_digest (hx X) (witnesses (body blk) ! k) = witness_hash (txs (body blk) ! k)"
    "validate_tx ops X k s (txs (body blk) ! k) (witnesses (body blk) ! k) = Inr (staged ! k)"
    using validate_all_Inr [OF assms(1) [unfolded p]] assms(3) by simp_all
  show ?thesis
    using v(1) validate_tx_Inr(9) [OF v(2)] witness_pubkey_derives [OF validate_tx_Inr(8) [OF v(2)] assms(2)]
    by (auto simp: signed_tx_def Let_def)
qed

section \<open>The registry of a store\<close>

text \<open>The parts of a store that attestations depend on.\<close>

definition registry :: "'s store_ops \<Rightarrow> 's \<Rightarrow> (bytes \<Rightarrow> bytes option) \<times> (bytes \<Rightarrow> bytes option) \<times> bytes option" where
  "registry ops s =
     (st_get ops s Attest, \<lambda>j. st_get ops s Meta (attest_auth_key j), st_get ops s Meta (str_bytes ''governance''))"

lemma registry_eqD:
  assumes "registry ops s' = registry ops s"
  shows "st_get ops s' Attest = st_get ops s Attest" "load_attest_authority ops X s' = load_attest_authority ops X s"
    "load_governance ops X s' = load_governance ops X s"
proof -
  have "st_get ops s' Meta (attest_auth_key j) = st_get ops s Meta (attest_auth_key j)" for j
    using assms by (simp add: registry_def fun_eq_iff)
  then show "load_attest_authority ops X s' = load_attest_authority ops X s"
    by (simp add: load_attest_authority_def fun_eq_iff)
qed (use assms in \<open>simp_all add: registry_def load_governance_def\<close>)

lemma auth_key_neq:
  "attest_auth_key j \<noteq> str_bytes ''upgrade_crypto''" "attest_auth_key j \<noteq> str_bytes ''active_crypto''"
  "attest_auth_key j = attest_auth_key j' \<longleftrightarrow> j = j'"
  by (simp_all add: attest_auth_key_def str_bytes_def)

context state_store
begin

lemma registry_put:
  assumes "inv s" "sub = Accounts \<or> sub = Reflect \<or> sub = Meta \<and> k \<in> {str_bytes ''upgrade_crypto'', str_bytes ''active_crypto''}"
  shows "registry ops (st_put ops s sub k v) = registry ops s"
  using assms auth_key_neq gov_key_neq by (auto simp: registry_def get_put fun_eq_iff)

lemma registry_save: "inv s \<Longrightarrow> registry ops (save ops X s i a) = registry ops s"
  by (simp add: save_def registry_put)

lemma apply_all_registry:
  "inv s \<Longrightarrow> apply_all ops X s ts = (e, s') \<Longrightarrow> inv s' \<and> registry ops s' = registry ops s"
proof (induction ts arbitrary: s)
  case (Cons t ts)
  show ?case
  proof (cases "apply_staged ops X s t")
    case (Inl e')
    then show ?thesis using Cons.prems by simp
  next
    case (Inr s1)
    then have "inv s1 \<and> registry ops s1 = registry ops s"
      using Cons.prems(1) by (auto simp: apply_staged_def Let_def registry_save inv_save split: if_splits option.splits)
    with Cons.IH [of s1] Cons.prems Inr show ?thesis by simp
  qed
qed simp

lemma finish_registry:
  assumes "inv s" "finish_block ops X s blk fees m = (r, s')"
  shows "inv s' \<and> registry ops s' = registry ops s"
proof -
  have act: "inv (activate_crypto ops X h u) \<and> registry ops (activate_crypto ops X h u) = registry ops u" if "inv u" for h u
    using that by (auto simp: activate_crypto_def inv_put registry_put split: option.splits sum.splits)
  have rt: "registry ops (snd (st_root ops u)) = registry ops u" if "inv u" for u
    using that by (simp add: registry_def get_root)
  show ?thesis
    using assms by (auto simp: finish_block_def Let_def split_beta act rt inv_put inv_root registry_put split: option.splits)
qed

lemma pay_coinbase_registry:
  "inv s \<Longrightarrow> pay_coinbase ops X hdr r fees s = Inr (m, s') \<Longrightarrow> inv s' \<and> registry ops s' = registry ops s"
  by (auto simp: pay_coinbase_def Let_def inv_save registry_save split: option.splits)

text \<open>One call.\<close>

lemma tx_effect_inv: "inv s \<Longrightarrow> tx_effect ops X hdr i from c s = Inr s1 \<Longrightarrow> inv s1"
  using tx_effect_ledger by blast

lemma apply_effects_inv: "inv s \<Longrightarrow> apply_effects ops X hdr i ts s = (e, s') \<Longrightarrow> inv s'"
  by (induction ts arbitrary: i s) (auto split: sum.splits dest: tx_effect_inv)

lemma tx_effect_attest:
  assumes "inv s" "tx_effect ops X hdr i from c s = Inr s1" "st_get ops s1 Attest k \<noteq> st_get ops s Attest k"
  shows "\<exists>job b. attested X hdr from c = Some (job, k, b) \<and> st_get ops s1 Attest k = Some b \<and> \<not> coordinator_refused ops X s job from"
  using assms
  by (cases c)
    (auto simp: attested_def attest_round_effect_def register_coordinator_effect_def attest_pedigree_effect_def
      upgrade_crypto_effect_def set_governance_effect_def put_record_def get_put split: sum.splits option.splits if_splits)

lemma tx_effect_authority:
  assumes "inv s" "tx_effect ops X hdr i from c s = Inr s1" "load_attest_authority ops X s1 job \<noteq> load_attest_authority ops X s job"
  shows "\<exists>cs g. c = RegisterAttestCoordinator job cs g \<and> gov_gate ops X s i g (register_attest_gov_payload (hx X) job cs) = Inr ()"
  using assms auth_key_neq gov_key_neq
  by (cases c)
    (auto simp: load_attest_authority_def attest_round_effect_def register_coordinator_effect_def attest_pedigree_effect_def
      upgrade_crypto_effect_def set_governance_effect_def put_record_def get_put split: sum.splits option.splits if_splits)

lemma tx_effect_same_governance:
  assumes "inv s" "tx_effect ops X hdr i from c s = Inr s1" "\<not> sets_governance c"
  shows "load_governance ops X s1 = load_governance ops X s"
  using assms gov_key_neq gov_key_neq [THEN not_sym]
  by (cases c)
    (auto simp: sets_governance_def load_governance_def attest_round_effect_def register_coordinator_effect_def attest_pedigree_effect_def
      upgrade_crypto_effect_def put_record_def get_put split: sum.splits option.splits if_splits)

text \<open>All calls of a block.\<close>

lemma apply_effects_attest:
  assumes "inv s" "apply_effects ops X hdr i ts s = (e, s')" "st_get ops s' Attest k \<noteq> st_get ops s Attest k"
  shows "\<exists>tx \<in> set ts. \<exists>job b. attested X hdr (from_account tx) (call tx) = Some (job, k, b) \<and> st_get ops s' Attest k = Some b \<and>
    ((\<forall>u \<in> set ts. \<not> registers job (call u)) \<longrightarrow> \<not> coordinator_refused ops X s job (from_account tx))"
  using assms
proof (induction ts arbitrary: i s)
  case (Cons t ts)
  show ?case
  proof (cases "tx_effect ops X hdr i (from_account t) (call t) s")
    case (Inl e')
    then show ?thesis using Cons.prems by simp
  next
    case (Inr s1)
    have r: "inv s1" "apply_effects ops X hdr (Suc i) ts s1 = (e, s')"
      using Cons.prems(1,2) Inr tx_effect_inv by auto
    show ?thesis
    proof (cases "st_get ops s' Attest k = st_get ops s1 Attest k")
      case True
      then show ?thesis using tx_effect_attest [OF Cons.prems(1) Inr, of k] Cons.prems(3) by force
    next
      case False
      then obtain tx job b where tx: "tx \<in> set ts" "attested X hdr (from_account tx) (call tx) = Some (job, k, b)" "st_get ops s' Attest k = Some b"
        "(\<forall>u \<in> set ts. \<not> registers job (call u)) \<longrightarrow> \<not> coordinator_refused ops X s1 job (from_account tx)"
        using Cons.IH [OF r] by blast
      have "coordinator_refused ops X s1 job = coordinator_refused ops X s job" if "\<not> registers job (call t)"
      proof -
        have "load_attest_authority ops X s1 job = load_attest_authority ops X s job"
          using tx_effect_authority [OF Cons.prems(1) Inr, of job] that by (auto simp: registers_def)
        then show ?thesis by (simp add: coordinator_refused_def fun_eq_iff)
      qed
      then have "(\<forall>u \<in> set (t # ts). \<not> registers job (call u)) \<longrightarrow> \<not> coordinator_refused ops X s job (from_account tx)"
        using tx(4) by auto
      then show ?thesis using tx(1-3) by (meson list.set_intros(2))
    qed
  qed
qed simp

lemma apply_effects_authority:
  assumes "inv s" "apply_effects ops X hdr i ts s = (e, s')" "load_attest_authority ops X s' job \<noteq> load_attest_authority ops X s job"
    and "load_governance ops X s = Some cfg" "validate_config cfg = Inr ()" "\<forall>u \<in> set ts. \<not> sets_governance (call u)"
  shows "\<exists>tx \<in> set ts. \<exists>cs g. call tx = RegisterAttestCoordinator job cs g \<and>
    gov_consent X cfg g (register_attest_gov_payload (hx X) job cs)"
  using assms
proof (induction ts arbitrary: i s)
  case (Cons t ts)
  show ?case
  proof (cases "tx_effect ops X hdr i (from_account t) (call t) s")
    case (Inl e')
    then show ?thesis using Cons.prems by simp
  next
    case (Inr s1)
    have r: "inv s1" "apply_effects ops X hdr (Suc i) ts s1 = (e, s')" "load_governance ops X s1 = Some cfg"
      using Cons.prems(1,2,4,6) Inr tx_effect_inv tx_effect_same_governance [OF Cons.prems(1) Inr] by auto
    show ?thesis
    proof (cases "load_attest_authority ops X s' job = load_attest_authority ops X s1 job")
      case True
      then obtain cs g where "call t = RegisterAttestCoordinator job cs g" "gov_gate ops X s i g (register_attest_gov_payload (hx X) job cs) = Inr ()"
        using tx_effect_authority [OF Cons.prems(1) Inr, of job] Cons.prems(3) by auto
      then show ?thesis using gov_gate_consent [OF _ Cons.prems(4,5)] by auto
    next
      case False
      then show ?thesis using Cons.IH [OF r(1,2) False r(3) Cons.prems(5)] Cons.prems(6) by auto
    qed
  qed
qed simp

text \<open>Only the effects of the calls change the registry: a block leaves what a prefix of the phases up to them left.\<close>

lemma apply_block_registry:
  assumes s: "inv s" and r: "apply_block ops X s blk reward = (res, s')"
  obtains "registry ops s' = registry ops s"
  | p s1 e2 s2 where "validate_all ops X s (witnesses (body blk)) 0 (txs (body blk)) 0 = Inr p" "inv s1" "registry ops s1 = registry ops s"
      "apply_effects ops X (header blk) 0 (txs (body blk)) s1 = (e2, s2)" "registry ops s' = registry ops s2"
proof (cases "validate_all ops X s (witnesses (body blk)) 0 (txs (body blk)) 0")
  case (Inl e)
  then show thesis using r that(1) by (simp add: apply_block_alt)
next
  case (Inr p)
  obtain fees staged where p: "p = (fees, staged)" by (cases p)
  obtain e1 s1 where a: "apply_all ops X s staged = (e1, s1)" by fastforce
  note A = apply_all_registry [OF s a]
  show thesis
  proof (cases e1)
    case (Some e)
    then show thesis using r Inr p a A that(1) by (simp add: apply_block_alt)
  next
    case None
    obtain e2 s2 where b: "apply_effects ops X (header blk) 0 (txs (body blk)) s1 = (e2, s2)" by fastforce
    have i2: "inv s2" using A b apply_effects_inv by blast
    have F: "registry ops u = registry ops s2"
      if "pay_coinbase ops X (header blk) reward fees s2 = Inr (m, s3)" "finish_block ops X s3 blk fees m = (q, u)" for m s3 q u
      using pay_coinbase_registry [OF i2 that(1)] finish_registry [OF _ that(2)] by simp
    have "registry ops s' = registry ops s2"
      using r Inr p a b None F
      by (cases e2; cases "pay_coinbase ops X (header blk) reward fees s2") (auto simp: apply_block_alt)
    then show thesis using A b that(2) Inr by blast
  qed
qed

lemma apply_block_attest:
  assumes s: "inv s" and r: "apply_block ops X s blk reward = (res, s')" and k: "st_get ops s' Attest k \<noteq> st_get ops s Attest k"
    and keys: "keys_ok (hx X) (load_or_default ops X s)"
  shows "\<exists>n < length (txs (body blk)). \<exists>job b. let tx = txs (body blk) ! n in signed_tx X blk n \<and>
    attested X (header blk) (from_account tx) (call tx) = Some (job, k, b) \<and> st_get ops s' Attest k = Some b \<and>
    ((\<forall>u \<in> set (txs (body blk)). \<not> registers job (call u)) \<longrightarrow> \<not> coordinator_refused ops X s job (from_account tx))"
proof (rule apply_block_registry [OF s r])
  assume "registry ops s' = registry ops s"
  then show ?thesis using k registry_eqD(1) [of ops s' s] by simp
next
  fix p s1 e2 s2
  assume v: "validate_all ops X s (witnesses (body blk)) 0 (txs (body blk)) 0 = Inr p"
    and a: "inv s1" "registry ops s1 = registry ops s" "apply_effects ops X (header blk) 0 (txs (body blk)) s1 = (e2, s2)"
    "registry ops s' = registry ops s2"
  have "st_get ops s2 Attest k \<noteq> st_get ops s1 Attest k" using k registry_eqD(1) [OF a(2)] registry_eqD(1) [OF a(4)] by simp
  from apply_effects_attest [OF a(1,3) this] obtain tx job b where tx: "tx \<in> set (txs (body blk))"
    "attested X (header blk) (from_account tx) (call tx) = Some (job, k, b)" "st_get ops s2 Attest k = Some b"
    "(\<forall>u \<in> set (txs (body blk)). \<not> registers job (call u)) \<longrightarrow> \<not> coordinator_refused ops X s1 job (from_account tx)"
    by blast
  from tx(1) obtain n where n: "n < length (txs (body blk))" "txs (body blk) ! n = tx" by (auto simp: in_set_conv_nth)
  show ?thesis
    using validated_signed [OF v keys n(1)] tx(2-4) n registry_eqD(1) [OF a(4)] registry_eqD(2) [OF a(2), of X]
    by (intro exI [of _ n] conjI exI [of _ job] exI [of _ b]) (simp_all add: Let_def coordinator_refused_def)
qed

lemma apply_block_authority:
  assumes s: "inv s" and r: "apply_block ops X s blk reward = (res, s')"
    and k: "load_attest_authority ops X s' job \<noteq> load_attest_authority ops X s job"
    and g: "load_governance ops X s = Some cfg" "validate_config cfg = Inr ()" "\<forall>u \<in> set (txs (body blk)). \<not> sets_governance (call u)"
  shows "\<exists>tx \<in> set (txs (body blk)). \<exists>cs g. call tx = RegisterAttestCoordinator job cs g \<and>
    gov_consent X cfg g (register_attest_gov_payload (hx X) job cs)"
proof (rule apply_block_registry [OF s r])
  assume "registry ops s' = registry ops s"
  then show ?thesis using k registry_eqD(2) [of ops s' s X] by simp
next
  fix p s1 e2 s2
  assume a: "inv s1" "registry ops s1 = registry ops s" "apply_effects ops X (header blk) 0 (txs (body blk)) s1 = (e2, s2)"
    "registry ops s' = registry ops s2"
  have "load_attest_authority ops X s2 job \<noteq> load_attest_authority ops X s1 job" "load_governance ops X s1 = Some cfg"
    using k g(1) registry_eqD(2,3) [OF a(2), of X] registry_eqD(2) [OF a(4), of X] by simp_all
  from apply_effects_authority [OF a(1,3) this g(2,3)] show ?thesis .
qed

end

end
