(* ===== verification/State_Errors.thy ===== *)
theory State_Errors
  imports State_Accounting
begin

text \<open>
  What \<open>apply_block\<close> of \<open>crates/state/src/apply.rs\<close> leaves behind when it returns an error. The
  validation pass reads only; the passes after it write as they go and nothing is rolled back.
\<close>

section \<open>Validated transfers of distinct senders\<close>

text \<open>A validated transfer still passes after transfers of other senders.\<close>

lemma validated_transfer_ok:
  assumes "validate_all ops X s (witnesses (body blk)) 0 (txs (body blk)) 0 = Inr (fees, staged)" "k < length staged"
    and "ledger_run (load_or_default ops X s) ts = Some B" "stx_from_account (staged ! k) \<notin> stx_from_account ` set ts"
  shows "transfer_ok B (staged ! k)"
proof -
  have "validate_tx ops X k s (txs (body blk) ! k) (witnesses (body blk) ! k) = Inr (staged ! k)"
    using validate_all_Inr [OF assms(1)] assms(2) by simp
  note v = validate_tx_Inr [OF this]
  from ledger_run_other [OF assms(3,4)] show ?thesis
    using v(2,6,7,10,11) by (simp add: transfer_ok_def)
qed

context state_store
begin

section \<open>The apply pass\<close>

text \<open>The apply pass does exactly a prefix of the staged transfers; it stops at one that fails.\<close>

lemma apply_all_prefix:
  assumes K: "account_codec_ok (kx X)" and "inv s" and "apply_all ops X s ts = (e, s')"
  shows "\<exists>n \<le> length ts. inv s' \<and> ledger_run (load_or_default ops X s) (take n ts) = Some (load_or_default ops X s') \<and>
    (case e of None \<Rightarrow> n = length ts | Some err \<Rightarrow> n < length ts \<and> apply_staged ops X s' (ts ! n) = Inl err)"
  using assms(2,3)
proof (induction ts arbitrary: s)
  case (Cons t ts)
  show ?case
  proof (cases "apply_staged ops X s t")
    case (Inl err)
    then show ?thesis using Cons.prems by (intro exI [of _ 0]) auto
  next
    case (Inr s1)
    note a = apply_staged_ledger [OF K Cons.prems(1) Inr]
    have "apply_all ops X s1 ts = (e, s')" using Cons.prems(2) Inr by simp
    from Cons.IH [OF conjunct1 [OF a] this] obtain n where "n \<le> length ts" "inv s'"
      "ledger_run (load_or_default ops X s1) (take n ts) = Some (load_or_default ops X s')"
      "case e of None \<Rightarrow> n = length ts | Some err \<Rightarrow> n < length ts \<and> apply_staged ops X s' (ts ! n) = Inl err"
      by blast
    then show ?thesis using a by (intro exI [of _ "Suc n"]) (auto split: option.splits)
  qed
qed simp

lemma apply_effects_accounts:
  assumes "inv s" "apply_effects ops X hdr i ts s = (e, s')"
  shows "load_or_default ops X s' = load_or_default ops X s"
  using assms
proof (induction ts arbitrary: i s)
  case (Cons t ts)
  show ?case
  proof (cases "tx_effect ops X hdr i (from_account t) (call t) s")
    case (Inl err)
    then show ?thesis using Cons.prems by simp
  next
    case (Inr s1)
    then show ?thesis using tx_effect_ledger [OF Cons.prems(1) Inr] Cons.IH [of s1 "Suc i"] Cons.prems(2) by simp
  qed
qed simp

section \<open>Rejected blocks\<close>

lemma apply_block_rejected:
  assumes K: "account_codec_ok (kx X)" "codec_ok (reflection_c (kx X))" and s: "inv s"
    and r: "apply_block ops X s blk reward = (Inl e, s')"
  obtains "validate_all ops X s (witnesses (body blk)) 0 (txs (body blk)) 0 = Inl e" "s' = s"
  | fees staged n where "validate_all ops X s (witnesses (body blk)) 0 (txs (body blk)) 0 = Inr (fees, staged)"
      "n \<le> length staged" "ledger_run (load_or_default ops X s) (take n staged) = Some (load_or_default ops X s')"
      "n < length staged \<Longrightarrow> stx_from_account (staged ! n) \<in> stx_from_account ` set (take n staged)"
proof (cases "validate_all ops X s (witnesses (body blk)) 0 (txs (body blk)) 0")
  case (Inl e')
  with r have "e' = e" "s' = s" by (simp_all add: apply_block_alt)
  with Inl show thesis by (intro that(1)) simp_all
next
  case (Inr p)
  obtain fees staged where p: "p = (fees, staged)" by (cases p)
  note v = Inr [unfolded p]
  obtain e1 s1 where a: "apply_all ops X s staged = (e1, s1)" by fastforce
  from apply_all_prefix [OF K(1) s a] obtain n where n: "n \<le> length staged" "inv s1"
    "ledger_run (load_or_default ops X s) (take n staged) = Some (load_or_default ops X s1)"
    "case e1 of None \<Rightarrow> n = length staged | Some err \<Rightarrow> n < length staged \<and> apply_staged ops X s1 (staged ! n) = Inl err"
    by blast
  have late: "stx_from_account (staged ! n) \<in> stx_from_account ` set (take n staged)" if "n < length staged"
  proof (rule ccontr)
    assume "stx_from_account (staged ! n) \<notin> stx_from_account ` set (take n staged)"
    from apply_staged_ok [OF validated_transfer_ok [OF v that n(3) this]] show False
      using n(4) that by (auto split: option.splits)
  qed
  have "load_or_default ops X s' = load_or_default ops X s1"
  proof (cases e1)
    case (Some err)
    then show ?thesis using r v a by (simp add: apply_block_alt)
  next
    case None
    obtain e2 s2 where b: "apply_effects ops X (header blk) 0 (txs (body blk)) s1 = (e2, s2)" by fastforce
    have "fst (finish_block ops X s3 blk fees m) \<noteq> Inl e" for s3 m
    proof -
      obtain b where "enc (reflection_c (kx X)) (block_reflection blk fees m) = Some b"
        using K(2) unfolding codec_ok_def by blast
      then show ?thesis by (simp add: finish_block_def Let_def split_beta)
    qed
    then have "s' = s2"
      using r v a b None
      by (cases e2; cases "pay_coinbase ops X (header blk) reward fees s2") (auto simp: apply_block_alt, metis fst_conv)
    then show ?thesis using apply_effects_accounts [OF n(2) b] by simp
  qed
  with n(3) show thesis by (intro that(2) [OF v n(1) _ late]) simp_all
qed

lemma apply_block_rejected_total:
  assumes "account_codec_ok (kx X)" "codec_ok (reflection_c (kx X))" "inv s"
    and "apply_block ops X s blk reward = (Inl e, s')"
    and A: "finite A" "block_accounts blk \<subseteq> A" "total A (load_or_default ops X s) < 2 ^ 128"
  shows "validate_all ops X s (witnesses (body blk)) 0 (txs (body blk)) 0 = Inl e \<and> s' = s \<or>
    (\<exists>fees staged n. validate_all ops X s (witnesses (body blk)) 0 (txs (body blk)) 0 = Inr (fees, staged) \<and> n \<le> length staged \<and>
       ledger_run (load_or_default ops X s) (take n staged) = Some (load_or_default ops X s') \<and>
       (n < length staged \<longrightarrow> stx_from_account (staged ! n) \<in> stx_from_account ` set (take n staged)) \<and>
       total A (load_or_default ops X s') + sum_list (map (\<lambda>t. unat (stx_fee_sat t)) (take n staged)) =
       total A (load_or_default ops X s))"
proof (rule apply_block_rejected [OF assms(1-4)])
  fix fees staged n
  assume v: "validate_all ops X s (witnesses (body blk)) 0 (txs (body blk)) 0 = Inr (fees, staged)"
    and n: "n \<le> length staged" "ledger_run (load_or_default ops X s) (take n staged) = Some (load_or_default ops X s')"
      "n < length staged \<Longrightarrow> stx_from_account (staged ! n) \<in> stx_from_account ` set (take n staged)"
  have "\<forall>t \<in> set (take n staged). stx_from_account t \<in> A \<and> stx_to t \<in> A"
    using validate_all_accounts(2) [OF v] A(2) by (auto simp: block_accounts_def dest: in_set_takeD)
  from ledger_run_total [OF n(2) A(1,3) this] v n show ?thesis by blast
qed simp

end

end
