(* ===== verification/State_Faults.thy ===== *)
theory State_Faults
  imports State_Ledger
begin

text \<open>
  \<open>RocksState\<close> over a database that can fail: \<open>crates/state/src/rocks_store.rs\<close> with its error
  paths. A failing write panics, a failing read reads as a missing key, a failing step of an
  iteration is skipped, and opening and importing report a \<open>RocksError\<close>. The operations of
  \<open>State_Store\<close> are those of a database that never fails. Write faults are shown to be
  fail-stop for a whole block; read faults are not.
\<close>

section \<open>A database that can fail\<close>

datatype rocks_error = RocksDb string | RocksIo string

fun show_rocks_error :: "rocks_error \<Rightarrow> string" where
  "show_rocks_error (RocksDb e) = ''rocksdb: '' @ e"
| "show_rocks_error (RocksIo e) = ''io: '' @ e"

text \<open>The calls of the database crate, with their errors; a batch is written as a whole or not at all.\<close>

record 'd rocks_io =
  io_put :: "bytes \<Rightarrow> bytes \<Rightarrow> 'd \<Rightarrow> string + 'd"
  io_get :: "'d \<Rightarrow> bytes \<Rightarrow> string + bytes option"
  io_iter :: "'d \<Rightarrow> (string + bytes \<times> bytes) list"
  io_write :: "(bytes \<times> bytes) list \<Rightarrow> 'd \<Rightarrow> string + 'd"

text \<open>\<open>open\<close>, given what creating the directory and opening the database return.\<close>

definition rio_open :: "(string \<Rightarrow> string + unit) \<Rightarrow> (string \<Rightarrow> string + 'd) \<Rightarrow> string \<Rightarrow> rocks_error + 'd rocks_state" where
  "rio_open create_dir_all db_open path =
     (case create_dir_all path of
        Inl e \<Rightarrow> Inl (RocksIo e)
      | Inr u \<Rightarrow>
          (case db_open path of
             Inl e \<Rightarrow> Inl (RocksDb e)
           | Inr d \<Rightarrow> Inr \<lparr> db = d, cached_root = None \<rparr>))"

definition rio_import_from :: "'d rocks_io \<Rightarrow> 'd rocks_state \<Rightarrow> mem_state \<Rightarrow> (rocks_error + unit) \<times> 'd rocks_state" where
  "rio_import_from F r src =
     (case io_write F (map (\<lambda>(sub, key, val). (sub # key, val)) (mem_iter_canonical src)) (db r) of
        Inl e \<Rightarrow> (Inl (RocksDb e), r)
      | Inr d \<Rightarrow> (Inr (), \<lparr> db = d, cached_root = None \<rparr>))"

text \<open>Both walks skip the steps that fail and the empty key.\<close>

fun walk :: "(string + bytes \<times> bytes) list \<Rightarrow> ((u8 \<times> bytes) \<times> bytes) list" where
  "walk [] = []"
| "walk (Inl e # es) = walk es"
| "walk (Inr (k, v) # es) = (case k of [] \<Rightarrow> walk es | sub # key \<Rightarrow> ((sub, key), v) # walk es)"

definition rio_iter_canonical :: "'d rocks_io \<Rightarrow> 'd rocks_state \<Rightarrow> (u8 \<times> bytes \<times> bytes) list" where
  "rio_iter_canonical F r = map (\<lambda>((s, k), v). (s, k, v)) (walk (io_iter F (db r)))"

text \<open>A write returns the store or the message of the panic.\<close>

definition rio_put :: "'d rocks_io \<Rightarrow> 'd rocks_state \<Rightarrow> subtree \<Rightarrow> bytes \<Rightarrow> bytes \<Rightarrow> string + 'd rocks_state" where
  "rio_put F r sub key val =
     (case io_put F (encode_key sub key) val (db r) of
        Inl e \<Rightarrow> Inl (''RocksState::put failed: '' @ e)
      | Inr d \<Rightarrow> Inr \<lparr> db = d, cached_root = None \<rparr>)"

definition rio_get :: "'d rocks_io \<Rightarrow> 'd rocks_state \<Rightarrow> subtree \<Rightarrow> bytes \<Rightarrow> bytes option" where
  "rio_get F r sub key = (case io_get F (db r) (encode_key sub key) of Inl e \<Rightarrow> None | Inr v \<Rightarrow> v)"

definition rio_root :: "'d rocks_io \<Rightarrow> hash_ext \<Rightarrow> 'd rocks_state \<Rightarrow> bytes \<times> 'd rocks_state" where
  "rio_root F H r =
     (case cached_root r of
        Some c \<Rightarrow> (c, r)
      | None \<Rightarrow> let d = entries_root H (walk (io_iter F (db r))) in (d, r\<lparr>cached_root := Some d\<rparr>))"

text \<open>
  The store as code behind the trait sees it: live, or ended by a panic. Nothing runs after a
  panic; the operations on an ended store only keep it ended.
\<close>

datatype 'd rocks_run = Live "'d rocks_state" | Stopped string

fun run_put :: "'d rocks_io \<Rightarrow> 'd rocks_run \<Rightarrow> subtree \<Rightarrow> bytes \<Rightarrow> bytes \<Rightarrow> 'd rocks_run" where
  "run_put F (Live r) sub key val = (case rio_put F r sub key val of Inl e \<Rightarrow> Stopped e | Inr r' \<Rightarrow> Live r')"
| "run_put F (Stopped e) sub key val = Stopped e"

fun run_get :: "'d rocks_io \<Rightarrow> 'd rocks_run \<Rightarrow> subtree \<Rightarrow> bytes \<Rightarrow> bytes option" where
  "run_get F (Live r) = rio_get F r"
| "run_get F (Stopped e) = (\<lambda>_ _. None)"

fun run_root :: "'d rocks_io \<Rightarrow> hash_ext \<Rightarrow> 'd rocks_run \<Rightarrow> bytes \<times> 'd rocks_run" where
  "run_root F H (Live r) = (let (c, r') = rio_root F H r in (c, Live r'))"
| "run_root F H (Stopped e) = ([], Stopped e)"

definition rio_ops :: "'d rocks_io \<Rightarrow> hash_ext \<Rightarrow> 'd rocks_run store_ops" where
  "rio_ops F H = \<lparr> st_put = run_put F, st_get = run_get F, st_root = run_root F H \<rparr>"

section \<open>Write faults\<close>

text \<open>The database \<open>D\<close> in which writes and batches fail when the two functions say so.\<close>

definition with_faults ::
    "'d rocks_db \<Rightarrow> ('d \<Rightarrow> bytes \<Rightarrow> string option) \<Rightarrow> ('d \<Rightarrow> (bytes \<times> bytes) list \<Rightarrow> string option) \<Rightarrow> 'd rocks_io" where
  "with_faults D pf bf =
     \<lparr> io_put = (\<lambda>k v d. case pf d k of Some e \<Rightarrow> Inl e | None \<Rightarrow> Inr (db_put D k v d)),
       io_get = (\<lambda>d k. Inr (db_get D d k)), io_iter = (\<lambda>d. map Inr (db_iter D d)),
       io_write = (\<lambda>kvs d. case bf d kvs of Some e \<Rightarrow> Inl e | None \<Rightarrow> Inr (fold (\<lambda>(k, v) d. db_put D k v d) kvs d)) \<rparr>"

lemma walk_Inr: "walk (map Inr es) = map split_key (filter (\<lambda>e. fst e \<noteq> []) es)"
  by (induction es) (auto simp: split_key_def split: list.splits)

text \<open>Without faults the operations are those of \<open>State_Store\<close>.\<close>

lemma no_faults:
  "rio_get (with_faults D pf bf) r = rocks_get D r"
  "rio_root (with_faults D pf bf) H r = rocks_root D H r"
  "rio_iter_canonical (with_faults D pf bf) r = rocks_iter_canonical D r"
  "rio_put (with_faults D pf bf) r sub k v =
     (case pf (db r) (encode_key sub k) of Some e \<Rightarrow> Inl (''RocksState::put failed: '' @ e) | None \<Rightarrow> Inr (rocks_put D r sub k v))"
  "rio_import_from (with_faults D pf bf) r src =
     (case bf (db r) (map (\<lambda>(sub, key, val). (sub # key, val)) (mem_iter_canonical src)) of
        Some e \<Rightarrow> (Inl (RocksDb e), r) | None \<Rightarrow> (Inr (), rocks_import_from D r src))"
proof -
  have "fold (\<lambda>(k, v) d. db_put D k v d) (map (\<lambda>(sub, key, val). (sub # key, val)) es) d =
      fold (\<lambda>(sub, key, val) d. db_put D (sub # key) val d) es d" for es d
    by (induction es arbitrary: d) auto
  then show "rio_import_from (with_faults D pf bf) r src =
     (case bf (db r) (map (\<lambda>(sub, key, val). (sub # key, val)) (mem_iter_canonical src)) of
        Some e \<Rightarrow> (Inl (RocksDb e), r) | None \<Rightarrow> (Inr (), rocks_import_from D r src))"
    by (simp add: rio_import_from_def with_faults_def rocks_import_from_def split: option.splits)
qed (auto simp: with_faults_def rio_get_def rocks_get_def rio_root_def rocks_root_def rocks_entries_def walk_Inr
    rio_iter_canonical_def rocks_iter_canonical_def rio_put_def rocks_put_def fun_eq_iff split: option.splits)

section \<open>Fail-stop stores\<close>

text \<open>
  A store \<open>ops\<close> that follows the store \<open>base\<close> until it stops for good: \<open>live\<close> gives the state of
  \<open>base\<close> it is in, or \<open>None\<close> once it has stopped.
\<close>

locale fail_stop =
  fixes ops :: "'s store_ops" and base :: "'b store_ops" and live :: "'s \<Rightarrow> 'b option"
  assumes live_get: "live s = Some b \<Longrightarrow> st_get ops s = st_get base b"
    and live_put: "live s = Some b \<Longrightarrow> live (st_put ops s sub k v) = None \<or> live (st_put ops s sub k v) = Some (st_put base b sub k v)"
    and dead_put: "live s = None \<Longrightarrow> live (st_put ops s sub k v) = None"
    and live_root: "live s = Some b \<Longrightarrow> fst (st_root ops s) = fst (st_root base b) \<and> live (snd (st_root ops s)) = Some (snd (st_root base b))"
    and dead_root: "live s = None \<Longrightarrow> live (snd (st_root ops s)) = None"
begin

definition follows :: "'s \<Rightarrow> 'b \<Rightarrow> bool" where
  "follows s b \<longleftrightarrow> live s = None \<or> live s = Some b"

lemma follows_put: "follows s b \<Longrightarrow> follows (st_put ops s sub k v) (st_put base b sub k v)"
  using live_put [of s b sub k v] dead_put [of s sub k v] by (auto simp: follows_def)

lemma follows_save: "follows s b \<Longrightarrow> follows (save ops X s i a) (save base X b i a)"
  by (simp add: save_def follows_put)

lemma live_load:
  assumes "live s = Some b"
  shows "load ops X s = load base X b" "load_or_default ops X s = load_or_default base X b"
  by (simp_all add: load_def load_or_default_def live_get [OF assms] fun_eq_iff)

lemma live_validate:
  assumes "live s = Some b"
  shows "validate_all ops X s ws i ts fees = validate_all base X b ws i ts fees"
proof -
  have "validate_tx ops X j s tx w = validate_tx base X j b tx w" for j tx w
    by (simp only: validate_tx_def witness_pubkey_def live_load [OF assms])
  then show ?thesis by (induction ts arbitrary: i fees) (simp_all only: validate_all.simps)
qed

text \<open>A stopped store stays stopped, whatever is done with it.\<close>

lemma dead_save: "live s = None \<Longrightarrow> live (save ops X s i a) = None"
  by (simp add: save_def dead_put)

lemma dead_apply_all: "live s = None \<Longrightarrow> live (snd (apply_all ops X s ts)) = None"
proof (induction ts arbitrary: s)
  case (Cons t ts)
  show ?case
  proof (cases "apply_staged ops X s t")
    case (Inr s1)
    then have "live s1 = None" using Cons.prems by (auto simp: apply_staged_def Let_def dead_save split: if_splits option.splits)
    from Cons.IH [OF this] Inr show ?thesis by simp
  qed (use Cons.prems in simp)
qed simp

lemma dead_tx_effect: "live s = None \<Longrightarrow> tx_effect ops X hdr i from c s = Inr s1 \<Longrightarrow> live s1 = None"
  by (cases c)
    (auto simp: attest_round_effect_def register_coordinator_effect_def attest_pedigree_effect_def upgrade_crypto_effect_def
      set_governance_effect_def put_record_def dead_put split: sum.splits option.splits if_splits)

lemma dead_apply_effects: "live s = None \<Longrightarrow> live (snd (apply_effects ops X hdr i ts s)) = None"
  by (induction ts arbitrary: i s) (auto split: sum.splits dest: dead_tx_effect)

lemma dead_finish: "live s = None \<Longrightarrow> live (snd (finish_block ops X s blk fees m)) = None"
proof -
  assume s: "live s = None"
  have "live (activate_crypto ops X h u) = None" if "live u = None" for h u
    using that by (auto simp: activate_crypto_def dead_put split: option.splits sum.splits)
  then show ?thesis using s by (auto simp: finish_block_def Let_def split_beta dead_put dead_root split: option.splits)
qed

lemma dead_pay: "live s = None \<Longrightarrow> pay_coinbase ops X hdr r fees s = Inr (m, s') \<Longrightarrow> live s' = None"
  by (auto simp: pay_coinbase_def Let_def dead_save split: option.splits)

text \<open>A live store either stops or does what \<open>base\<close> does.\<close>

lemma live_apply_staged:
  assumes "live s = Some b"
  shows "rel_sum (=) follows (apply_staged ops X s t) (apply_staged base X b t)"
proof -
  have f: "follows s b" using assms by (simp add: follows_def)
  define s1 b1 where "s1 = (\<lambda>r. save ops X s (stx_from_account t) (debit (load_or_default base X b (stx_from_account t)) t r))"
    and "b1 = (\<lambda>r. save base X b (stx_from_account t) (debit (load_or_default base X b (stx_from_account t)) t r))"
  have "follows (s1 r) (b1 r)" for r unfolding s1_def b1_def by (rule follows_save [OF f])
  then have "follows (save ops X (s1 r) i (g (load_or_default ops X (s1 r) i))) (save base X (b1 r) i (g (load_or_default base X (b1 r) i)))" for r i g
    by (metis dead_save follows_def follows_save live_load(2))
  then show ?thesis
    unfolding apply_staged_def Let_def live_load(2) [OF assms] s1_def b1_def by (auto split: option.splits)
qed

lemma live_apply_all:
  assumes "live s = Some b" "apply_all ops X s ts = (e, s')" "live s' = Some b'"
  shows "apply_all base X b ts = (e, b')"
  using assms
proof (induction ts arbitrary: s b)
  case (Cons t ts)
  show ?case
  proof (cases "apply_staged ops X s t")
    case (Inl err)
    then show ?thesis using Cons.prems live_apply_staged [OF Cons.prems(1), of X t] by (auto elim: rel_sum.cases)
  next
    case (Inr s1)
    then obtain b1 where b1: "apply_staged base X b t = Inr b1" "follows s1 b1"
      using live_apply_staged [OF Cons.prems(1), of X t] by (auto elim: rel_sum.cases)
    have r: "apply_all ops X s1 ts = (e, s')" using Cons.prems(2) Inr by simp
    then have "live s1 = Some b1" using b1(2) dead_apply_all [of s1 X ts] Cons.prems(3) by (auto simp: follows_def)
    from Cons.IH [OF this r Cons.prems(3)] b1(1) show ?thesis by simp
  qed
qed simp

lemma follows_put_record:
  "follows s b \<Longrightarrow> rel_sum (=) follows (put_record ops s err k rec sub key) (put_record base b err k rec sub key)"
  by (auto simp: put_record_def follows_put split: option.splits)

lemma live_tx_effect:
  assumes "live s = Some b"
  shows "rel_sum (=) follows (tx_effect ops X hdr i from c s) (tx_effect base X hdr i from c b)"
proof -
  have f: "follows s b" using assms by (simp add: follows_def)
  have "gov_gate ops X s = gov_gate base X b" "coordinator_refused ops X s = coordinator_refused base X b"
    by (intro ext, simp only: gov_gate_def load_governance_def coordinator_refused_def load_attest_authority_def live_get [OF assms])+
  then show ?thesis
    using f
    by (cases c)
      (auto simp: follows_put_record attest_round_effect_def register_coordinator_effect_def attest_pedigree_effect_def upgrade_crypto_effect_def
        set_governance_effect_def split: sum.splits)
qed

lemma live_apply_effects:
  assumes "live s = Some b" "apply_effects ops X hdr i ts s = (e, s')" "live s' = Some b'"
  shows "apply_effects base X hdr i ts b = (e, b')"
  using assms
proof (induction ts arbitrary: i s b)
  case (Cons t ts)
  note step = live_tx_effect [OF Cons.prems(1), of X hdr i "from_account t" "call t"]
  show ?case
  proof (cases "tx_effect ops X hdr i (from_account t) (call t) s")
    case (Inl err)
    then show ?thesis using Cons.prems step by (auto elim: rel_sum.cases)
  next
    case (Inr s1)
    then obtain b1 where b1: "tx_effect base X hdr i (from_account t) (call t) b = Inr b1" "follows s1 b1"
      using step by (auto elim: rel_sum.cases)
    have r: "apply_effects ops X hdr (Suc i) ts s1 = (e, s')" using Cons.prems(2) Inr by simp
    then have "live s1 = Some b1" using b1(2) dead_apply_effects [of s1 X hdr "Suc i" ts] Cons.prems(3) by (auto simp: follows_def)
    from Cons.IH [OF this r Cons.prems(3)] b1(1) show ?thesis by simp
  qed
qed simp

lemma live_pay:
  assumes "live s = Some b"
  shows "rel_sum (=) (rel_prod (=) follows) (pay_coinbase ops X hdr r fees s) (pay_coinbase base X hdr r fees b)"
proof -
  have "follows s b" using assms by (simp add: follows_def)
  then show ?thesis
    unfolding pay_coinbase_def Let_def live_load(2) [OF assms] by (auto intro: follows_save split: option.splits)
qed

lemma live_finish:
  assumes "follows s b" "finish_block ops X s blk fees m = (res, s')" "live s' = Some b'"
  shows "finish_block base X b blk fees m = (res, b')"
proof (cases "enc (reflection_c (kx X)) (block_reflection blk fees m)")
  case None
  then show ?thesis using assms by (auto simp: finish_block_def follows_def)
next
  case (Some buf)
  have act: "follows (activate_crypto ops X h x) (activate_crypto base X h y)" if "follows x y" for h x y
  proof (cases "live x")
    case None
    then have "live (activate_crypto ops X h x) = None"
      by (auto simp: activate_crypto_def dead_put split: option.splits sum.splits)
    then show ?thesis by (simp add: follows_def)
  next
    case (Some z)
    with that have "live x = Some y" by (simp add: follows_def)
    with that show ?thesis
      unfolding activate_crypto_def live_get [OF \<open>live x = Some y\<close>] by (auto intro: follows_put split: option.splits sum.splits)
  qed
  define x where "x = activate_crypto ops X (header blk)
    (st_put ops (st_put ops s Reflect (block_key (height (header blk))) buf) Reflect (str_bytes ''latest'') buf)"
  define y where "y = activate_crypto base X (header blk)
    (st_put base (st_put base b Reflect (block_key (height (header blk))) buf) Reflect (str_bytes ''latest'') buf)"
  have xy: "follows x y" unfolding x_def y_def by (intro act follows_put assms(1))
  define out where "out = (\<lambda>c. \<lparr> txs_applied = length (txs (body blk)), fees_collected_sat = fees, coinbase_minted_sat = m, out_state_root = c \<rparr>)"
  have fo: "finish_block ops X s blk fees m = (Inr (out (fst (st_root ops x))), snd (st_root ops x))"
    by (simp add: finish_block_def Some Let_def split_beta x_def out_def)
  have fb: "finish_block base X b blk fees m = (Inr (out (fst (st_root base y))), snd (st_root base y))"
    by (simp add: finish_block_def Some Let_def split_beta y_def out_def)
  have s': "s' = snd (st_root ops x)" "res = Inr (out (fst (st_root ops x)))" using assms(2) fo by simp_all
  then have "live x = Some y" using xy assms(3) dead_root [of x] by (auto simp: follows_def)
  from live_root [OF this] assms(3) s' show ?thesis by (simp add: fb)
qed

theorem apply_block_fail_stop:
  assumes s: "live s = Some b" and r: "apply_block ops X s blk reward = (res, s')" and l: "live s' = Some b'"
  shows "apply_block base X b blk reward = (res, b')"
proof (cases "validate_all base X b (witnesses (body blk)) 0 (txs (body blk)) 0")
  case (Inl e)
  then show ?thesis using r s l by (auto simp: apply_block_alt live_validate [OF s])
next
  case (Inr p)
  obtain fees staged where p: "p = (fees, staged)" by (cases p)
  note v = Inr [unfolded p]
  obtain e1 s1 where a: "apply_all ops X s staged = (e1, s1)" by fastforce
  obtain e2 s2 where e: "apply_effects ops X (header blk) 0 (txs (body blk)) s1 = (e2, s2)" by fastforce
  have d: "live s1 = None \<Longrightarrow> live s2 = None" using dead_apply_effects [of s1 X "header blk" 0 "txs (body blk)"] e by simp
  have alt: "(res, s') = (case e1 of Some e \<Rightarrow> (Inl e, s1) | None \<Rightarrow>
      (case e2 of Some e \<Rightarrow> (Inl e, s2) | None \<Rightarrow>
        (case pay_coinbase ops X (header blk) reward fees s2 of Inl e \<Rightarrow> (Inl e, s2)
         | Inr (m, s3) \<Rightarrow> finish_block ops X s3 blk fees m)))"
    using r by (simp add: apply_block_alt live_validate [OF s] v a e split: option.splits)
  show ?thesis
  proof (cases e1)
    case (Some err)
    then have "res = Inl err" "s' = s1" using alt by simp_all
    then show ?thesis using live_apply_all [OF s a] l Some by (simp add: apply_block_alt v)
  next
    case None
    have "live s2 \<noteq> None"
    proof
      assume n: "live s2 = None"
      have "live s' = None"
        using alt None n dead_pay [OF n] dead_finish [of _ X blk fees]
        by (auto split: option.splits sum.splits) (metis snd_conv)+
      with l show False by simp
    qed
    then obtain b1 b2 where b: "live s1 = Some b1" "live s2 = Some b2" using d by (cases "live s1"; cases "live s2") auto
    have ab: "apply_all base X b staged = (None, b1)" using live_apply_all [OF s a b(1)] None by simp
    have eb: "apply_effects base X (header blk) 0 (txs (body blk)) b1 = (e2, b2)" using live_apply_effects [OF b(1) e b(2)] .
    show ?thesis
    proof (cases e2)
      case (Some err)
      then show ?thesis using alt None l b(2) by (simp add: apply_block_alt v ab eb)
    next
      case None
      with alt \<open>e1 = None\<close> have alt: "(res, s') = (case pay_coinbase ops X (header blk) reward fees s2 of Inl e \<Rightarrow> (Inl e, s2)
         | Inr (m, s3) \<Rightarrow> finish_block ops X s3 blk fees m)" by simp
      from live_pay [OF b(2), of X "header blk" reward fees] show ?thesis
      proof (cases rule: rel_sum.cases)
        case (1 x y)
        then show ?thesis using alt l b(2) None by (simp add: apply_block_alt v ab eb)
      next
        case (2 x y)
        then obtain m s3 b3 where m: "x = (m, s3)" "y = (m, b3)" "follows s3 b3" by (cases x; cases y) auto
        then have "finish_block ops X s3 blk fees m = (res, s')" using alt 2(1) by simp
        from live_finish [OF m(3) this l] show ?thesis using 2(2) m(2) None by (simp add: apply_block_alt v ab eb)
      qed
    qed
  qed
qed

end

section \<open>Write faults stop the store\<close>

fun live :: "'d rocks_run \<Rightarrow> 'd rocks_state option" where
  "live (Live r) = Some r"
| "live (Stopped e) = None"

interpretation wf: fail_stop "rio_ops (with_faults D pf bf) H" "rocks_ops D H" live for D pf bf H
proof
  fix s b sub k v
  show "live s = Some b \<Longrightarrow> live (st_put (rio_ops (with_faults D pf bf) H) s sub k v) = None \<or>
      live (st_put (rio_ops (with_faults D pf bf) H) s sub k v) = Some (st_put (rocks_ops D H) b sub k v)"
    by (cases s) (auto simp: rio_ops_def rocks_ops_def no_faults split: option.splits)
  show "live s = None \<Longrightarrow> live (st_put (rio_ops (with_faults D pf bf) H) s sub k v) = None"
    by (cases s) (simp_all add: rio_ops_def)
  show "live s = Some b \<Longrightarrow> st_get (rio_ops (with_faults D pf bf) H) s = st_get (rocks_ops D H) b"
    by (cases s) (simp_all add: rio_ops_def rocks_ops_def no_faults)
  show "live s = Some b \<Longrightarrow> fst (st_root (rio_ops (with_faults D pf bf) H) s) = fst (st_root (rocks_ops D H) b) \<and>
      live (snd (st_root (rio_ops (with_faults D pf bf) H) s)) = Some (snd (st_root (rocks_ops D H) b))"
    by (cases s) (simp_all add: rio_ops_def rocks_ops_def no_faults split_beta)
  show "live s = None \<Longrightarrow> live (snd (st_root (rio_ops (with_faults D pf bf) H) s)) = None"
    by (cases s) (simp_all add: rio_ops_def)
qed

section \<open>Read faults do not\<close>

text \<open>
  A read error is taken for a missing key, so an account that cannot be read is the default
  account; what is then written over it starts from a balance of zero.
\<close>

lemma read_fault_is_default:
  assumes "io_get F (db r) (encode_key Accounts i) = Inl e"
  shows "load_or_default (rio_ops F H) X (Live r) i = default_account"
  using assms by (simp add: load_or_default_def load_def rio_ops_def rio_get_def)

lemma read_fault_overwrites:
  assumes "io_get F (db r) (encode_key Accounts (from_coinbase (coinbase hdr))) = Inl e"
    and "checked_add reward fees = Some m"
  shows "pay_coinbase (rio_ops F H) X hdr reward fees (Live r) =
    Inr (m, save (rio_ops F H) X (Live r) (from_coinbase (coinbase hdr)) (default_account\<lparr>balance := m\<rparr>))"
proof -
  have "checked_add 0 m = Some m" using unsigned_less [of m, where ?'a = nat] by (simp add: checked_add_def)
  with assms show ?thesis by (simp add: pay_coinbase_def read_fault_is_default Let_def default_account_def)
qed

end
