(* ===== verification/Claims_State.thy ===== *)
theory Claims_State
  imports Instance State_Attest State_Errors State_Faults
begin

text \<open>
  The properties of the state machine that a block drives: conservation, nonces, authorisation,
  governance, records, and the agreement of the two stores, for the in-memory store the node
  runs on; each with a witness.
\<close>

section \<open>Accounting\<close>

text \<open>
  Claim C1. An accepted block creates exactly its reward: over any finite set of accounts that
  contains the senders, the recipients and the miner, and whose balances sum to less than
  \<open>2 ^ 128\<close> (all that there is on a real chain), that sum grows by the block
  reward, fees being moved and never created or lost.
\<close>

theorem block_conserves_money:
  assumes "account_codec_ok (kx X)" "mem_inv s"
    and "apply_block (mem_ops (hx X)) X s blk reward = (Inr out, s')"
    and "finite A" "block_accounts blk \<subseteq> A" "total A (load_or_default (mem_ops (hx X)) X s) < 2 ^ 128"
  shows "total A (load_or_default (mem_ops (hx X)) X s') =
    total A (load_or_default (mem_ops (hx X)) X s) + unat reward"
  using assms by (rule mem.apply_block_conserves)

lemma demo_block_accounts: "block_accounts demo_block = {alice, bob, carol}"
  by (auto simp: block_accounts_def senders_def recipients_def miner_of_def demo_block_def demo_coinbase demo_tx_def)

lemma demo_total: "total {alice, bob, carol} (load_or_default (mem_ops demo_hash) demo_ext demo_store) = 100"
  using demo_names by (simp add: total_def demo_load default_account_def)

theorem block_conserves_money_witness:
  "\<exists>out s'. apply_block (mem_ops demo_hash) demo_ext demo_store demo_block 50 = (Inr out, s') \<and>
     total {alice, bob, carol} (load_or_default (mem_ops demo_hash) demo_ext s') = 150"
proof -
  obtain out s' where r: "apply_block (mem_ops demo_hash) demo_ext demo_store demo_block 50 = (Inr out, s')"
    using demo_block_accepted by blast
  have "total {alice, bob, carol} (load_or_default (mem_ops (hx demo_ext)) demo_ext s') =
      total {alice, bob, carol} (load_or_default (mem_ops (hx demo_ext)) demo_ext demo_store) + unat (50 :: u128)"
    by (rule block_conserves_money [OF demo_account_codec_ok demo_store_inv, of demo_block 50 out])
      (simp_all add: r demo_block_accounts demo_total)
  with r show ?thesis by (simp add: demo_total)
qed

text \<open>
  Claim C7. In an accepted block every sender occurs once, and its nonce grows by exactly one;
  every other nonce is unchanged. (All transactions are checked against the nonces before the
  block, so a second transaction of a sender is always refused, below the last nonce.)
\<close>

theorem block_nonces:
  assumes "account_codec_ok (kx X)" "mem_inv s"
    and "apply_block (mem_ops (hx X)) X s blk reward = (Inr out, s')"
    and "\<forall>i \<in> senders blk. acct_nonce (load_or_default (mem_ops (hx X)) X s i) < - 1"
  shows "distinct (map from_account (txs (body blk))) \<and>
    (\<forall>i. acct_nonce (load_or_default (mem_ops (hx X)) X s' i) =
       (if i \<in> senders blk then acct_nonce (load_or_default (mem_ops (hx X)) X s i) + 1
        else acct_nonce (load_or_default (mem_ops (hx X)) X s i)))"
  using assms by (rule mem.apply_block_nonces)

theorem block_nonces_witness:
  "\<exists>out s'. apply_block (mem_ops demo_hash) demo_ext demo_store demo_block 50 = (Inr out, s') \<and>
     acct_nonce (load_or_default (mem_ops demo_hash) demo_ext s' alice) = 1"
proof -
  obtain out s' where r: "apply_block (mem_ops demo_hash) demo_ext demo_store demo_block 50 = (Inr out, s')"
    using demo_block_accepted by blast
  have sd: "senders demo_block = {alice}" by (simp add: senders_def demo_block_def demo_tx_def)
  have "acct_nonce (load_or_default (mem_ops (hx demo_ext)) demo_ext s' alice) =
      acct_nonce (load_or_default (mem_ops (hx demo_ext)) demo_ext demo_store alice) + 1"
    using block_nonces [OF demo_account_codec_ok demo_store_inv, of demo_block 50 out s']
    by (simp add: r sd demo_load default_account_def word_gt_0)
  with r show ?thesis by (simp add: demo_load default_account_def)
qed

text \<open>
  Claim C2. Nobody loses money without having signed: if an accepted block lowers the balance
  of an account, the block contains a transaction of that account whose witness is the committed
  one and carries a valid signature of the transaction under a key that hashes to the account
  id; and stored keys keep hashing to the account they are stored for.
\<close>

theorem debits_are_authorised:
  assumes "account_codec_ok (kx X)" "mem_inv s"
    and "apply_block (mem_ops (hx X)) X s blk reward = (Inr out, s')"
    and "keys_ok (hx X) (load_or_default (mem_ops (hx X)) X s)"
  shows "keys_ok (hx X) (load_or_default (mem_ops (hx X)) X s') \<and>
    (unat (balance (load_or_default (mem_ops (hx X)) X s' i)) < unat (balance (load_or_default (mem_ops (hx X)) X s i)) \<longrightarrow>
      (\<exists>k < length (txs (body blk)). let tx = txs (body blk) ! k; w = witnesses (body blk) ! k in
        from_account tx = i \<and> witness_digest (hx X) w = witness_hash tx \<and>
        (\<exists>pkb. from_pubkey (hx X) pkb = i \<and>
           verify (cx X) (wit_sig_algo w) pkb (wit_sig w) (signing_hash (hx X) tx) = Inr ())))"
  using mem.apply_block_authorised [OF assms] by blast

theorem debits_are_authorised_witness:
  "\<exists>out s'. apply_block (mem_ops demo_hash) demo_ext demo_store demo_block 50 = (Inr out, s') \<and>
     keys_ok demo_hash (load_or_default (mem_ops demo_hash) demo_ext s')"
proof -
  obtain out s' where r: "apply_block (mem_ops demo_hash) demo_ext demo_store demo_block 50 = (Inr out, s')"
    using demo_block_accepted by blast
  have "keys_ok (hx demo_ext) (load_or_default (mem_ops (hx demo_ext)) demo_ext demo_store)"
    by (simp add: keys_ok_def demo_load default_account_def)
  from debits_are_authorised [OF demo_account_codec_ok demo_store_inv _ this] r show ?thesis by simp
qed

section \<open>Rejected blocks\<close>

text \<open>
  Claim C35. What a rejected block leaves behind. If the validation pass refuses the block the
  store is untouched. Otherwise exactly the first \<open>n\<close> staged transfers have been applied and stay
  applied, all of them unless the next one has the sender of an earlier one; the reward is not
  paid, and the fees of those transfers are gone: the sum of the balances has shrunk by them.
\<close>

theorem rejected_block_effect:
  assumes "account_codec_ok (kx X)" "codec_ok (reflection_c (kx X))" "mem_inv s"
    and "apply_block (mem_ops (hx X)) X s blk reward = (Inl e, s')"
    and "finite A" "block_accounts blk \<subseteq> A" "total A (load_or_default (mem_ops (hx X)) X s) < 2 ^ 128"
  shows "validate_all (mem_ops (hx X)) X s (witnesses (body blk)) 0 (txs (body blk)) 0 = Inl e \<and> s' = s \<or>
    (\<exists>fees staged n. validate_all (mem_ops (hx X)) X s (witnesses (body blk)) 0 (txs (body blk)) 0 = Inr (fees, staged) \<and>
       n \<le> length staged \<and>
       ledger_run (load_or_default (mem_ops (hx X)) X s) (take n staged) = Some (load_or_default (mem_ops (hx X)) X s') \<and>
       (n < length staged \<longrightarrow> stx_from_account (staged ! n) \<in> stx_from_account ` set (take n staged)) \<and>
       total A (load_or_default (mem_ops (hx X)) X s') + sum_list (map (\<lambda>t. unat (stx_fee_sat t)) (take n staged)) =
       total A (load_or_default (mem_ops (hx X)) X s))"
  using assms by (rule mem.apply_block_rejected_total)

lemma demo_block2_accounts: "block_accounts demo_block2 = {alice, bob, carol}"
  by (auto simp: block_accounts_def senders_def recipients_def miner_of_def demo_block2_def demo_coinbase demo_tx_def)

text \<open>
  The witness is a block with two transfers of one sender: both pass validation, the first is
  applied, the second fails the nonce check of the apply pass, and one satoshi of fees is lost.
\<close>

theorem rejected_block_effect_witness:
  "\<exists>s'. apply_block (mem_ops demo_hash) demo_ext demo_store demo_block2 50 = (Inl (NonceMismatch 1 1 0), s') \<and>
     balance (load_or_default (mem_ops demo_hash) demo_ext s' bob) = 10 \<and>
     total {alice, bob, carol} (load_or_default (mem_ops demo_hash) demo_ext s') = 99"
proof -
  obtain s' where s': "apply_block (mem_ops demo_hash) demo_ext demo_store demo_block2 50 = (Inl (NonceMismatch 1 1 0), s')"
    "balance (load_or_default (mem_ops demo_hash) demo_ext s' bob) = 10"
    "balance (load_or_default (mem_ops demo_hash) demo_ext s' alice) = 89"
    using demo_block2_rejected by blast
  define st where "st = [demo_staged 0 10, demo_staged 1 20]"
  have v: "validate_all (mem_ops demo_hash) demo_ext demo_store (witnesses (body demo_block2)) 0 (txs (body demo_block2)) 0 = Inr (2, st)"
    by (simp only: demo_block2_validates st_def)
  from rejected_block_effect [of demo_ext demo_store demo_block2 50 "NonceMismatch 1 1 0" s' "{alice, bob, carol}"]
  obtain n where n: "n \<le> length st" "n < length st \<longrightarrow> stx_from_account (st ! n) \<in> stx_from_account ` set (take n st)"
    "ledger_run (load_or_default (mem_ops demo_hash) demo_ext demo_store) (take n st) = Some (load_or_default (mem_ops demo_hash) demo_ext s')"
    "total {alice, bob, carol} (load_or_default (mem_ops demo_hash) demo_ext s') + sum_list (map (\<lambda>t. unat (stx_fee_sat t)) (take n st)) = 100"
    by (auto simp: s'(1) demo_store_inv wire_cbor_ok demo_block2_accounts demo_total v)
  have "n \<noteq> 0" using n(2) by (cases n) (auto simp: st_def)
  moreover have "n \<noteq> 2"
    using n(3) by (auto simp: st_def transfer_ok_def transfer_nonce demo_staged_def sat_add_def demo_load default_account_def split: if_splits)
  ultimately have "n = 1" using n(1) by (auto simp: st_def)
  then show ?thesis using s' n(4) by (simp add: demo_projections st_def)
qed

section \<open>Governance\<close>

text \<open>
  Claim C9. Once a governance configuration is stored it is always a valid one (threshold
  between one and the number of distinct members), and a block, accepted or rejected, replaces
  it only if it carries a \<open>SetGovernance\<close> call with valid signatures of a threshold of distinct
  members of the configuration it replaces, over the payload of a valid new configuration.
\<close>

theorem governance_needs_quorum:
  assumes "mem_inv s" "codec_ok (gov_config_c (kx X))" "gov_valid (mem_ops (hx X)) X s"
    and "apply_block (mem_ops (hx X)) X s blk reward = (res, s')"
  shows "gov_valid (mem_ops (hx X)) X s' \<and>
    (\<forall>cfg. load_governance (mem_ops (hx X)) X s = Some cfg \<and> load_governance (mem_ops (hx X)) X s' \<noteq> Some cfg \<longrightarrow>
       (\<exists>tx \<in> set (txs (body blk)). consented_change X cfg (call tx)))"
  using mem.apply_block_governance [OF assms] by blast

text \<open>
  A block with one call that is no transfer: what it leaves in the registry is what the effect of
  the call leaves there.
\<close>

definition demo_call_tx :: "tx_call \<Rightarrow> tx_body" where "demo_call_tx c = (demo_tx 0 0)\<lparr>call := c\<rparr>"

definition demo_call_block :: "tx_call \<Rightarrow> block" where
  "demo_call_block c = demo_block\<lparr>body := \<lparr> txs = [demo_call_tx c], witnesses = [demo_witness] \<rparr>\<rparr>"

lemma demo_call_header [simp]: "header (demo_call_block c) = demo_header"
  by (simp add: demo_call_block_def demo_block_def)

lemma demo_call_registry:
  assumes s: "mem_inv s" "load_or_default (mem_ops demo_hash) demo_ext s = load_or_default (mem_ops demo_hash) demo_ext demo_store"
    and v: "validate_tx (mem_ops demo_hash) demo_ext 0 s (demo_call_tx c) demo_witness = Inr ((demo_staged 0 0)\<lparr>stx_to := alice\<rparr>)"
    and e: "\<And>s1. mem_inv s1 \<Longrightarrow> registry (mem_ops demo_hash) s1 = registry (mem_ops demo_hash) s \<Longrightarrow>
      \<exists>s2. tx_effect (mem_ops demo_hash) demo_ext demo_header 0 alice c s1 = Inr s2 \<and> mem_inv s2 \<and> P (registry (mem_ops demo_hash) s2)"
  shows "P (registry (mem_ops demo_hash) (snd (apply_block (mem_ops demo_hash) demo_ext s (demo_call_block c) 50)))"
proof -
  let ?ops = "mem_ops demo_hash" and ?blk = "demo_call_block c"
  let ?st = "(demo_staged 0 0)\<lparr>stx_to := alice\<rparr>"
  have va: "validate_all ?ops demo_ext s (witnesses (body ?blk)) 0 (txs (body ?blk)) 0 = Inr (1, [?st])"
    using v by (simp add: demo_call_block_def demo_call_tx_def demo_tx_def demo_staged_def checked_add_def)
  have ok: "transfer_ok (load_or_default ?ops demo_ext s) ?st"
    by (simp add: s(2) transfer_ok_def required_def demo_staged_def demo_load default_account_def)
  obtain s1 where s1: "apply_staged ?ops demo_ext s ?st = Inr s1" using apply_staged_ok [OF ok] by blast
  then have a: "apply_all ?ops demo_ext s [?st] = (None, s1)" by simp
  obtain s2 where s2: "tx_effect ?ops demo_ext demo_header 0 alice c s1 = Inr s2" "mem_inv s2" "P (registry ?ops s2)"
    using e mem.apply_all_registry [OF s(1) a] by blast
  then have ef: "apply_effects ?ops demo_ext demo_header 0 (txs (body ?blk)) s1 = (None, s2)"
    by (simp add: demo_call_block_def demo_call_tx_def demo_tx_def)
  have "registry ?ops (snd (finish_block ?ops demo_ext s3 ?blk 1 m)) = registry ?ops s2"
    if "pay_coinbase ?ops demo_ext demo_header 50 1 s2 = Inr (m, s3)" for m s3
    using mem.pay_coinbase_registry [OF s2(2) that] mem.finish_registry [OF _ surjective_pairing] by simp
  then have "registry ?ops (snd (apply_block ?ops demo_ext s ?blk 50)) = registry ?ops s2"
    unfolding apply_block_alt va
    by (cases "pay_coinbase ?ops demo_ext demo_header 50 1 s2") (auto simp: a ef simp del: apply_all.simps)
  then show ?thesis using s2(3) by simp
qed

text \<open>A committee of three with a threshold of two, and the votes of two of its members for its successor.\<close>

definition demo_committee :: "u64 \<Rightarrow> governance_config" where
  "demo_committee e = \<lparr> gc_epoch = e, gc_threshold = 2,
     gc_signers = map (\<lambda>i. \<lparr> gs_signer_id = [i], gs_sig_algo = 3, gs_pubkey = alice_pk \<rparr>) [1, 2, 3] \<rparr>"

definition demo_votes :: governance_proof where
  "demo_votes = \<lparr> signatures = map (\<lambda>i. \<lparr> gsig_signer_id = [i], gsig_sig = replicate 64 0 \<rparr>) [1, 3] \<rparr>"

lemma demo_committee_valid: "validate_config (demo_committee e) = Inr ()"
  by (simp add: validate_config_def demo_committee_def)

lemma demo_votes_pass: "verify_governance_proof demo_crypto (demo_committee e) demo_votes msg = Inr ()"
proof -
  have "valid_signer demo_crypto (demo_committee e) msg \<lparr> gsig_signer_id = [i], gsig_sig = replicate 64 0 \<rparr>" if "i \<in> {1, 3}" for i
    using that by (auto simp: valid_signer_def find_signer_def demo_committee_def demo_verify)
  then have "endorsers demo_crypto (demo_committee e) msg (signatures demo_votes) = {[1], [3]}"
    by (auto simp: demo_votes_def endorsers_Cons)
  then show ?thesis using verify_governance_proof_iff [of "demo_committee e" demo_crypto demo_votes msg]
    by (simp add: demo_committee_def demo_votes_def)
qed

definition demo_cbor :: "governance_config \<Rightarrow> bytes" where "demo_cbor cfg = the (enc (gov_config_c wire_cbor) cfg)"

lemma demo_cbor: "enc (gov_config_c wire_cbor) cfg = Some (demo_cbor cfg)" "dec (gov_config_c wire_cbor) (demo_cbor cfg) = Inr cfg"
proof -
  obtain b where "enc (gov_config_c wire_cbor) cfg = Some b" "dec (gov_config_c wire_cbor) b = Inr cfg"
    using wire_cbor_ok(6) unfolding codec_ok_def by blast
  then show "enc (gov_config_c wire_cbor) cfg = Some (demo_cbor cfg)" "dec (gov_config_c wire_cbor) (demo_cbor cfg) = Inr cfg"
    by (simp_all add: demo_cbor_def)
qed

definition demo_votes_cbor :: bytes where "demo_votes_cbor = the (enc (gov_proof_c wire_cbor) demo_votes)"

lemma demo_votes_cbor: "dec (gov_proof_c wire_cbor) demo_votes_cbor = Inr demo_votes"
proof -
  obtain b where "enc (gov_proof_c wire_cbor) demo_votes = Some b" "dec (gov_proof_c wire_cbor) b = Inr demo_votes"
    using wire_cbor_ok(7) unfolding codec_ok_def by blast
  then show ?thesis by (simp add: demo_votes_cbor_def)
qed

definition demo_gov_store :: mem_state where
  "demo_gov_store = st_put (mem_ops demo_hash) demo_store Meta (str_bytes ''governance'') (demo_cbor (demo_committee 1))"

definition demo_gov_call :: tx_call where
  "demo_gov_call = SetGovernance (demo_cbor (demo_committee 2)) demo_votes_cbor"

lemma demo_gov_store:
  "mem_inv demo_gov_store" "load_or_default (mem_ops demo_hash) demo_ext demo_gov_store = load_or_default (mem_ops demo_hash) demo_ext demo_store"
  "load_governance (mem_ops demo_hash) demo_ext demo_gov_store = Some (demo_committee 1)"
  using demo_store_inv
  by (simp_all add: demo_gov_store_def mem.inv_put fun_eq_iff load_or_default_def load_def mem.get_put load_governance_def dec_opt_def demo_cbor)

lemma demo_governance_replaced:
  "load_governance (mem_ops demo_hash) demo_ext (snd (apply_block (mem_ops demo_hash) demo_ext demo_gov_store (demo_call_block demo_gov_call) 50)) =
     Some (demo_committee 2)"
proof -
  let ?ops = "mem_ops demo_hash"
  have ne: "demo_votes_cbor \<noteq> []"
    by (simp add: demo_votes_cbor_def wire_cbor_def wire_codec_def w_gov_proof_def w_iso_def w_list_def w_nat_def)
  have v: "validate_tx ?ops demo_ext 0 demo_gov_store (demo_call_tx demo_gov_call) demo_witness = Inr ((demo_staged 0 0)\<lparr>stx_to := alice\<rparr>)"
    by (simp add: validate_tx_def witness_pubkey_def demo_call_tx_def demo_tx_def demo_witness_def demo_verify demo_gov_store(2) demo_load
        default_account_def alice_def [symmetric] demo_staged_def Let_def checked_add_def demo_gov_call_def)
  have "snd (snd (registry ?ops (snd (apply_block ?ops demo_ext demo_gov_store (demo_call_block demo_gov_call) 50)))) = Some (demo_cbor (demo_committee 2))"
  proof (rule demo_call_registry [OF demo_gov_store(1,2) v])
    fix s1 assume s1: "mem_inv s1" "registry ?ops s1 = registry ?ops demo_gov_store"
    then have "load_governance ?ops demo_ext s1 = Some (demo_committee 1)" using registry_eqD(3) demo_gov_store(3) by metis
    then have "tx_effect ?ops demo_ext demo_header 0 alice demo_gov_call s1 =
        Inr (st_put ?ops s1 Meta (str_bytes ''governance'') (demo_cbor (demo_committee 2)))"
      by (simp add: demo_gov_call_def set_governance_effect_def demo_cbor demo_committee_valid gov_gate_def ne demo_votes_cbor demo_votes_pass put_record_def)
    then show "\<exists>s2. tx_effect ?ops demo_ext demo_header 0 alice demo_gov_call s1 = Inr s2 \<and> mem_inv s2 \<and>
        snd (snd (registry ?ops s2)) = Some (demo_cbor (demo_committee 2))"
      using s1(1) by (simp add: mem.inv_put registry_def mem.get_put)
  qed
  then show ?thesis by (simp add: load_governance_def registry_def dec_opt_def demo_cbor)
qed

theorem governance_needs_quorum_witness:
  "let s' = snd (apply_block (mem_ops demo_hash) demo_ext demo_gov_store (demo_call_block demo_gov_call) 50) in
     load_governance (mem_ops demo_hash) demo_ext demo_gov_store = Some (demo_committee 1) \<and>
     load_governance (mem_ops demo_hash) demo_ext s' = Some (demo_committee 2) \<and>
     gov_valid (mem_ops demo_hash) demo_ext s' \<and> consented_change demo_ext (demo_committee 1) demo_gov_call"
proof -
  let ?s = "snd (apply_block (mem_ops demo_hash) demo_ext demo_gov_store (demo_call_block demo_gov_call) 50)"
  have "gov_valid (mem_ops (hx demo_ext)) demo_ext demo_gov_store"
    by (simp add: gov_valid_def demo_gov_store(3) demo_committee_valid)
  from governance_needs_quorum [OF demo_gov_store(1) _ this, of "demo_call_block demo_gov_call" 50 _ ?s]
  have "gov_valid (mem_ops demo_hash) demo_ext ?s"
    "load_governance (mem_ops demo_hash) demo_ext ?s \<noteq> Some (demo_committee 1) \<Longrightarrow> consented_change demo_ext (demo_committee 1) demo_gov_call"
    using demo_gov_store(3) by (simp_all add: wire_cbor_ok demo_call_block_def demo_call_tx_def prod_eq_iff)
  moreover have "demo_committee 2 \<noteq> demo_committee 1" by (simp add: demo_committee_def)
  ultimately show ?thesis using demo_gov_store(3) demo_governance_replaced by (simp add: Let_def)
qed

text \<open>
  Claim C22. The threshold check accepts exactly the proofs with enough endorsers: for a configuration
  with a positive threshold, which every valid one has, a proof with
  at most \<open>2 ^ 32 - 1\<close> entries passes if and only if the number of distinct committee members
  whose first entry in the proof carries a valid signature reaches the threshold.
\<close>

theorem governance_proof_exact:
  assumes "0 < gc_threshold cfg" "length (signatures pf) < 2 ^ 32"
  shows "verify_governance_proof C cfg pf msg = Inr () \<longleftrightarrow>
    unat (gc_threshold cfg) \<le> card (endorsers C cfg msg (signatures pf))"
proof -
  have "card (endorsers C cfg msg sigs) \<le> length sigs" for sigs
  proof (induction sigs)
    case (Cons sg sigs)
    have "card (endorsers C cfg msg (sg # sigs)) \<le> Suc (card (endorsers C cfg msg sigs - {gsig_signer_id sg}))"
      by (auto simp: endorsers_Cons card_insert_if)
    also have "\<dots> \<le> Suc (card (endorsers C cfg msg sigs))" by (simp add: card_Diff1_le)
    finally show ?case using Cons by simp
  qed simp
  then have "gc_threshold cfg \<le> of_nat (length (signatures pf))"
    if "unat (gc_threshold cfg) \<le> card (endorsers C cfg msg (signatures pf))"
    using that assms(2) by (simp add: word_le_nat_alt unat_of_nat) (meson le_trans)
  then show ?thesis using verify_governance_proof_iff [OF assms(1)] by blast
qed

definition demo_config :: governance_config where
  "demo_config = \<lparr> gc_epoch = 1, gc_threshold = 1,
     gc_signers = [\<lparr> gs_signer_id = [1], gs_sig_algo = 3, gs_pubkey = alice_pk \<rparr>] \<rparr>"

definition demo_proof :: governance_proof where
  "demo_proof = \<lparr> signatures = [\<lparr> gsig_signer_id = [1], gsig_sig = [] \<rparr>, \<lparr> gsig_signer_id = [1], gsig_sig = replicate 64 0 \<rparr>] \<rparr>"

text \<open>
  The witness is the case of a malformed first entry: it hides the valid second one of the same
  member.
\<close>

theorem governance_proof_exact_witness:
  "verify_governance_proof demo_crypto demo_config demo_proof [] \<noteq> Inr ()"
proof -
  have "\<not> valid_signer demo_crypto demo_config [] \<lparr> gsig_signer_id = [1], gsig_sig = [] \<rparr>"
    by (simp add: valid_signer_def find_signer_def demo_config_def verify_def ed25519_verify_def ED_SIG_LEN_def)
  then have "endorsers demo_crypto demo_config [] (signatures demo_proof) = {}"
    by (simp add: demo_proof_def endorsers_Cons)
  then show ?thesis
    using governance_proof_exact [of demo_config demo_proof demo_crypto "[]"] by (simp add: demo_config_def demo_proof_def)
qed

section \<open>Attestations\<close>

text \<open>
  Claim C10. Attestation records and coordinator lists are guarded. Whenever a block, accepted or
  rejected, changes an entry of the attestation subtree, it contains a properly signed attestation
  or pedigree call for exactly that entry; the entry is the record of that call, and, unless the
  block registers coordinators for the job, the sender is one of the coordinators stored for the
  job before the block, if any are. And a block that does not replace the governance configuration
  changes a coordinator list only by a registration with the consent of a threshold of the
  committee.
\<close>

theorem attestations_authorised:
  assumes "mem_inv s" "keys_ok (hx X) (load_or_default (mem_ops (hx X)) X s)"
    and "apply_block (mem_ops (hx X)) X s blk reward = (res, s')"
  shows "(\<forall>k. mem_get s' Attest k \<noteq> mem_get s Attest k \<longrightarrow>
      (\<exists>n < length (txs (body blk)). \<exists>job b. let tx = txs (body blk) ! n in
         signed_tx X blk n \<and> attested X (header blk) (from_account tx) (call tx) = Some (job, k, b) \<and>
         mem_get s' Attest k = Some b \<and>
         ((\<forall>u \<in> set (txs (body blk)). \<not> registers job (call u)) \<longrightarrow>
            (\<forall>a. load_attest_authority (mem_ops (hx X)) X s job = Some a \<longrightarrow>
               ca_coordinators a = [] \<or> from_account tx \<in> set (ca_coordinators a))))) \<and>
    (\<forall>job cfg. load_attest_authority (mem_ops (hx X)) X s' job \<noteq> load_attest_authority (mem_ops (hx X)) X s job \<and>
       load_governance (mem_ops (hx X)) X s = Some cfg \<and> validate_config cfg = Inr () \<and>
       (\<forall>u \<in> set (txs (body blk)). \<not> sets_governance (call u)) \<longrightarrow>
       (\<exists>tx \<in> set (txs (body blk)). \<exists>cs g. call tx = RegisterAttestCoordinator job cs g \<and>
          gov_consent X cfg g (register_attest_gov_payload (hx X) job cs)))"
proof (intro conjI allI impI)
  fix k assume k: "mem_get s' Attest k \<noteq> mem_get s Attest k"
  have "st_get (mem_ops (hx X)) s' Attest k \<noteq> st_get (mem_ops (hx X)) s Attest k" using k by (simp add: mem_ops_def)
  from mem.apply_block_attest [OF assms(1,3) this assms(2)]
  obtain n job b where n: "n < length (txs (body blk))" "signed_tx X blk n"
    "attested X (header blk) (from_account (txs (body blk) ! n)) (call (txs (body blk) ! n)) = Some (job, k, b)"
    "mem_get s' Attest k = Some b"
    "(\<forall>u \<in> set (txs (body blk)). \<not> registers job (call u)) \<longrightarrow>
       \<not> coordinator_refused (mem_ops (hx X)) X s job (from_account (txs (body blk) ! n))"
    by (auto simp: Let_def mem_ops_def)
  then show "\<exists>n < length (txs (body blk)). \<exists>job b. let tx = txs (body blk) ! n in
         signed_tx X blk n \<and> attested X (header blk) (from_account tx) (call tx) = Some (job, k, b) \<and>
         mem_get s' Attest k = Some b \<and>
         ((\<forall>u \<in> set (txs (body blk)). \<not> registers job (call u)) \<longrightarrow>
            (\<forall>a. load_attest_authority (mem_ops (hx X)) X s job = Some a \<longrightarrow>
               ca_coordinators a = [] \<or> from_account tx \<in> set (ca_coordinators a)))"
    by (intro exI [of _ n] conjI exI [of _ job] exI [of _ b]) (auto simp: Let_def coordinator_refused_def)
qed (use mem.apply_block_authority [OF assms(1,3)] in blast)

definition demo_attest_block :: block where
  "demo_attest_block = demo_call_block (AttestRound [5] 2 [6] 3)"

lemma demo_attest_stored:
  "\<exists>b. mem_get (snd (apply_block (mem_ops demo_hash) demo_ext demo_store demo_attest_block 50)) Attest (attest_key [5] 2) = Some b"
proof -
  let ?ops = "mem_ops demo_hash"
  have v: "validate_tx ?ops demo_ext 0 demo_store (demo_call_tx (AttestRound [5] 2 [6] 3)) demo_witness = Inr ((demo_staged 0 0)\<lparr>stx_to := alice\<rparr>)"
    by (simp add: validate_tx_def witness_pubkey_def demo_call_tx_def demo_tx_def demo_witness_def demo_verify demo_load
        default_account_def alice_def [symmetric] demo_staged_def Let_def checked_add_def)
  have "\<exists>b. fst (registry ?ops (snd (apply_block ?ops demo_ext demo_store demo_attest_block 50))) (attest_key [5] 2) = Some b"
    unfolding demo_attest_block_def
  proof (rule demo_call_registry [OF demo_store_inv refl v])
    fix s1 assume s1: "mem_inv s1" "registry ?ops s1 = registry ?ops demo_store"
    have "registry ?ops demo_store = registry ?ops mem_new" by (simp add: demo_store_def mem.registry_save)
    then have "load_attest_authority ?ops demo_ext s1 [5] = None"
      using registry_eqD(2) [of ?ops s1 mem_new demo_ext] s1(2)
      by (simp add: load_attest_authority_def mem_ops_def mem_get_def mem_new_def bt_get_def)
    then obtain buf where "tx_effect ?ops demo_ext demo_header 0 alice (AttestRound [5] 2 [6] 3) s1 =
        Inr (st_put ?ops s1 Attest (attest_key [5] 2) buf)"
      by (auto simp: attest_round_effect_def coordinator_refused_def put_record_def wire_cbor_def wire_codec_def)
    then show "\<exists>s2. tx_effect ?ops demo_ext demo_header 0 alice (AttestRound [5] 2 [6] 3) s1 = Inr s2 \<and> mem_inv s2 \<and>
        (\<exists>b. fst (registry ?ops s2) (attest_key [5] 2) = Some b)"
      using s1(1) by (simp add: mem.inv_put registry_def mem.get_put)
  qed
  then show ?thesis by (simp add: registry_def mem_ops_def)
qed

theorem attestations_authorised_witness:
  "signed_tx demo_ext demo_attest_block 0 \<and>
   mem_get (snd (apply_block (mem_ops demo_hash) demo_ext demo_store demo_attest_block 50)) Attest (attest_key [5] 2) \<noteq>
     mem_get demo_store Attest (attest_key [5] 2)"
proof -
  let ?s = "snd (apply_block (mem_ops demo_hash) demo_ext demo_store demo_attest_block 50)"
  have "registry (mem_ops demo_hash) demo_store = registry (mem_ops demo_hash) mem_new" by (simp add: demo_store_def mem.registry_save)
  then have "mem_get demo_store Attest = mem_get mem_new Attest" by (simp add: registry_def mem_ops_def)
  then have ne: "mem_get ?s Attest (attest_key [5] 2) \<noteq> mem_get demo_store Attest (attest_key [5] 2)"
    using demo_attest_stored by (auto simp: mem_get_def mem_new_def bt_get_def)
  have "keys_ok (hx demo_ext) (load_or_default (mem_ops (hx demo_ext)) demo_ext demo_store)"
    by (simp add: keys_ok_def demo_load default_account_def)
  from attestations_authorised [OF demo_store_inv this surjective_pairing, of demo_attest_block 50, THEN conjunct1, rule_format, of "attest_key [5] 2"] ne
  show ?thesis by (auto simp: demo_attest_block_def demo_call_block_def Let_def)
qed

section \<open>Records\<close>

text \<open>
  Claim C33. After an accepted block its reflection record is what both lookups return, the
  reported root commits to the resulting contents, and a rotation pending for this height has
  become the active one.
\<close>

theorem block_records:
  assumes "mem_inv s" "codec_ok (reflection_c (kx X))" "codec_ok (active_c (kx X))"
    and "apply_block (mem_ops (hx X)) X s blk reward = (Inr out, s')"
  shows "load_latest_reflection (mem_ops (hx X)) X s' =
      Some (block_reflection blk (fees_collected_sat out) (coinbase_minted_sat out)) \<and>
    load_reflection_at (mem_ops (hx X)) X s' (height (header blk)) =
      Some (block_reflection blk (fees_collected_sat out) (coinbase_minted_sat out)) \<and>
    out_state_root out = root_of (hx X) (mem_get s') \<and>
    (\<forall>b p. mem_get s' Meta (str_bytes ''upgrade_crypto'') = Some b \<and> dec (pending_c (kx X)) b = Inr p \<and>
       pu_target_height p = height (header blk) \<longrightarrow>
       load_active_crypto (mem_ops (hx X)) X s' =
         Some \<lparr> ac_sig_algo = pu_sig_algo p, ac_hash_algo = pu_hash_algo p,
           ac_activated_at_height = height (header blk) \<rparr>)"
  using mem.apply_block_records [OF assms] by (auto simp: mem_ops_def)

theorem block_records_witness:
  "\<exists>out s'. apply_block (mem_ops demo_hash) demo_ext demo_store demo_block 50 = (Inr out, s') \<and>
     load_latest_reflection (mem_ops demo_hash) demo_ext s' =
       Some (block_reflection demo_block (fees_collected_sat out) (coinbase_minted_sat out))"
proof -
  obtain out s' where r: "apply_block (mem_ops demo_hash) demo_ext demo_store demo_block 50 = (Inr out, s')"
    using demo_block_accepted by blast
  from block_records [OF demo_store_inv, of demo_ext demo_block 50 out s'] r show ?thesis
    by (simp add: wire_cbor_ok)
qed

section \<open>Stores\<close>

text \<open>
  Claim C8. The persistent store behaves as the in-memory one: on stores with the same contents
  a block has the same result, state root included, and leaves stores with the same contents.
  Failing writes do not break this: whichever writes of the database fail, a block that does not
  end in a panic has that result and leaves those contents. Failing reads do: an account that cannot
  be read is taken for a new, empty one.
\<close>

theorem stores_agree:
  assumes "ordered_db D ok" "mem_inv s" "rocks_inv D ok (hx X) r" "rocks_get D r = mem_get s"
  shows "fst (apply_block (rocks_ops D (hx X)) X r blk reward) = fst (apply_block (mem_ops (hx X)) X s blk reward) \<and>
    rocks_get D (snd (apply_block (rocks_ops D (hx X)) X r blk reward)) =
    mem_get (snd (apply_block (mem_ops (hx X)) X s blk reward)) \<and>
    (\<forall>pf bf res r'. apply_block (rio_ops (with_faults D pf bf) (hx X)) X (Live r) blk reward = (res, Live r') \<longrightarrow>
       res = fst (apply_block (mem_ops (hx X)) X s blk reward) \<and>
       rocks_get D r' = mem_get (snd (apply_block (mem_ops (hx X)) X s blk reward))) \<and>
    (\<forall>F i e. io_get F (db r) (encode_key Accounts i) = Inl e \<longrightarrow>
       load_or_default (rio_ops F (hx X)) X (Live r) i = default_account)"
proof -
  let ?f = "apply_block (spec_ops (hx X)) X (mem_get s) blk reward"
  have "refines (mem_ops (hx X)) mem_inv s (mem_get s)" using assms(2) by (simp add: refines_def mem_ops_def)
  from mem.apply_block_refines [OF this, of X blk reward]
  have m: "fst (apply_block (mem_ops (hx X)) X s blk reward) = fst ?f"
    "mem_get (snd (apply_block (mem_ops (hx X)) X s blk reward)) = snd ?f"
    by (auto simp: rel_prod_sel refines_def mem_ops_def)
  have "refines (rocks_ops D (hx X)) (rocks_inv D ok (hx X)) r (mem_get s)"
    using assms(3,4) by (simp add: refines_def rocks_ops_def)
  from state_store.apply_block_refines [OF ordered_db.rocks_is_store [OF assms(1)] this, of X blk reward]
  have "fst (apply_block (rocks_ops D (hx X)) X r blk reward) = fst ?f"
    "rocks_get D (snd (apply_block (rocks_ops D (hx X)) X r blk reward)) = snd ?f"
    by (auto simp: rel_prod_sel refines_def rocks_ops_def)
  moreover have "apply_block (rocks_ops D (hx X)) X r blk reward = (res, r')"
    if "apply_block (rio_ops (with_faults D pf bf) (hx X)) X (Live r) blk reward = (res, Live r')" for pf bf res r'
    using wf.apply_block_fail_stop [OF _ that] by simp
  ultimately show ?thesis using m read_fault_is_default [of _ r] by fastforce
qed

theorem stores_agree_witness:
  "\<exists>out r'. apply_block (rocks_ops list_db demo_hash) demo_ext
      (rocks_import_from list_db \<lparr> db = [], cached_root = None \<rparr> demo_store) demo_block 50 = (Inr out, r')"
proof -
  let ?r = "rocks_import_from list_db \<lparr> db = [], cached_root = None \<rparr> demo_store"
  have "rocks_inv list_db bt_ok demo_hash \<lparr> db = [], cached_root = None \<rparr>"
    "rocks_get list_db \<lparr> db = [], cached_root = None \<rparr> = (\<lambda>_ _. None)"
    by (simp_all add: rocks_inv_def rocks_get_def list_db_def bt_ok_def bt_get_def fun_eq_iff)
  from ldb.rocks_import [OF this demo_store_inv]
  have "fst (apply_block (rocks_ops list_db demo_hash) demo_ext ?r demo_block 50) =
    fst (apply_block (mem_ops demo_hash) demo_ext demo_store demo_block 50)"
    using stores_agree [of list_db bt_ok demo_store demo_ext ?r demo_block 50] ldb.ordered_db_axioms demo_store_inv
    by simp
  then show ?thesis using demo_block_accepted by (metis fst_conv prod.collapse)
qed

end
