(* ===== verification/Finality.thy ===== *)
theory Finality
  imports State_Data
begin

text \<open>
  The finality gadget of \<open>crates/finality/src/lib.rs\<close>: committees, votes, certificates of
  individual votes and BLS-aggregated certificates. The locale \<open>quorum_cert\<close> states what a
  certificate promises (its signers are members, and there are at least a quorum of them) and
  derives that two certificates share signers; it is interpreted on both kinds of certificate,
  for the aggregated one under the condition that its bitmap has no bits beyond the committee.
\<close>

unbundle bit_operations_syntax

section \<open>Data\<close>

record validator_pubkey =
  vp_validator_id :: bytes
  vp_sig_algo :: u8
  vp_pubkey :: bytes

record committee =
  cm_epoch :: u64
  cm_members :: "validator_pubkey list"
  cm_epoch_blocks :: u64
  cm_quorum :: u32

record finalization_vote =
  fv_committee_epoch :: u64
  fv_round :: u64
  fv_block_height :: u64
  fv_block_hash :: bytes
  fv_validator_id :: bytes
  fv_sig_algo :: u8
  fv_sig :: bytes

record finalization_cert =
  fc_committee_epoch :: u64
  fc_round :: u64
  fc_block_height :: u64
  fc_block_hash :: bytes
  fc_votes :: "finalization_vote list"

record aggregated_cert =
  ag_committee_epoch :: u64
  ag_round :: u64
  ag_block_height :: u64
  ag_block_hash :: bytes
  ag_signer_bitmap :: bytes
  ag_agg_sig_algo :: u8
  ag_agg_sig :: bytes

datatype finality_error =
    BadVoteSignature bytes
  | WrongRound bytes u64 u64
  | WrongBlockHash bytes
  | DuplicateVote bytes
  | NotInCommittee bytes
  | BelowQuorum u32 u32
  | EpochMismatch u64 u64
  | VoteAlgoMismatch u8

section \<open>Operations\<close>

definition round_for_height :: "committee \<Rightarrow> u64 \<Rightarrow> u64 option" where
  "round_for_height com h =
     (if cm_epoch_blocks com = 0 then None
      else if h > 0 \<and> h mod cm_epoch_blocks com = 0 then Some (h div cm_epoch_blocks com)
      else None)"

definition vote_bytes :: "finalization_vote \<Rightarrow> bytes" where
  "vote_bytes v = str_bytes ''PGfinal'' @ [0] @ to_le (fv_committee_epoch v) @ to_le (fv_round v) @
     to_le (fv_block_height v) @ fv_block_hash v @ fv_validator_id v"

definition vote_signing_hash :: "hash_ext \<Rightarrow> finalization_vote \<Rightarrow> bytes" where
  "vote_signing_hash H v = blake3 H (vote_bytes v)"

definition payload_bytes :: "aggregated_cert \<Rightarrow> bytes" where
  "payload_bytes c = str_bytes ''PGfinalagg'' @ [0] @ to_le (ag_committee_epoch c) @ to_le (ag_round c) @
     to_le (ag_block_height c) @ ag_block_hash c"

definition signing_payload :: "hash_ext \<Rightarrow> aggregated_cert \<Rightarrow> bytes" where
  "signing_payload H c = blake3 H (payload_bytes c)"

definition count_ones :: "u8 \<Rightarrow> nat" where
  "count_ones b = length (filter (bit b) [0..<8])"

definition signer_count :: "aggregated_cert \<Rightarrow> u32" where
  "signer_count c = sum_list (map (\<lambda>b. of_nat (count_ones b)) (ag_signer_bitmap c))"

definition is_signer :: "aggregated_cert \<Rightarrow> nat \<Rightarrow> bool" where
  "is_signer c index \<longleftrightarrow>
     (if index div 8 < length (ag_signer_bitmap c)
      then drop_bit (index mod 8) (ag_signer_bitmap c ! (index div 8)) AND 1 = 1
      else False)"

definition find_member :: "committee \<Rightarrow> bytes \<Rightarrow> validator_pubkey option" where
  "find_member com i = find (\<lambda>m. vp_validator_id m = i) (cm_members com)"

definition verify_vote :: "ext \<Rightarrow> committee \<Rightarrow> finalization_vote \<Rightarrow> finality_error + unit" where
  "verify_vote X com v =
     (if fv_committee_epoch v \<noteq> cm_epoch com then Inl (EpochMismatch (fv_committee_epoch v) (cm_epoch com))
      else
        (case find_member com (fv_validator_id v) of
           None \<Rightarrow> Inl (NotInCommittee (fv_validator_id v))
         | Some m \<Rightarrow>
             if vp_sig_algo m \<noteq> fv_sig_algo v then Inl (VoteAlgoMismatch (fv_sig_algo v))
             else
               (case verify (cx X) (fv_sig_algo v) (vp_pubkey m) (fv_sig v) (vote_signing_hash (hx X) v) of
                  Inl e \<Rightarrow> Inl (BadVoteSignature (fv_validator_id v))
                | Inr u \<Rightarrow> Inr ())))"

fun check_votes ::
    "ext \<Rightarrow> committee \<Rightarrow> finalization_cert \<Rightarrow> bytes set \<Rightarrow> finalization_vote list \<Rightarrow> finality_error + unit" where
  "check_votes X com cert seen [] = Inr ()"
| "check_votes X com cert seen (v # vs) =
     (if fv_round v \<noteq> fc_round cert then Inl (WrongRound (fv_validator_id v) (fc_round cert) (fv_round v))
      else if fv_block_hash v \<noteq> fc_block_hash cert \<or> fv_block_height v \<noteq> fc_block_height cert
        then Inl (WrongBlockHash (fv_validator_id v))
      else if fv_validator_id v \<in> seen then Inl (DuplicateVote (fv_validator_id v))
      else
        (case verify_vote X com v of
           Inl e \<Rightarrow> Inl e
         | Inr u \<Rightarrow> check_votes X com cert (insert (fv_validator_id v) seen) vs))"

definition verify_cert :: "ext \<Rightarrow> committee \<Rightarrow> finalization_cert \<Rightarrow> finality_error + unit" where
  "verify_cert X com cert =
     (if fc_committee_epoch cert \<noteq> cm_epoch com then Inl (EpochMismatch (fc_committee_epoch cert) (cm_epoch com))
      else if length (fc_votes cert) < unat (cm_quorum com)
        then Inl (BelowQuorum (of_nat (length (fc_votes cert))) (cm_quorum com))
      else check_votes X com cert {} (fc_votes cert))"

definition reorg_allowed :: "u64 \<Rightarrow> u64 \<Rightarrow> bool" where
  "reorg_allowed finalized_height candidate_height \<longleftrightarrow> candidate_height \<ge> finalized_height"

fun collect_pks :: "aggregated_cert \<Rightarrow> nat \<Rightarrow> validator_pubkey list \<Rightarrow> finality_error + bytes list" where
  "collect_pks cert i [] = Inr []"
| "collect_pks cert i (m # ms) =
     (if \<not> is_signer cert i then collect_pks cert (Suc i) ms
      else if vp_sig_algo m \<noteq> 5 then Inl (VoteAlgoMismatch (vp_sig_algo m))
      else
        (case collect_pks cert (Suc i) ms of
           Inl e \<Rightarrow> Inl e
         | Inr pks \<Rightarrow> Inr (vp_pubkey m # pks)))"

definition verify_aggregated_cert :: "ext \<Rightarrow> committee \<Rightarrow> aggregated_cert \<Rightarrow> finality_error + unit" where
  "verify_aggregated_cert X com cert =
     (if ag_committee_epoch cert \<noteq> cm_epoch com then Inl (EpochMismatch (ag_committee_epoch cert) (cm_epoch com))
      else if signer_count cert < cm_quorum com then Inl (BelowQuorum (signer_count cert) (cm_quorum com))
      else if ag_agg_sig_algo cert \<noteq> 5 then Inl (VoteAlgoMismatch (ag_agg_sig_algo cert))
      else
        (case collect_pks cert 0 (cm_members com) of
           Inl e \<Rightarrow> Inl e
         | Inr signer_pks \<Rightarrow>
             if signer_pks = [] then Inl (BelowQuorum 0 (cm_quorum com))
             else
               (case aggregate_pubkeys (cx X) signer_pks of
                  Inl e \<Rightarrow> Inl (BadVoteSignature (replicate 32 0))
                | Inr agg_pk \<Rightarrow>
                    (case verify_aggregated (cx X) agg_pk (ag_agg_sig cert) (signing_payload (hx X) cert) of
                       Inl e \<Rightarrow> Inl (BadVoteSignature (replicate 32 0))
                     | Inr u \<Rightarrow> Inr ()))))"

section \<open>Rounds\<close>

lemma round_for_height_iff:
  "round_for_height com h = Some r \<longleftrightarrow>
     cm_epoch_blocks com \<noteq> 0 \<and> h \<noteq> 0 \<and> unat h = unat r * unat (cm_epoch_blocks com)"
proof -
  let ?e = "cm_epoch_blocks com"
  have "h mod ?e = 0 \<and> h div ?e = r \<longleftrightarrow> unat h = unat r * unat ?e" if "?e \<noteq> 0"
  proof
    assume a: "h mod ?e = 0 \<and> h div ?e = r"
    have "unat h = unat (h div ?e) * unat ?e + unat (h mod ?e)"
      by (simp add: word_nat unat_mod)
    with a show "unat h = unat r * unat ?e" by simp
  next
    assume a: "unat h = unat r * unat ?e"
    have "unat ?e \<noteq> 0" using that by (simp add: unsigned_eq_0_iff)
    then have "unat (h mod ?e) = 0" "unat (h div ?e) = unat r"
      by (simp_all add: word_nat unat_mod a)
    then show "h mod ?e = 0 \<and> h div ?e = r" by (metis unsigned_eq_0_iff unsigned_word_eqI)
  qed
  then show ?thesis unfolding round_for_height_def word_gt_0 by (metis option.inject option.distinct(1))
qed

section \<open>What a certificate promises\<close>

locale quorum_cert =
  fixes accepted :: "'c \<Rightarrow> bool" and signers_of :: "'c \<Rightarrow> 'v set" and members :: "'v set" and q :: nat
  assumes finite_members: "finite members"
    and signers_members: "accepted c \<Longrightarrow> signers_of c \<subseteq> members"
    and signers_quorum: "accepted c \<Longrightarrow> q \<le> card (signers_of c)"
begin

lemma overlap:
  assumes "accepted c" "accepted d"
  shows "2 * q \<le> card members + card (signers_of c \<inter> signers_of d)"
proof -
  have fin: "finite (signers_of c)" "finite (signers_of d)"
    using assms signers_members finite_members finite_subset by blast+
  have "card (signers_of c) + card (signers_of d) =
      card (signers_of c \<union> signers_of d) + card (signers_of c \<inter> signers_of d)"
    by (rule card_Un_Int [OF fin])
  moreover have "card (signers_of c \<union> signers_of d) \<le> card members"
    using assms signers_members finite_members by (intro card_mono) auto
  moreover have "q \<le> card (signers_of c)" "q \<le> card (signers_of d)"
    using assms signers_quorum by blast+
  ultimately show ?thesis by linarith
qed

lemma full_quorum:
  assumes "accepted c" "q = card members"
  shows "signers_of c = members"
  using assms signers_members signers_quorum finite_members by (metis card_seteq)

end

section \<open>Certificates of votes\<close>

definition voters :: "finalization_cert \<Rightarrow> bytes set" where
  "voters cert = fv_validator_id ` set (fc_votes cert)"

definition vote_for :: "finalization_cert \<Rightarrow> finalization_vote \<Rightarrow> bool" where
  "vote_for cert v \<longleftrightarrow> fv_round v = fc_round cert \<and> fv_block_height v = fc_block_height cert \<and>
     fv_block_hash v = fc_block_hash cert"

lemma check_votes_iff:
  "check_votes X com cert seen vs = Inr () \<longleftrightarrow>
     list_all (\<lambda>v. vote_for cert v \<and> verify_vote X com v = Inr ()) vs \<and>
     distinct (map fv_validator_id vs) \<and> fv_validator_id ` set vs \<inter> seen = {}"
  by (induction vs arbitrary: seen) (auto simp: vote_for_def split: sum.splits)

lemma verify_cert_iff:
  "verify_cert X com cert = Inr () \<longleftrightarrow>
     fc_committee_epoch cert = cm_epoch com \<and> unat (cm_quorum com) \<le> length (fc_votes cert) \<and>
     list_all (\<lambda>v. vote_for cert v \<and> verify_vote X com v = Inr ()) (fc_votes cert) \<and>
     distinct (map fv_validator_id (fc_votes cert))"
  by (auto simp: verify_cert_def check_votes_iff)

lemma verify_vote_Inr:
  assumes "verify_vote X com v = Inr ()"
  obtains m where "m \<in> set (cm_members com)" "vp_validator_id m = fv_validator_id v"
    "fv_committee_epoch v = cm_epoch com"
    "verify (cx X) (vp_sig_algo m) (vp_pubkey m) (fv_sig v) (vote_signing_hash (hx X) v) = Inr ()"
proof -
  from assms obtain m where m: "find_member com (fv_validator_id v) = Some m" "fv_committee_epoch v = cm_epoch com"
    "vp_sig_algo m = fv_sig_algo v"
    "verify (cx X) (fv_sig_algo v) (vp_pubkey m) (fv_sig v) (vote_signing_hash (hx X) v) = Inr ()"
    by (auto simp: verify_vote_def split: if_splits option.splits sum.splits)
  from m(1) have "m \<in> set (cm_members com)" "vp_validator_id m = fv_validator_id v"
    by (auto simp: find_member_def find_Some_iff)
  then show thesis by (rule that [OF _ _ m(2) m(4) [folded m(3)]])
qed

abbreviation member_ids :: "committee \<Rightarrow> bytes set" where
  "member_ids com \<equiv> vp_validator_id ` set (cm_members com)"

interpretation plain: quorum_cert "\<lambda>cert. verify_cert X com cert = Inr ()" voters "member_ids com" "unat (cm_quorum com)"
  for X com
proof
  fix cert
  assume "verify_cert X com cert = Inr ()"
  then have a: "list_all (\<lambda>v. verify_vote X com v = Inr ()) (fc_votes cert)"
      "distinct (map fv_validator_id (fc_votes cert))" "unat (cm_quorum com) \<le> length (fc_votes cert)"
    by (auto simp: verify_cert_iff list_all_iff)
  show "voters cert \<subseteq> member_ids com"
  proof
    fix i
    assume "i \<in> voters cert"
    then obtain v where "verify_vote X com v = Inr ()" "i = fv_validator_id v"
      using a(1) by (auto simp: voters_def list_all_iff)
    then show "i \<in> member_ids com" by (metis verify_vote_Inr image_eqI)
  qed
  have "card (voters cert) = length (fc_votes cert)"
    using distinct_card [OF a(2)] by (simp add: voters_def)
  with a(3) show "unat (cm_quorum com) \<le> card (voters cert)" by simp
qed simp

lemma conflicting_votes_differ:
  assumes "vote_for c a" "vote_for d b" "fv_committee_epoch a = fv_committee_epoch b"
    and "fv_validator_id a = fv_validator_id b"
    and "(fc_round c, fc_block_height c, fc_block_hash c) \<noteq> (fc_round d, fc_block_height d, fc_block_hash d)"
  shows "vote_bytes a \<noteq> vote_bytes b"
  using assms by (auto simp: vote_bytes_def vote_for_def)

text \<open>
  The validators that a pair of certificates convicts: each has two votes with different signed
  messages, both valid under its one registered key.
\<close>

definition double_signers :: "ext \<Rightarrow> committee \<Rightarrow> finalization_cert \<Rightarrow> finalization_cert \<Rightarrow> bytes set" where
  "double_signers X com c d =
     {i. \<exists>a \<in> set (fc_votes c). \<exists>b \<in> set (fc_votes d). \<exists>m. find_member com i = Some m \<and>
        fv_validator_id a = i \<and> fv_validator_id b = i \<and> vote_bytes a \<noteq> vote_bytes b \<and>
        verify (cx X) (vp_sig_algo m) (vp_pubkey m) (fv_sig a) (vote_signing_hash (hx X) a) = Inr () \<and>
        verify (cx X) (vp_sig_algo m) (vp_pubkey m) (fv_sig b) (vote_signing_hash (hx X) b) = Inr ()}"

lemma verify_vote_member:
  assumes "verify_vote X com v = Inr ()"
  shows "fv_committee_epoch v = cm_epoch com \<and> (\<exists>m. find_member com (fv_validator_id v) = Some m \<and>
    verify (cx X) (vp_sig_algo m) (vp_pubkey m) (fv_sig v) (vote_signing_hash (hx X) v) = Inr ())"
  using assms by (auto simp: verify_vote_def split: if_splits option.splits sum.splits)

lemma common_voters_double_sign:
  assumes "verify_cert X com c = Inr ()" "verify_cert X com d = Inr ()"
    and "(fc_round c, fc_block_height c, fc_block_hash c) \<noteq> (fc_round d, fc_block_height d, fc_block_hash d)"
  shows "voters c \<inter> voters d = double_signers X com c d"
proof
  show "voters c \<inter> voters d \<subseteq> double_signers X com c d"
  proof
    fix i
    assume "i \<in> voters c \<inter> voters d"
    then obtain a b where ab: "a \<in> set (fc_votes c)" "b \<in> set (fc_votes d)" "fv_validator_id a = i" "fv_validator_id b = i"
      by (auto simp: voters_def)
    then have v: "vote_for c a" "vote_for d b" "verify_vote X com a = Inr ()" "verify_vote X com b = Inr ()"
      using assms(1,2) by (auto simp: verify_cert_iff list_all_iff)
    note m = verify_vote_member [OF v(3)] verify_vote_member [OF v(4)]
    have "vote_bytes a \<noteq> vote_bytes b"
      using m ab by (intro conflicting_votes_differ [OF v(1,2) _ _ assms(3)]) simp_all
    moreover obtain mem where "find_member com i = Some mem"
      "verify (cx X) (vp_sig_algo mem) (vp_pubkey mem) (fv_sig a) (vote_signing_hash (hx X) a) = Inr ()"
      "verify (cx X) (vp_sig_algo mem) (vp_pubkey mem) (fv_sig b) (vote_signing_hash (hx X) b) = Inr ()"
      using m ab(3,4) by auto
    ultimately show "i \<in> double_signers X com c d"
      unfolding double_signers_def using ab by (intro CollectI bexI [of _ a] bexI [of _ b] exI [of _ mem]) simp_all
  qed
  show "double_signers X com c d \<subseteq> voters c \<inter> voters d"
  proof
    fix i
    assume "i \<in> double_signers X com c d"
    then obtain a b where "a \<in> set (fc_votes c)" "b \<in> set (fc_votes d)" "fv_validator_id a = i" "fv_validator_id b = i"
      unfolding double_signers_def mem_Collect_eq by metis
    then show "i \<in> voters c \<inter> voters d" unfolding voters_def by (metis IntI image_eqI)
  qed
qed

section \<open>Aggregated certificates\<close>

lemma is_signer_bit: "is_signer c i \<longleftrightarrow> i div 8 < length (ag_signer_bitmap c) \<and> bit (ag_signer_bitmap c ! (i div 8)) (i mod 8)"
  by (simp add: is_signer_def bit_iff_and_drop_bit_eq_1)

lemma card_bitmap:
  "card {i. i div 8 < length bm \<and> bit (bm ! (i div 8)) (i mod 8)} = sum_list (map count_ones bm)"
proof (induction bm)
  case (Cons b bm)
  let ?S = "{i. i div 8 < length bm \<and> bit (bm ! (i div 8)) (i mod 8)}"
  let ?B = "{i. i < 8 \<and> bit b i}"
  have e: "(j + 8) div 8 = Suc (j div 8)" for j :: nat by simp
  have "{i. i div 8 < length (b # bm) \<and> bit ((b # bm) ! (i div 8)) (i mod 8)} = ?B \<union> (\<lambda>i. i + 8) ` ?S"
  proof (intro set_eqI iffI)
    fix i
    assume i: "i \<in> {i. i div 8 < length (b # bm) \<and> bit ((b # bm) ! (i div 8)) (i mod 8)}"
    show "i \<in> ?B \<union> (\<lambda>i. i + 8) ` ?S"
    proof (cases "i < 8")
      case False
      then obtain j where "i = j + 8" by (metis add.commute le_Suc_ex not_less)
      then show ?thesis using i by (auto simp: e)
    qed (use i in simp)
  qed (auto simp: e)
  moreover have "finite ?S"
    by (rule finite_subset [of _ "{..< 8 * length bm}"]) auto
  moreover have "?B \<inter> (\<lambda>i. i + 8) ` ?S = {}" by auto
  moreover have "card ?B = count_ones b"
  proof -
    have "?B = set (filter (bit b) [0..<8])" by auto
    then show ?thesis by (simp only: count_ones_def distinct_card distinct_filter distinct_upt)
  qed
  moreover have "card ((\<lambda>i. i + 8) ` ?S) = card ?S" by (rule card_image) simp
  ultimately show ?case using Cons by (simp add: card_Un_disjoint)
qed simp

lemma signer_count_card:
  assumes "8 * length (ag_signer_bitmap c) < 2 ^ 32"
  shows "unat (signer_count c) = card {i. is_signer c i}"
proof -
  have "count_ones b \<le> 8" for b
    using length_filter_le [of "bit b" "[0..<8]"] by (simp add: count_ones_def)
  then have "sum_list (map count_ones bm) \<le> 8 * length bm" for bm
    by (induction bm) (simp_all add: add_mono)
  then have "sum_list (map count_ones (ag_signer_bitmap c)) < 2 ^ 32"
    using assms le_less_trans by blast
  moreover have "sum_list (map (\<lambda>b. of_nat (count_ones b)) bm) = (of_nat (sum_list (map count_ones bm)) :: u32)" for bm
    by (induction bm) simp_all
  ultimately show ?thesis using card_bitmap [of "ag_signer_bitmap c"] by (simp add: signer_count_def is_signer_bit unat_of_nat)
qed

definition bitmap_fits :: "committee \<Rightarrow> aggregated_cert \<Rightarrow> bool" where
  "bitmap_fits com cert \<longleftrightarrow> 8 * length (ag_signer_bitmap cert) < 2 ^ 32 \<and>
     list_all (\<lambda>i. \<not> is_signer cert i) [length (cm_members com)..<8 * length (ag_signer_bitmap cert)]"

definition agg_signers :: "committee \<Rightarrow> aggregated_cert \<Rightarrow> nat set" where
  "agg_signers com cert = {i. i < length (cm_members com) \<and> is_signer cert i}"

definition agg_keys :: "committee \<Rightarrow> aggregated_cert \<Rightarrow> bytes list" where
  "agg_keys com cert = map (\<lambda>i. vp_pubkey (cm_members com ! i)) (filter (is_signer cert) [0..<length (cm_members com)])"

lemma bitmap_fits_signers:
  assumes "bitmap_fits com cert"
  shows "{i. is_signer cert i} = agg_signers com cert" "unat (signer_count cert) = card (agg_signers com cert)"
proof -
  have "i < length (cm_members com)" if "is_signer cert i" for i
  proof (rule ccontr)
    assume "\<not> i < length (cm_members com)"
    moreover have "i < 8 * length (ag_signer_bitmap cert)" using that by (auto simp: is_signer_bit)
    ultimately show False using assms that by (auto simp: bitmap_fits_def list_all_iff)
  qed
  then show e: "{i. is_signer cert i} = agg_signers com cert" by (auto simp: agg_signers_def)
  show "unat (signer_count cert) = card (agg_signers com cert)"
    unfolding e [symmetric] by (rule signer_count_card) (use assms in \<open>simp add: bitmap_fits_def\<close>)
qed

lemma collect_pks_iff:
  "collect_pks cert k ms = Inr pks \<longleftrightarrow>
     pks = map (\<lambda>i. vp_pubkey (ms ! (i - k))) (filter (is_signer cert) [k..<k + length ms]) \<and>
     (\<forall>j < length ms. is_signer cert (k + j) \<longrightarrow> vp_sig_algo (ms ! j) = 5)"
proof (induction ms arbitrary: k pks)
  case (Cons m ms)
  have u: "[k..<k + length (m # ms)] = k # [Suc k..<Suc k + length ms]" by (subst upt_conv_Cons) simp_all
  have m: "map (\<lambda>i. vp_pubkey ((m # ms) ! (i - k))) (filter (is_signer cert) [Suc k..<Suc k + length ms]) =
      map (\<lambda>i. vp_pubkey (ms ! (i - Suc k))) (filter (is_signer cert) [Suc k..<Suc k + length ms])"
    by (rule map_cong) (auto simp: nth_Cons')
  have a: "(\<forall>j < length (m # ms). is_signer cert (k + j) \<longrightarrow> vp_sig_algo ((m # ms) ! j) = 5) \<longleftrightarrow>
      (is_signer cert k \<longrightarrow> vp_sig_algo m = 5) \<and>
      (\<forall>j < length ms. is_signer cert (Suc k + j) \<longrightarrow> vp_sig_algo (ms ! j) = 5)"
    by (simp add: All_less_Suc2)
  define L P where "L = map (\<lambda>i. vp_pubkey (ms ! (i - Suc k))) (filter (is_signer cert) [Suc k..<Suc k + length ms])"
    and "P \<longleftrightarrow> (\<forall>j < length ms. is_signer cert (Suc k + j) \<longrightarrow> vp_sig_algo (ms ! j) = 5)"
  have IH: "collect_pks cert (Suc k) ms = Inr pks' \<longleftrightarrow> pks' = L \<and> P" for pks'
    unfolding L_def P_def by (rule Cons.IH)
  have r: "map (\<lambda>i. vp_pubkey ((m # ms) ! (i - k))) (filter (is_signer cert) (k # [Suc k..<Suc k + length ms])) =
      (if is_signer cert k then vp_pubkey m # L else L)"
    using m by (simp add: L_def)
  show ?case
  proof (cases "collect_pks cert (Suc k) ms")
    case (Inl e)
    then have "\<not> P" using IH [of L] by simp
    then show ?thesis unfolding u a P_def [symmetric] r by (simp add: Inl)
  next
    case (Inr p)
    then have "p = L" P using IH [of p] by simp_all
    then show ?thesis unfolding u a P_def [symmetric] r by (auto simp: Inr)
  qed
qed auto

lemma verify_aggregated_cert_iff:
  "verify_aggregated_cert X com cert = Inr () \<longleftrightarrow>
     ag_committee_epoch cert = cm_epoch com \<and> cm_quorum com \<le> signer_count cert \<and> ag_agg_sig_algo cert = 5 \<and>
     (\<forall>i \<in> agg_signers com cert. vp_sig_algo (cm_members com ! i) = 5) \<and> agg_signers com cert \<noteq> {} \<and>
     (\<exists>apk. aggregate_pubkeys (cx X) (agg_keys com cert) = Inr apk \<and>
        verify_aggregated (cx X) apk (ag_agg_sig cert) (signing_payload (hx X) cert) = Inr ())"
proof -
  have c: "collect_pks cert 0 (cm_members com) = Inr pks \<longleftrightarrow>
      pks = agg_keys com cert \<and> (\<forall>i \<in> agg_signers com cert. vp_sig_algo (cm_members com ! i) = 5)" for pks
    by (auto simp: collect_pks_iff agg_keys_def agg_signers_def)
  have e: "agg_keys com cert = [] \<longleftrightarrow> agg_signers com cert = {}"
    by (auto simp: agg_keys_def agg_signers_def filter_empty_conv)
  show ?thesis
  proof (cases "collect_pks cert 0 (cm_members com)")
    case (Inl err)
    then have "\<not> (\<forall>i \<in> agg_signers com cert. vp_sig_algo (cm_members com ! i) = 5)"
      using c [of "agg_keys com cert"] by auto
    then show ?thesis by (auto simp: verify_aggregated_cert_def Inl)
  next
    case (Inr pks)
    then have "pks = agg_keys com cert" "\<forall>i \<in> agg_signers com cert. vp_sig_algo (cm_members com ! i) = 5"
      using c [of pks] by auto
    then show ?thesis by (auto simp: verify_aggregated_cert_def Inr e not_less split: sum.splits)
  qed
qed

interpretation agg: quorum_cert
  "\<lambda>cert. bitmap_fits com cert \<and> verify_aggregated_cert X com cert = Inr ()" "agg_signers com"
  "{..<length (cm_members com)}" "unat (cm_quorum com)" for X com
proof
  fix cert
  assume a: "bitmap_fits com cert \<and> verify_aggregated_cert X com cert = Inr ()"
  show "agg_signers com cert \<subseteq> {..<length (cm_members com)}" by (auto simp: agg_signers_def)
  show "unat (cm_quorum com) \<le> card (agg_signers com cert)"
    using a bitmap_fits_signers(2) [of com cert] by (auto simp: verify_aggregated_cert_iff word_le_nat_alt)
qed simp

text \<open>
  Bits beyond the committee count toward the quorum: one real signer and a padded bitmap pass.
\<close>

definition padded_bitmap :: "committee \<Rightarrow> bytes" where
  "padded_bitmap com = 1 # replicate (length (cm_members com)) 0 @ replicate ((unat (cm_quorum com) + 7) div 8) 0xFF"

lemma padded_bitmap_count:
  assumes "unat (cm_quorum com) < 2 ^ 31" "ag_signer_bitmap c = padded_bitmap com"
  shows "cm_quorum com \<le> signer_count c"
proof -
  have "count_ones 1 = 1" "count_ones 0 = 0" "count_ones 0xFF = 8" by (simp_all add: count_ones_def upt_conv_Cons)
  then have c: "signer_count c = of_nat (1 + (unat (cm_quorum com) + 7) div 8 * 8)"
    by (simp add: signer_count_def assms(2) padded_bitmap_def sum_list_replicate)
  have "1 + (unat (cm_quorum com) + 7) div 8 * 8 < 2 ^ 32" using assms(1) by simp
  moreover have "unat (cm_quorum com) \<le> 1 + (unat (cm_quorum com) + 7) div 8 * 8" by presburger
  ultimately show ?thesis unfolding c word_le_nat_alt unat_of_nat by simp
qed

lemma padded_bitmap_signers:
  assumes "ag_signer_bitmap c = padded_bitmap com" "cm_members com \<noteq> []"
  shows "agg_signers com c = {0}"
proof -
  have "is_signer c i \<longleftrightarrow> i = 0" if "i < length (cm_members com)" for i
  proof (cases "i div 8 = 0")
    case True
    then have "i < 8" by simp
    then show ?thesis by (auto simp: is_signer_bit assms(1) padded_bitmap_def bit_1_iff)
  next
    case False
    then obtain j where j: "i div 8 = Suc j" by (metis not0_implies_Suc)
    then have "j < length (cm_members com)" using that by linarith
    then show ?thesis using j by (auto simp: is_signer_bit assms(1) padded_bitmap_def nth_append)
  qed
  then show ?thesis using assms(2) by (auto simp: agg_signers_def)
qed

end
