(* ===== verification/P2p.thy ===== *)
theory P2p
  imports Core_Hash
begin

text \<open>
  The peer-to-peer protocol of \<open>crates/p2p/src/lib.rs\<close>: message envelopes, what their signing
  hash covers, and the in-process broker. The broker is refined against a specification on
  histories of operations: what a peer receives is computed from the history alone.
\<close>

section \<open>Data\<close>

definition WIRE_VERSION :: u8 where "WIRE_VERSION = 1"

definition TESTNET_P2P_PORT :: nat where "TESTNET_P2P_PORT = 8546"
definition MAINNET_P2P_PORT :: nat where "MAINNET_P2P_PORT = 9546"

definition topics_ALL :: "string list" where
  "topics_ALL = [''pg/v1/block-header'', ''pg/v1/compact-block'', ''pg/v1/tx'', ''pg/v1/finality-vote'',
     ''pg/v1/finality-cert'', ''pg/v1/governance'', ''pg/v1/peer-info'', ''pg/v1/attestation'']"

type_synonym peer_id = bytes

definition peer_from_pubkey :: "hash_ext \<Rightarrow> bytes \<Rightarrow> peer_id" where
  "peer_from_pubkey H pk = blake3 H (str_bytes ''PGpeer'' @ [0] @ pk)"

text \<open>The text of a peer id, with the encoder of the \<open>hex\<close> crate, and its short form for logs: \<open>None\<close> is the panic of a slice out of range.\<close>

definition peer_hex :: "(bytes \<Rightarrow> string) \<Rightarrow> peer_id \<Rightarrow> string" where
  "peer_hex hex p = hex p"

definition peer_display :: "(bytes \<Rightarrow> string) \<Rightarrow> peer_id \<Rightarrow> string option" where
  "peer_display hex p =
     (let s = peer_hex hex p in
      if length s < 8 then None else Some (''peer('' @ take 8 s @ ellipsis @ '')''))"

lemma peer_display_total:
  assumes "\<And>bs. length (hex bs) = 2 * length bs" "hash_ok H"
  shows "\<exists>s. peer_display hex (peer_from_pubkey H pk) = Some s"
  using assms by (simp add: peer_display_def peer_hex_def peer_from_pubkey_def hash_ok_def Let_def)

datatype p2p_payload =
    BlockHeaderMsg u64 bytes
  | TxBytes bytes bytes bytes
  | FinalityVoteMsg bytes bytes
  | FinalityCertMsg bytes bytes
  | PeerInfo u64 bytes u32
  | GovernanceAnnounce bytes bytes
  | Attestation bytes bytes

record p2p_message =
  pm_version :: u8
  pm_from :: peer_id
  pm_topic :: string
  pm_seq :: u64
  pm_payload :: p2p_payload

datatype p2p_error =
    UnknownPeer peer_id
  | WireVersionMismatch u8 u8
  | UnknownTopic string
  | MalformedCbor string
  | NoSubscription

section \<open>Signing hash\<close>

fun payload_sig_bytes :: "p2p_payload \<Rightarrow> bytes" where
  "payload_sig_bytes (BlockHeaderMsg height header_hash) = [1] @ to_le height @ header_hash"
| "payload_sig_bytes (TxBytes tx_hash tx_cbor witness_cbor) = [2] @ tx_hash"
| "payload_sig_bytes (FinalityVoteMsg vote_hash vote_cbor) = [3] @ vote_hash"
| "payload_sig_bytes (FinalityCertMsg cert_hash cert_cbor) = [4] @ cert_hash"
| "payload_sig_bytes (PeerInfo head_height head_hash protocol_version) = [5] @ to_le head_height"
| "payload_sig_bytes (GovernanceAnnounce tx_hash tx_cbor) = [6] @ tx_hash"
| "payload_sig_bytes (Attestation tx_hash tx_cbor) = [7] @ tx_hash"

definition message_bytes :: "p2p_message \<Rightarrow> bytes" where
  "message_bytes m = str_bytes ''PGp2pmsg'' @ [0] @ [pm_version m] @ pm_from m @ len32 (pm_topic m) @
     str_bytes (pm_topic m) @ to_le (pm_seq m) @ payload_sig_bytes (pm_payload m)"

definition message_signing_hash :: "hash_ext \<Rightarrow> p2p_message \<Rightarrow> bytes" where
  "message_signing_hash H m = blake3 H (message_bytes m)"

text \<open>The part of a payload that the signing hash covers.\<close>

fun payload_core :: "p2p_payload \<Rightarrow> p2p_payload" where
  "payload_core (BlockHeaderMsg height header_hash) = BlockHeaderMsg height header_hash"
| "payload_core (TxBytes tx_hash tx_cbor witness_cbor) = TxBytes tx_hash [] []"
| "payload_core (FinalityVoteMsg vote_hash vote_cbor) = FinalityVoteMsg vote_hash []"
| "payload_core (FinalityCertMsg cert_hash cert_cbor) = FinalityCertMsg cert_hash []"
| "payload_core (PeerInfo head_height head_hash protocol_version) = PeerInfo head_height [] 0"
| "payload_core (GovernanceAnnounce tx_hash tx_cbor) = GovernanceAnnounce tx_hash []"
| "payload_core (Attestation tx_hash tx_cbor) = Attestation tx_hash []"

lemma payload_sig_bytes_iff: "payload_sig_bytes p = payload_sig_bytes q \<longleftrightarrow> payload_core p = payload_core q"
  by (cases p; cases q) auto

definition message_wf :: "p2p_message \<Rightarrow> bool" where
  "message_wf m \<longleftrightarrow> length (pm_from m) = 32 \<and> length (pm_topic m) < 2 ^ 32"

lemma message_bytes_iff:
  assumes "message_wf a" "message_wf b"
  shows "message_bytes a = message_bytes b \<longleftrightarrow>
    pm_version a = pm_version b \<and> pm_from a = pm_from b \<and> pm_topic a = pm_topic b \<and> pm_seq a = pm_seq b \<and>
    payload_core (pm_payload a) = payload_core (pm_payload b)"
proof -
  have "message_bytes a = message_bytes b \<longleftrightarrow>
      pm_version a = pm_version b \<and> pm_from a = pm_from b \<and>
      len32 (pm_topic a) @ str_bytes (pm_topic a) @ to_le (pm_seq a) @ payload_sig_bytes (pm_payload a) =
      len32 (pm_topic b) @ str_bytes (pm_topic b) @ to_le (pm_seq b) @ payload_sig_bytes (pm_payload b)"
    using assms by (simp add: message_bytes_def message_wf_def)
  moreover have "length (pm_topic a) = length (pm_topic b)" if "len32 (pm_topic a) = len32 (pm_topic b)"
    using that assms len32_inj by (auto simp: message_wf_def)
  ultimately show ?thesis by (auto simp: payload_sig_bytes_iff str_bytes_inj)
qed

section \<open>Broker\<close>

record broker =
  subscriptions :: "peer_id \<rightharpoonup> string list"
  inboxes :: "peer_id \<rightharpoonup> p2p_message list"

definition or_default :: "'a list option \<Rightarrow> 'a list" where
  "or_default e = (case e of None \<Rightarrow> [] | Some l \<Rightarrow> l)"

definition broker_new :: broker where
  "broker_new = \<lparr> subscriptions = (\<lambda>_. None), inboxes = (\<lambda>_. None) \<rparr>"

definition broker_join :: "broker \<Rightarrow> peer_id \<Rightarrow> broker" where
  "broker_join g peer =
     g\<lparr>subscriptions := (subscriptions g)(peer \<mapsto> or_default (subscriptions g peer)),
       inboxes := (inboxes g)(peer \<mapsto> or_default (inboxes g peer))\<rparr>"

definition broker_subscribe :: "broker \<Rightarrow> peer_id \<Rightarrow> string \<Rightarrow> (p2p_error + unit) \<times> broker" where
  "broker_subscribe g peer topic =
     (if topic \<notin> set topics_ALL then (Inl (UnknownTopic topic), g)
      else
        let subs = or_default (subscriptions g peer);
            subs = (if topic \<in> set subs then subs else subs @ [topic]) in
        (Inr (), g\<lparr>subscriptions := (subscriptions g)(peer \<mapsto> subs)\<rparr>))"

definition is_recipient :: "broker \<Rightarrow> p2p_message \<Rightarrow> peer_id \<Rightarrow> bool" where
  "is_recipient g msg p \<longleftrightarrow>
     (case subscriptions g p of None \<Rightarrow> False | Some ts \<Rightarrow> p \<noteq> pm_from msg \<and> pm_topic msg \<in> set ts)"

definition broker_publish :: "broker \<Rightarrow> p2p_message \<Rightarrow> (p2p_error + unit) \<times> broker" where
  "broker_publish g msg =
     (if pm_version msg \<noteq> WIRE_VERSION then (Inl (WireVersionMismatch (pm_version msg) WIRE_VERSION), g)
      else if pm_topic msg \<notin> set topics_ALL then (Inl (UnknownTopic (pm_topic msg)), g)
      else (Inr (), g\<lparr>inboxes := (\<lambda>p. if is_recipient g msg p then Some (or_default (inboxes g p) @ [msg])
                                   else inboxes g p)\<rparr>))"

definition broker_recv :: "broker \<Rightarrow> peer_id \<Rightarrow> p2p_message list \<times> broker" where
  "broker_recv g peer = (or_default (inboxes g peer), g\<lparr>inboxes := (inboxes g)(peer \<mapsto> [])\<rparr>)"

section \<open>Histories\<close>

datatype broker_op = Join peer_id | Subscribe peer_id string | Publish p2p_message | Recv peer_id

fun broker_exec :: "broker_op \<Rightarrow> broker \<Rightarrow> broker" where
  "broker_exec (Join p) g = broker_join g p"
| "broker_exec (Subscribe p t) g = snd (broker_subscribe g p t)"
| "broker_exec (Publish m) g = snd (broker_publish g m)"
| "broker_exec (Recv p) g = snd (broker_recv g p)"

definition broker_run :: "broker_op list \<Rightarrow> broker" where
  "broker_run ops = fold broker_exec ops broker_new"

text \<open>
  The specification, on the history of operations with the newest first: a published message is
  pending for a peer that had subscribed to its topic before, unless the peer sent it, until the
  peer receives.
\<close>

definition delivers :: "broker_op list \<Rightarrow> p2p_message \<Rightarrow> peer_id \<Rightarrow> bool" where
  "delivers hist m p \<longleftrightarrow> pm_version m = WIRE_VERSION \<and> pm_topic m \<in> set topics_ALL \<and> p \<noteq> pm_from m \<and>
     Subscribe p (pm_topic m) \<in> set hist"

fun pending_for :: "broker_op list \<Rightarrow> peer_id \<Rightarrow> p2p_message list" where
  "pending_for [] p = []"
| "pending_for (Publish m # hist) p = pending_for hist p @ (if delivers hist m p then [m] else [])"
| "pending_for (Recv q # hist) p = (if p = q then [] else pending_for hist p)"
| "pending_for (op # hist) p = pending_for hist p"

lemma or_default_simps [simp]: "or_default None = []" "or_default (Some l) = l"
  by (simp_all add: or_default_def)

lemma broker_subscriptions:
  "set (or_default (subscriptions (broker_run ops) p)) = {t. Subscribe p t \<in> set ops \<and> t \<in> set topics_ALL}"
proof (induction ops rule: rev_induct)
  case Nil
  then show ?case by (simp add: broker_run_def broker_new_def)
next
  case (snoc op ops)
  have run: "broker_run (ops @ [op]) = broker_exec op (broker_run ops)" by (simp add: broker_run_def)
  show ?case
    using snoc unfolding run
    by (cases op) (auto simp: broker_join_def broker_subscribe_def broker_publish_def broker_recv_def Let_def)
qed

lemma is_recipient_alt: "is_recipient g m p \<longleftrightarrow> p \<noteq> pm_from m \<and> pm_topic m \<in> set (or_default (subscriptions g p))"
  by (auto simp: is_recipient_def split: option.splits)

lemma broker_inbox: "or_default (inboxes (broker_run ops) p) = pending_for (rev ops) p"
proof (induction ops rule: rev_induct)
  case Nil
  then show ?case by (simp add: broker_run_def broker_new_def)
next
  case (snoc op ops)
  have run: "broker_run (ops @ [op]) = broker_exec op (broker_run ops)" by (simp add: broker_run_def)
  show ?case
    using snoc broker_subscriptions [of ops p] unfolding run
    by (cases op)
      (auto simp: broker_join_def broker_subscribe_def broker_publish_def broker_recv_def Let_def
        is_recipient_alt delivers_def)
qed

end
