(* ===== verification/Mempool.thy ===== *)
theory Mempool
  imports Core_Tx Pg_BTree
begin

text \<open>
  The mempool of \<open>crates/node/src/mempool.rs\<close>. The lock makes every operation atomic; the
  wall clock a submission reads is an argument. \<open>mempool_reach\<close> is the set of pools that any
  sequence of operations can produce, and the invariant is proved by induction on it.
\<close>

section \<open>Data and operations\<close>

record pending_tx =
  ptx_body :: tx_body
  ptx_witness :: witness
  ptx_received_ms :: u64

record mempool =
  pool :: "(bytes, pending_tx) btree"
  pool_cap :: nat

datatype mempool_error = PoolWitnessMismatch | PoolDuplicate

definition mempool_new :: "nat \<Rightarrow> mempool" where
  "mempool_new c = \<lparr> pool = [], pool_cap = c \<rparr>"

text \<open>\<open>iter().min_by_key(..)\<close>: the first entry with the least arrival time.\<close>

fun oldest_entry :: "(bytes \<times> pending_tx) list \<Rightarrow> (bytes \<times> pending_tx) option" where
  "oldest_entry [] = None"
| "oldest_entry (e # es) =
     (case oldest_entry es of
        None \<Rightarrow> Some e
      | Some f \<Rightarrow> if ptx_received_ms (snd e) \<le> ptx_received_ms (snd f) then Some e else Some f)"

definition mempool_evict :: "mempool \<Rightarrow> (bytes, pending_tx) btree" where
  "mempool_evict mp =
     (if length (pool mp) \<ge> pool_cap mp
      then (case oldest_entry (pool mp) of None \<Rightarrow> pool mp | Some e \<Rightarrow> bt_remove (fst e) (pool mp))
      else pool mp)"

definition mempool_submit :: "hash_ext \<Rightarrow> u64 \<Rightarrow> mempool \<Rightarrow> tx_body \<Rightarrow> witness \<Rightarrow> (mempool_error + bytes) \<times> mempool" where
  "mempool_submit H now mp bd w =
     (if witness_hash bd \<noteq> witness_digest H w then (Inl PoolWitnessMismatch, mp)
      else
        let h = body_hash H bd in
        if bt_get (pool mp) h \<noteq> None then (Inl PoolDuplicate, mp)
        else
          (Inr h, mp\<lparr>pool := bt_insert h \<lparr> ptx_body = bd, ptx_witness = w, ptx_received_ms = now \<rparr>
                       (mempool_evict mp)\<rparr>))"

definition fee_order :: "hash_ext \<Rightarrow> pending_tx \<Rightarrow> int \<times> bytes" where
  "fee_order H t = (- int (unat (fee_sat (ptx_body t))), body_hash H (ptx_body t))"

definition pull_for_block :: "hash_ext \<Rightarrow> mempool \<Rightarrow> nat \<Rightarrow> pending_tx list" where
  "pull_for_block H mp mx = take mx (sort_key (fee_order H) (map snd (pool mp)))"

definition mempool_confirm :: "mempool \<Rightarrow> bytes list \<Rightarrow> mempool" where
  "mempool_confirm mp hashes = mp\<lparr>pool := fold bt_remove hashes (pool mp)\<rparr>"

definition mempool_len :: "mempool \<Rightarrow> nat" where
  "mempool_len mp = length (pool mp)"

definition pending_hashes :: "(bytes \<Rightarrow> string) \<Rightarrow> mempool \<Rightarrow> string list" where
  "pending_hashes hex mp = map (\<lambda>e. hex (fst e)) (pool mp)"

section \<open>Invariant\<close>

definition mempool_ok :: "hash_ext \<Rightarrow> mempool \<Rightarrow> bool" where
  "mempool_ok H mp \<longleftrightarrow> bt_ok (pool mp) \<and> length (pool mp) \<le> max 1 (pool_cap mp) \<and>
     list_all (\<lambda>(h, t). h = body_hash H (ptx_body t) \<and>
       witness_hash (ptx_body t) = witness_digest H (ptx_witness t)) (pool mp)"

lemma oldest_entry_None: "oldest_entry es = None \<longleftrightarrow> es = []"
  by (cases es) (auto split: option.splits)

lemma oldest_entry_Some:
  "oldest_entry es = Some e \<Longrightarrow> e \<in> set es \<and> (\<forall>f \<in> set es. ptx_received_ms (snd e) \<le> ptx_received_ms (snd f))"
proof (induction es arbitrary: e)
  case (Cons a es)
  show ?case
  proof (cases "oldest_entry es")
    case None
    then show ?thesis using Cons.prems by (simp add: oldest_entry_None)
  next
    case (Some g)
    from Cons.IH [OF Some] Cons.prems Some show ?thesis
      by (auto split: if_splits dest: order_trans [of "ptx_received_ms (snd a)"])
  qed
qed simp

lemma set_bt_remove: "set (bt_remove k m) \<subseteq> set m"
  by (auto simp: bt_remove_def)

lemma set_bt_insert: "set (bt_insert k v m) \<subseteq> insert (k, v) (set m)"
  by (induction k v m rule: bt_insert.induct) auto

lemma mempool_evict_ok:
  assumes "mempool_ok H mp"
  shows "bt_ok (mempool_evict mp)" "set (mempool_evict mp) \<subseteq> set (pool mp)"
    "Suc (length (mempool_evict mp)) \<le> max 1 (pool_cap mp)"
proof -
  have ok: "bt_ok (pool mp)" "length (pool mp) \<le> max 1 (pool_cap mp)" using assms by (simp_all add: mempool_ok_def)
  show "bt_ok (mempool_evict mp)" "set (mempool_evict mp) \<subseteq> set (pool mp)"
    using ok by (auto simp: mempool_evict_def bt_ok_remove split: option.splits dest: subsetD [OF set_bt_remove])
  show "Suc (length (mempool_evict mp)) \<le> max 1 (pool_cap mp)"
  proof (cases "length (pool mp) \<ge> pool_cap mp")
    case True
    show ?thesis
    proof (cases "oldest_entry (pool mp)")
      case None
      then show ?thesis using True by (simp add: mempool_evict_def oldest_entry_None)
    next
      case (Some e)
      then have "(fst e, snd e) \<in> set (pool mp)" using oldest_entry_Some by simp
      then have "bt_get (pool mp) (fst e) = Some (snd e)"
        unfolding bt_get_def by (rule map_of_is_SomeI [OF bt_ok_distinct [OF ok(1)]])
      then have "Suc (length (bt_remove (fst e) (pool mp))) = length (pool mp)"
        by (rule length_bt_remove [OF ok(1)])
      then show ?thesis using True Some ok by (simp add: mempool_evict_def)
    qed
  qed (simp add: mempool_evict_def)
qed

lemma mempool_submit_cases:
  obtains (rejected) e where "mempool_submit H now mp bd w = (Inl e, mp)"
  | (accepted) "witness_hash bd = witness_digest H w" "bt_get (pool mp) (body_hash H bd) = None"
      "mempool_submit H now mp bd w =
        (Inr (body_hash H bd), mp\<lparr>pool := bt_insert (body_hash H bd)
           \<lparr> ptx_body = bd, ptx_witness = w, ptx_received_ms = now \<rparr> (mempool_evict mp)\<rparr>)"
  by (cases "witness_hash bd = witness_digest H w"; cases "bt_get (pool mp) (body_hash H bd)")
    (simp_all add: mempool_submit_def Let_def)

lemma mempool_ok_new [simp]: "mempool_ok H (mempool_new c)"
  by (simp add: mempool_ok_def mempool_new_def)

lemma mempool_ok_submit:
  assumes "mempool_ok H mp"
  shows "mempool_ok H (snd (mempool_submit H now mp bd w))"
proof (cases rule: mempool_submit_cases [of H now mp bd w])
  case (rejected e)
  then show ?thesis using assms by simp
next
  case accepted
  note ev = mempool_evict_ok [OF assms]
  let ?t = "\<lparr> ptx_body = bd, ptx_witness = w, ptx_received_ms = now \<rparr>"
  have "length (bt_insert (body_hash H bd) ?t (mempool_evict mp)) \<le> Suc (length (mempool_evict mp))"
    using length_bt_insert [OF ev(1)] by simp
  then have "length (bt_insert (body_hash H bd) ?t (mempool_evict mp)) \<le> max 1 (pool_cap mp)"
    using ev(3) by (rule order_trans)
  moreover have sub: "set (bt_insert (body_hash H bd) ?t (mempool_evict mp)) \<subseteq> insert (body_hash H bd, ?t) (set (pool mp))"
    by (rule order_trans [OF set_bt_insert insert_mono [OF ev(2)]])
  have "list_all (\<lambda>(h, t). h = body_hash H (ptx_body t) \<and>
      witness_hash (ptx_body t) = witness_digest H (ptx_witness t)) (bt_insert (body_hash H bd) ?t (mempool_evict mp))"
    unfolding list_all_iff
  proof
    fix e
    assume "e \<in> set (bt_insert (body_hash H bd) ?t (mempool_evict mp))"
    then have "e = (body_hash H bd, ?t) \<or> e \<in> set (pool mp)" using sub by blast
    then show "case e of (h, t) \<Rightarrow> h = body_hash H (ptx_body t) \<and> witness_hash (ptx_body t) = witness_digest H (ptx_witness t)"
      using assms accepted(1) unfolding mempool_ok_def list_all_iff by fastforce
  qed
  ultimately show ?thesis
    using accepted(3) bt_ok_insert [OF ev(1)] by (simp add: mempool_ok_def)
qed

lemma fold_bt_remove:
  "bt_ok m \<Longrightarrow> bt_ok (fold bt_remove hs m) \<and> set (fold bt_remove hs m) \<subseteq> set m \<and>
     length (fold bt_remove hs m) \<le> length m \<and>
     bt_get (fold bt_remove hs m) = (\<lambda>h. if h \<in> set hs then None else bt_get m h)"
proof (induction hs arbitrary: m)
  case (Cons h hs)
  from Cons.IH [OF bt_ok_remove [OF Cons.prems], of h] set_bt_remove [of h m] length_bt_remove_le [of h m]
  show ?case by (auto simp: bt_get_remove fun_eq_iff)
qed simp

lemma mempool_ok_confirm: "mempool_ok H mp \<Longrightarrow> mempool_ok H (mempool_confirm mp hs)"
  using fold_bt_remove [of "pool mp" hs] by (auto simp: mempool_ok_def mempool_confirm_def list_all_iff)

inductive mempool_reach :: "hash_ext \<Rightarrow> nat \<Rightarrow> mempool \<Rightarrow> bool" for H c where
  reach_new: "mempool_reach H c (mempool_new c)"
| reach_submit: "mempool_reach H c mp \<Longrightarrow> mempool_reach H c (snd (mempool_submit H now mp bd w))"
| reach_confirm: "mempool_reach H c mp \<Longrightarrow> mempool_reach H c (mempool_confirm mp hs)"

lemma pool_cap_const: "mempool_reach H c mp \<Longrightarrow> pool_cap mp = c"
proof (induction rule: mempool_reach.induct)
  case (reach_submit mp now bd w)
  then show ?case by (cases rule: mempool_submit_cases [of H now mp bd w]) simp_all
qed (simp_all add: mempool_new_def mempool_confirm_def)

lemma mempool_reach_ok: "mempool_reach H c mp \<Longrightarrow> mempool_ok H mp"
  by (induction rule: mempool_reach.induct) (simp_all add: mempool_ok_submit mempool_ok_confirm)

section \<open>What a miner pulls\<close>

lemma take_sort_key_le:
  assumes "t \<in> set (take n (sort_key f xs))" "u \<in> set (drop n (sort_key f xs))"
  shows "f t \<le> f u"
proof -
  have "sorted (map f (take n (sort_key f xs) @ drop n (sort_key f xs)))" by simp
  then show ?thesis using assms by (simp only: map_append sorted_append) auto
qed

lemma set_pull_split: "set (map snd (pool mp)) = set (pull_for_block H mp mx) \<union> set (drop mx (sort_key (fee_order H) (map snd (pool mp))))"
  unfolding pull_for_block_def set_append [symmetric] append_take_drop_id by simp

lemma pull_best:
  assumes "t \<in> set (pull_for_block H mp mx)" "u \<in> set (map snd (pool mp))" "u \<notin> set (pull_for_block H mp mx)"
  shows "fee_sat (ptx_body u) \<le> fee_sat (ptx_body t)"
proof -
  have "u \<in> set (drop mx (sort_key (fee_order H) (map snd (pool mp))))"
    using assms(2,3) set_pull_split [of mp H mx] by blast
  then have "fee_order H t \<le> fee_order H u"
    using assms(1) unfolding pull_for_block_def by (intro take_sort_key_le [where f = "fee_order H"])
  then show ?thesis by (auto simp: fee_order_def word_le_def less_eq_prod_def)
qed

lemma distinct_pull:
  assumes "mempool_ok H mp"
  shows "distinct (map (\<lambda>t. body_hash H (ptx_body t)) (pull_for_block H mp mx))"
proof -
  have "map (\<lambda>t. body_hash H (ptx_body t)) (map snd (pool mp)) = map fst (pool mp)"
    using assms by (auto simp: mempool_ok_def list_all_iff)
  then have "distinct (map (\<lambda>t. body_hash H (ptx_body t)) (map snd (pool mp)))"
    using assms by (simp only: mempool_ok_def bt_ok_distinct)
  then have "distinct (map (\<lambda>t. body_hash H (ptx_body t)) (sort_key (fee_order H) (map snd (pool mp))))"
    by (simp only: distinct_map distinct_sort set_sort simp_thms)
  then show ?thesis by (simp only: pull_for_block_def take_map [symmetric] distinct_take)
qed

end
