(* ===== verification/Chainstore.thy ===== *)
theory Chainstore
  imports State_Data
begin

text \<open>
  The append-only block log of \<open>crates/node/src/chainstore.rs\<close>. The file is its contents
  (\<open>None\<close> when it does not exist); the block codec is third-party code. Reading and writing do
  not fail here, but every early end of the file is a branch: a log that a crash cut short is a
  prefix of a log.
\<close>

section \<open>Data and operations\<close>

datatype log_error = LogUnexpectedEof | LogDecode string | LogEncode

record chain_store =
  log_file :: "bytes option"
  cs_tip :: "block option"
  cs_count :: u64
  cs_primed :: bool

text \<open>
  The read loop. A length field that is cut short ends the loop silently; a body that is cut
  short is an error.
\<close>

function read_blocks :: "block codec \<Rightarrow> bytes \<Rightarrow> log_error + block list" where
  "read_blocks K f =
     (if length f < 4 then Inr []
      else
        let len = unat (from_le (take 4 f) :: u32); rest = drop 4 f in
        if length rest < len then Inl LogUnexpectedEof
        else
          (case dec K (take len rest) of
             Inl e \<Rightarrow> Inl (LogDecode e)
           | Inr blk \<Rightarrow>
               (case read_blocks K (drop len rest) of
                  Inl e \<Rightarrow> Inl e
                | Inr bs \<Rightarrow> Inr (blk # bs))))"
  by pat_completeness auto
termination by (relation "measure (\<lambda>(K, f). length f)") auto

declare read_blocks.simps [simp del]

definition read_all_from_disk :: "block codec \<Rightarrow> bytes option \<Rightarrow> log_error + block list" where
  "read_all_from_disk K f = (case f of None \<Rightarrow> Inr [] | Some b \<Rightarrow> read_blocks K b)"

definition cs_prime :: "block codec \<Rightarrow> chain_store \<Rightarrow> log_error + chain_store" where
  "cs_prime K cs =
     (case read_all_from_disk K (log_file cs) of
        Inl e \<Rightarrow> Inl e
      | Inr blocks \<Rightarrow>
          Inr (cs\<lparr>cs_count := of_nat (length blocks),
                 cs_tip := (if blocks = [] then None else Some (last blocks)), cs_primed := True\<rparr>))"

definition cs_open :: "block codec \<Rightarrow> bytes option \<Rightarrow> log_error + chain_store" where
  "cs_open K f = cs_prime K \<lparr> log_file = f, cs_tip = None, cs_count = 0, cs_primed = False \<rparr>"

definition log_entry :: "bytes \<Rightarrow> bytes" where
  "log_entry buf = len32 buf @ buf"

definition cs_append :: "block codec \<Rightarrow> chain_store \<Rightarrow> block \<Rightarrow> (log_error + unit) \<times> chain_store" where
  "cs_append K cs blk =
     (case enc K blk of
        None \<Rightarrow> (Inl LogEncode, cs)
      | Some buf \<Rightarrow>
          (Inr (), cs\<lparr>log_file := Some ((case log_file cs of None \<Rightarrow> [] | Some f \<Rightarrow> f) @ log_entry buf),
                     cs_count := cs_count cs + 1, cs_tip := Some blk\<rparr>))"

definition cs_load_all :: "block codec \<Rightarrow> chain_store \<Rightarrow> log_error + block list" where
  "cs_load_all K cs = read_all_from_disk K (log_file cs)"

definition cs_height :: "chain_store \<Rightarrow> u64" where
  "cs_height cs = (case cs_tip cs of None \<Rightarrow> 0 | Some b \<Rightarrow> height (header b))"

definition cs_len :: "chain_store \<Rightarrow> u64" where
  "cs_len cs = cs_count cs"

definition cs_recent :: "block codec \<Rightarrow> chain_store \<Rightarrow> nat \<Rightarrow> log_error + block list" where
  "cs_recent K cs n = map_sum id (\<lambda>bs. rev (drop (length bs - n) bs)) (cs_load_all K cs)"

definition cs_get_by_height :: "block codec \<Rightarrow> chain_store \<Rightarrow> u64 \<Rightarrow> log_error + block option" where
  "cs_get_by_height K cs h = map_sum id (find (\<lambda>b. height (header b) = h)) (cs_load_all K cs)"

section \<open>The log as a list of blocks\<close>

text \<open>The length field has 32 bits: a block of four gigabytes or more would be misread.\<close>

definition fits_log :: "block codec \<Rightarrow> block \<Rightarrow> bool" where
  "fits_log K b \<longleftrightarrow> (case enc K b of None \<Rightarrow> False | Some buf \<Rightarrow> length buf < 2 ^ 32)"

text \<open>A log that holds \<open>bs\<close>, byte for byte.\<close>

fun log_of :: "block codec \<Rightarrow> block list \<Rightarrow> bytes option" where
  "log_of K [] = Some []"
| "log_of K (b # bs) =
     (case (enc K b, log_of K bs) of
        (Some buf, Some rest) \<Rightarrow> if length buf < 2 ^ 32 then Some (log_entry buf @ rest) else None
      | _ \<Rightarrow> None)"

lemma read_log_entry:
  assumes "length buf < 2 ^ 32"
  shows "read_blocks K (log_entry buf @ rest) =
    (case dec K buf of
       Inl e \<Rightarrow> Inl (LogDecode e)
     | Inr blk \<Rightarrow> (case read_blocks K rest of Inl e \<Rightarrow> Inl e | Inr bs \<Rightarrow> Inr (blk # bs)))"
proof -
  have "unat (from_le (len32 buf) :: u32) = length buf"
    using assms by (simp add: len32_def unat_of_nat)
  then show ?thesis
    by (subst read_blocks.simps) (cases "dec K buf"; simp add: log_entry_def Let_def)
qed

lemma enc_dec: "codec_ok K \<Longrightarrow> enc K b = Some buf \<Longrightarrow> dec K buf = Inr b"
  unfolding codec_ok_def by (metis option.inject)

lemma log_of_Cons:
  assumes "log_of K (b # bs) = Some f"
  obtains buf rest where "enc K b = Some buf" "log_of K bs = Some rest" "f = log_entry buf @ rest" "length buf < 2 ^ 32"
  using assms by (auto split: option.splits if_splits)

lemma read_log:
  assumes "codec_ok K" "log_of K bs = Some f"
  shows "read_blocks K (f @ tail) = map_sum id (\<lambda>cs. bs @ cs) (read_blocks K tail)"
  using assms(2)
proof (induction bs arbitrary: f)
  case Nil
  then show ?case by (cases "read_blocks K tail") simp_all
next
  case (Cons b bs)
  obtain buf rest where e: "enc K b = Some buf" "log_of K bs = Some rest" "f = log_entry buf @ rest" "length buf < 2 ^ 32"
    using log_of_Cons [OF Cons.prems] .
  from Cons.IH [OF e(2)] show ?case
    by (cases "read_blocks K tail") (simp_all add: e(3) read_log_entry [OF e(4)] enc_dec [OF assms(1) e(1)])
qed

lemma log_of_append:
  "log_of K (bs @ cs) = (case (log_of K bs, log_of K cs) of (Some f, Some g) \<Rightarrow> Some (f @ g) | _ \<Rightarrow> None)"
  by (induction bs) (auto split: option.splits)

section \<open>Store invariant\<close>

text \<open>\<open>cs_inv K cs bs\<close>: the file is exactly the log of \<open>bs\<close>, and the cache agrees with it.\<close>

definition cs_inv :: "block codec \<Rightarrow> chain_store \<Rightarrow> block list \<Rightarrow> bool" where
  "cs_inv K cs bs \<longleftrightarrow> log_of K bs = Some (case log_file cs of None \<Rightarrow> [] | Some f \<Rightarrow> f) \<and>
     cs_tip cs = (if bs = [] then None else Some (last bs)) \<and> cs_count cs = of_nat (length bs) \<and> cs_primed cs"

lemma read_blocks_Nil [simp]: "read_blocks K [] = Inr []"
  by (subst read_blocks.simps) simp

lemma cs_load_all_inv:
  assumes "codec_ok K" "cs_inv K cs bs"
  shows "cs_load_all K cs = Inr bs"
  using assms(2) read_log [OF assms(1), of bs _ "[]"]
  by (auto simp: cs_inv_def cs_load_all_def read_all_from_disk_def split: option.splits)

lemma cs_append_inv:
  assumes "cs_inv K cs bs" "fits_log K blk"
  shows "fst (cs_append K cs blk) = Inr ()" "cs_inv K (snd (cs_append K cs blk)) (bs @ [blk])"
  using assms by (auto simp: cs_append_def cs_inv_def log_of_append fits_log_def split: option.splits)

lemma cs_open_inv:
  assumes "codec_ok K" "log_of K bs = Some f"
  shows "\<exists>cs. cs_open K (Some f) = Inr cs \<and> cs_inv K cs bs \<and> log_file cs = Some f"
  using assms(2) read_log [OF assms, of "[]"]
  by (auto simp: cs_open_def cs_prime_def read_all_from_disk_def cs_inv_def)

lemma cs_open_empty: "\<exists>cs. cs_open K None = Inr cs \<and> cs_inv K cs []"
  by (simp add: cs_open_def cs_prime_def read_all_from_disk_def cs_inv_def)

lemma log_of_Nil: "log_of K bs = Some [] \<Longrightarrow> bs = []"
proof (cases bs)
  case (Cons b bs')
  assume "log_of K bs = Some []"
  then obtain buf rest where "[] = log_entry buf @ rest" unfolding Cons by (rule log_of_Cons)
  then have "len32 buf = []" unfolding log_entry_def by (metis append_is_Nil_conv)
  then show ?thesis using length_len32 [of buf] by (metis list.size(3) zero_neq_numeral)
qed simp

lemma same_store:
  assumes "cs_inv K a bs" "cs_inv K b bs" "log_file a = log_file b"
  shows "a = b"
  using assms by (cases a; cases b) (simp add: cs_inv_def)

text \<open>A reopened store is the store that was written: the cache is rebuilt from the file.\<close>

lemma cs_reopen:
  assumes "codec_ok K" "cs_inv K cs bs" "bs \<noteq> []"
  shows "cs_open K (log_file cs) = Inr cs"
proof -
  obtain f where f: "log_file cs = Some f" "log_of K bs = Some f"
    using assms(2,3) log_of_Nil [of K bs] by (cases "log_file cs") (auto simp: cs_inv_def)
  obtain cs' where "cs_open K (Some f) = Inr cs'" "cs_inv K cs' bs" "log_file cs' = Some f"
    using cs_open_inv [OF assms(1) f(2)] by blast
  then show ?thesis using same_store [OF _ assms(2), of cs'] f(1) by simp
qed

definition append_all :: "block codec \<Rightarrow> block list \<Rightarrow> chain_store \<Rightarrow> chain_store" where
  "append_all K bs cs = fold (\<lambda>b cs. snd (cs_append K cs b)) bs cs"

lemma append_all_inv:
  assumes "cs_inv K cs bs" "list_all (fits_log K) new"
  shows "cs_inv K (append_all K new cs) (bs @ new)"
  using assms(2)
proof (induction new rule: rev_induct)
  case Nil
  then show ?case using assms(1) by (simp add: append_all_def)
next
  case (snoc b new)
  then have "cs_inv K (append_all K new cs) (bs @ new)" "fits_log K b" by simp_all
  from cs_append_inv(2) [OF this] show ?case by (simp add: append_all_def)
qed

section \<open>Torn logs\<close>

text \<open>
  A log cut off at any byte. Either the reader reports an error, or it returns a prefix of the
  blocks; a cut inside a length field is not noticed.
\<close>

lemma read_torn_entry:
  assumes "length buf < 2 ^ 32" "n < length (log_entry buf)"
  shows "read_blocks K (take n (log_entry buf)) = (if n < 4 then Inr [] else Inl LogUnexpectedEof)"
proof (cases "n < 4")
  case True
  then have "length (take n (log_entry buf)) < 4" by simp
  then show ?thesis using True by (subst read_blocks.simps) simp
next
  case False
  then have "take n (log_entry buf) = len32 buf @ take (n - 4) buf" by (simp add: log_entry_def)
  moreover have "unat (from_le (len32 buf) :: u32) = length buf"
    using assms(1) by (simp add: len32_def unat_of_nat)
  moreover have "n - 4 < length buf" using assms(2) False by (simp add: log_entry_def)
  ultimately show ?thesis using False by (subst read_blocks.simps) (simp add: Let_def)
qed

lemma open_torn_log:
  assumes "codec_ok K" "log_of K bs = Some f" "length buf < 2 ^ 32" "n < length (log_entry buf)"
  shows "cs_open K (Some (f @ take n (log_entry buf))) =
    (if n < 4 then Inr \<lparr> log_file = Some (f @ take n (log_entry buf)), cs_tip = (if bs = [] then None else Some (last bs)),
       cs_count = of_nat (length bs), cs_primed = True \<rparr>
     else Inl LogUnexpectedEof)"
  by (simp add: cs_open_def cs_prime_def read_all_from_disk_def read_log [OF assms(1,2)] read_torn_entry [OF assms(3,4)])

lemma read_torn_log:
  assumes "codec_ok K" "log_of K bs = Some f"
  shows "\<exists>k \<le> length bs. read_blocks K (take n f) = Inr (take k bs) \<or> read_blocks K (take n f) = Inl LogUnexpectedEof"
  using assms(2)
proof (induction bs arbitrary: f n)
  case (Cons b bs)
  obtain buf rest where e: "enc K b = Some buf" "log_of K bs = Some rest" "f = log_entry buf @ rest" "length buf < 2 ^ 32"
    using log_of_Cons [OF Cons.prems] .
  show ?case
  proof (cases "n < length (log_entry buf)")
    case True
    then have "take n f = take n (log_entry buf)" by (simp add: e(3))
    then have "read_blocks K (take n f) = (if n < 4 then Inr [] else Inl LogUnexpectedEof)"
      using read_torn_entry [OF e(4) True] by simp
    then show ?thesis by (intro exI [of _ 0]) simp
  next
    case False
    then have "take n f = log_entry buf @ take (n - length (log_entry buf)) rest" by (simp add: e(3))
    then have r: "read_blocks K (take n f) =
        (case read_blocks K (take (n - length (log_entry buf)) rest) of Inl e \<Rightarrow> Inl e | Inr bs' \<Rightarrow> Inr (b # bs'))"
      by (simp add: read_log_entry [OF e(4)] enc_dec [OF assms(1) e(1)])
    obtain k where "k \<le> length bs" "read_blocks K (take (n - length (log_entry buf)) rest) = Inr (take k bs) \<or>
        read_blocks K (take (n - length (log_entry buf)) rest) = Inl LogUnexpectedEof"
      using Cons.IH [OF e(2)] by blast
    then show ?thesis by (intro exI [of _ "Suc k"]) (auto simp: r)
  qed
qed simp

end
