(* ===== verification/Claims_Net.thy ===== *)
theory Claims_Net
  imports Instance Finality P2p Mempool Chainstore
begin

text \<open>
  The properties of the finality gadget, the peer-to-peer broker, the mempool and the block log,
  each with a witness at a concrete input where it has hypotheses.
\<close>

section \<open>Finality\<close>

text \<open>
  Claim C11. Accountable safety: if two verified certificates of a committee disagree on the round,
  the height or the block, the validators that signed both are convicted by them (two valid
  signatures under the registered key on different messages), and there are at least twice the
  quorum minus the size of the committee of them.
\<close>

theorem conflicting_certs_convict:
  assumes "verify_cert X com c = Inr ()" "verify_cert X com d = Inr ()"
    and "(fc_round c, fc_block_height c, fc_block_hash c) \<noteq> (fc_round d, fc_block_height d, fc_block_hash d)"
  shows "2 * unat (cm_quorum com) \<le> card (member_ids com) + card (double_signers X com c d) \<and>
    double_signers X com c d \<subseteq> member_ids com"
proof -
  note e = common_voters_double_sign [OF assms]
  from plain.overlap [OF assms(1,2)] plain.signers_members [OF assms(1)] show ?thesis
    unfolding e [symmetric] by blast
qed

definition demo_validator :: "u8 \<Rightarrow> u8 \<Rightarrow> nat \<Rightarrow> validator_pubkey" where
  "demo_validator i algo n = \<lparr> vp_validator_id = replicate 32 i, vp_sig_algo = algo, vp_pubkey = replicate n i \<rparr>"

definition demo_committee :: committee where
  "demo_committee = \<lparr> cm_epoch = 1, cm_members = [demo_validator 1 3 32, demo_validator 2 3 32, demo_validator 3 3 32],
     cm_epoch_blocks = 6, cm_quorum = 2 \<rparr>"

definition demo_vote :: "u8 \<Rightarrow> u8 \<Rightarrow> finalization_vote" where
  "demo_vote i h = \<lparr> fv_committee_epoch = 1, fv_round = 1, fv_block_height = 6, fv_block_hash = replicate 32 h,
     fv_validator_id = replicate 32 i, fv_sig_algo = 3, fv_sig = replicate 64 0 \<rparr>"

definition demo_cert :: "u8 \<Rightarrow> u8 list \<Rightarrow> finalization_cert" where
  "demo_cert h ids = \<lparr> fc_committee_epoch = 1, fc_round = 1, fc_block_height = 6, fc_block_hash = replicate 32 h,
     fc_votes = map (\<lambda>i. demo_vote i h) ids \<rparr>"

lemma demo_vote_ok: "i \<in> {1, 2, 3} \<Longrightarrow> verify_vote demo_ext demo_committee (demo_vote i h) = Inr ()"
  by (auto simp: verify_vote_def demo_vote_def demo_committee_def demo_validator_def find_member_def verify_def
      ed25519_verify_def demo_crypto_def demo_scheme_def ED_SIG_LEN_def eval_nat_numeral)

lemma demo_cert_ok:
  assumes "set ids \<subseteq> {1, 2, 3}" "distinct ids" "2 \<le> length ids"
  shows "verify_cert demo_ext demo_committee (demo_cert h ids) = Inr ()"
proof -
  have "list_all (\<lambda>v. vote_for (demo_cert h ids) v \<and> verify_vote demo_ext demo_committee v = Inr ()) (fc_votes (demo_cert h ids))"
    using assms(1) demo_vote_ok by (auto simp: demo_cert_def list_all_iff vote_for_def) (simp_all add: demo_vote_def)
  moreover have "inj_on (\<lambda>i. replicate 32 i) (set ids)" by (simp add: inj_on_def eval_nat_numeral)
  then have "distinct (map fv_validator_id (fc_votes (demo_cert h ids)))"
    using assms(2) by (simp add: demo_cert_def demo_vote_def distinct_map comp_def)
  ultimately show ?thesis using assms(3) by (simp add: verify_cert_iff) (simp add: demo_cert_def demo_committee_def)
qed

theorem conflicting_certs_convict_witness:
  "double_signers demo_ext demo_committee (demo_cert 8 [1, 2]) (demo_cert 9 [2, 3]) \<noteq> {}"
proof -
  let ?S = "double_signers demo_ext demo_committee (demo_cert 8 [1, 2]) (demo_cert 9 [2, 3])"
  have "(fc_round (demo_cert 8 [1, 2]), fc_block_height (demo_cert 8 [1, 2]), fc_block_hash (demo_cert 8 [1, 2])) \<noteq>
      (fc_round (demo_cert 9 [2, 3]), fc_block_height (demo_cert 9 [2, 3]), fc_block_hash (demo_cert 9 [2, 3]))"
    by (simp add: demo_cert_def eval_nat_numeral)
  from conflicting_certs_convict [OF demo_cert_ok demo_cert_ok this]
  have "4 \<le> card (member_ids demo_committee) + card ?S" by (simp add: demo_committee_def)
  moreover have "card (member_ids demo_committee) \<le> 3"
    using card_image_le [of "set (cm_members demo_committee)" vp_validator_id] card_length [of "cm_members demo_committee"]
    by (simp add: demo_committee_def)
  ultimately show ?thesis by auto
qed

definition padded_cert :: "committee \<Rightarrow> u64 \<Rightarrow> u64 \<Rightarrow> bytes \<Rightarrow> bytes \<Rightarrow> aggregated_cert" where
  "padded_cert com rnd h hash sg = \<lparr> ag_committee_epoch = cm_epoch com, ag_round = rnd, ag_block_height = h,
     ag_block_hash = hash, ag_signer_bitmap = padded_bitmap com, ag_agg_sig_algo = 5, ag_agg_sig = sg \<rparr>"

text \<open>
  A certificate whose bitmap marks one member and enough positions beyond the committee, with the
  signature of that member alone.
\<close>

lemma padded_cert_verifies:
  assumes "cm_members com = m # ms" "vp_sig_algo m = 5" "unat (cm_quorum com) < 2 ^ 31"
    and "aggregate_pubkeys (cx X) [vp_pubkey m] = Inr apk"
    and "verify_aggregated (cx X) apk sg (signing_payload (hx X) (padded_cert com rnd h hash sg)) = Inr ()"
  shows "verify_aggregated_cert X com (padded_cert com rnd h hash sg) = Inr () \<and>
    agg_signers com (padded_cert com rnd h hash sg) = {0}"
proof -
  let ?c = "padded_cert com rnd h hash sg"
  have f: "ag_signer_bitmap ?c = padded_bitmap com" "ag_committee_epoch ?c = cm_epoch com" "ag_agg_sig_algo ?c = 5" "ag_agg_sig ?c = sg"
    by (simp_all add: padded_cert_def)
  have s: "agg_signers com ?c = {0}" using padded_bitmap_signers [OF f(1)] assms(1) by simp
  then have "is_signer ?c i \<longleftrightarrow> i = 0" if "i < length (cm_members com)" for i
    using that by (auto simp: agg_signers_def)
  then have "filter (is_signer ?c) [Suc 0..<length (cm_members com)] = []" "is_signer ?c 0"
    using assms(1) by (auto simp: filter_empty_conv)
  then have "filter (is_signer ?c) [0..<length (cm_members com)] = [0]"
    using assms(1) by (subst upt_conv_Cons) simp_all
  then have "agg_keys com ?c = [vp_pubkey m]" by (simp add: agg_keys_def assms(1))
  then show ?thesis
    using assms s padded_bitmap_count [OF assms(3) f(1)] unfolding verify_aggregated_cert_iff by (simp add: f)
qed

text \<open>
  Claim C21. An aggregated certificate whose bitmap names only members proves a quorum: the marked
  members number at least the quorum, all have BLS keys, and the aggregate of exactly their keys
  verifies the signature on the certificate's payload; two such certificates share at least twice
  the quorum minus the size of the committee of signers. The condition on the bitmap, which the
  verification does not check, is needed: bits beyond the committee are counted as signers, so that,
  whatever the quorum (below \<open>2 ^ 31\<close>), a certificate with a padded bitmap and the signature of a
  single member passes verification.
\<close>

theorem aggregated_cert_proves_quorum:
  assumes "bitmap_fits com c" "verify_aggregated_cert X com c = Inr ()"
    and "bitmap_fits com d" "verify_aggregated_cert X com d = Inr ()"
  shows "unat (cm_quorum com) \<le> card (agg_signers com c) \<and>
    (\<forall>i \<in> agg_signers com c. i < length (cm_members com) \<and> vp_sig_algo (cm_members com ! i) = 5) \<and>
    (\<exists>apk. aggregate_pubkeys (cx X) (agg_keys com c) = Inr apk \<and>
       verify_aggregated (cx X) apk (ag_agg_sig c) (signing_payload (hx X) c) = Inr ()) \<and>
    2 * unat (cm_quorum com) \<le> length (cm_members com) + card (agg_signers com c \<inter> agg_signers com d) \<and>
    (\<forall>m ms apk sg rnd h hash. cm_members com = m # ms \<and> vp_sig_algo m = 5 \<and> unat (cm_quorum com) < 2 ^ 31 \<and>
       aggregate_pubkeys (cx X) [vp_pubkey m] = Inr apk \<and>
       verify_aggregated (cx X) apk sg (signing_payload (hx X) (padded_cert com rnd h hash sg)) = Inr () \<longrightarrow>
       verify_aggregated_cert X com (padded_cert com rnd h hash sg) = Inr () \<and>
       agg_signers com (padded_cert com rnd h hash sg) = {0})"
proof -
  have "bitmap_fits com c \<and> verify_aggregated_cert X com c = Inr ()" "bitmap_fits com d \<and> verify_aggregated_cert X com d = Inr ()"
    using assms by simp_all
  note a = this
  have "unat (cm_quorum com) \<le> card (agg_signers com c) \<and>
    (\<forall>i \<in> agg_signers com c. i < length (cm_members com) \<and> vp_sig_algo (cm_members com ! i) = 5) \<and>
    (\<exists>apk. aggregate_pubkeys (cx X) (agg_keys com c) = Inr apk \<and>
       verify_aggregated (cx X) apk (ag_agg_sig c) (signing_payload (hx X) c) = Inr ()) \<and>
    2 * unat (cm_quorum com) \<le> length (cm_members com) + card (agg_signers com c \<inter> agg_signers com d)"
    using agg.overlap [OF a] agg.signers_quorum [OF a(1)] agg.signers_members [OF a(1)] assms(2)
    by (auto simp: verify_aggregated_cert_iff)
  with padded_cert_verifies [of com _ _ X] show ?thesis by (elim conjE, intro conjI allI impI) (blast | assumption)+
qed

definition demo_bls_committee :: committee where
  "demo_bls_committee = \<lparr> cm_epoch = 1, cm_members = [demo_validator 1 5 BLS_VK_LEN, demo_validator 2 5 BLS_VK_LEN, demo_validator 3 5 BLS_VK_LEN],
     cm_epoch_blocks = 6, cm_quorum = 2 \<rparr>"

definition demo_agg_cert :: "bytes \<Rightarrow> aggregated_cert" where
  "demo_agg_cert bitmap = \<lparr> ag_committee_epoch = 1, ag_round = 1, ag_block_height = 6, ag_block_hash = replicate 32 8,
     ag_signer_bitmap = bitmap, ag_agg_sig_algo = 5, ag_agg_sig = replicate BLS_SIG_LEN 0 \<rparr>"

lemma demo_agg_verifies:
  assumes "agg_signers demo_bls_committee (demo_agg_cert bitmap) \<noteq> {}" "2 \<le> signer_count (demo_agg_cert bitmap)"
  shows "verify_aggregated_cert demo_ext demo_bls_committee (demo_agg_cert bitmap) = Inr ()"
proof -
  let ?c = "demo_bls_committee" and ?d = "demo_agg_cert bitmap"
  have len: "length (cm_members ?c) = 3" by (simp add: demo_bls_committee_def)
  have m: "vp_sig_algo (cm_members ?c ! i) = 5 \<and> length (vp_pubkey (cm_members ?c ! i)) = BLS_VK_LEN" if "i < 3" for i
    using that by (auto simp: demo_bls_committee_def demo_validator_def less_Suc_eq eval_nat_numeral)
  have ne: "agg_keys ?c ?d \<noteq> []"
    using assms(1) by (auto simp: agg_signers_def agg_keys_def filter_empty_conv)
  have l: "length k = BLS_VK_LEN" if "k \<in> set (agg_keys ?c ?d)" for k
    using that m len by (auto simp: agg_keys_def)
  then have "aggregate_pubkeys demo_crypto (agg_keys ?c ?d) = Inr (hd (agg_keys ?c ?d))"
    using ne by (simp add: aggregate_pubkeys_def demo_crypto_def demo_scheme_def list_all_iff)
  moreover have "verify_aggregated demo_crypto (hd (agg_keys ?c ?d)) (ag_agg_sig ?d) msg = Inr ()" for msg
    using l [of "hd (agg_keys ?c ?d)"] ne
    by (simp add: verify_aggregated_def bls_verify_def demo_crypto_def demo_scheme_def demo_agg_cert_def)
  moreover have "\<forall>i \<in> agg_signers ?c ?d. vp_sig_algo (cm_members ?c ! i) = 5" using m len by (auto simp: agg_signers_def)
  ultimately show ?thesis
    using assms unfolding verify_aggregated_cert_iff by (simp add: demo_bls_committee_def demo_agg_cert_def)
qed

lemma demo_bitmap:
  "bitmap_fits demo_bls_committee (demo_agg_cert [3])" "agg_signers demo_bls_committee (demo_agg_cert [3]) = {0, 1}"
  "signer_count (demo_agg_cert [3]) = 2"
proof -
  have b: "bit (3 :: u8) i \<longleftrightarrow> i < 2" for i
    by (cases i; cases "i - 1") (simp_all add: bit_numeral_rec)
  have s: "is_signer (demo_agg_cert [3]) i \<longleftrightarrow> i < 2" for i
  proof (cases "i < 8")
    case True
    then show ?thesis using b [of i] by (simp add: is_signer_bit demo_agg_cert_def)
  next
    case False
    then have "1 \<le> i div 8" by presburger
    then show ?thesis using False by (simp add: is_signer_bit demo_agg_cert_def)
  qed
  show "bitmap_fits demo_bls_committee (demo_agg_cert [3])"
    by (simp add: bitmap_fits_def s list_all_iff) (simp add: demo_agg_cert_def demo_bls_committee_def)
  show "agg_signers demo_bls_committee (demo_agg_cert [3]) = {0, 1}"
    by (auto simp: agg_signers_def s demo_bls_committee_def)
  show "signer_count (demo_agg_cert [3]) = 2"
    by (simp add: signer_count_def demo_agg_cert_def count_ones_def b upt_conv_Cons)
qed

theorem aggregated_cert_proves_quorum_witness:
  "2 \<le> card (agg_signers demo_bls_committee (demo_agg_cert [3])) \<and>
   verify_aggregated_cert demo_ext demo_bls_committee (padded_cert demo_bls_committee 1 6 (replicate 32 8) (replicate BLS_SIG_LEN 0)) = Inr () \<and>
   agg_signers demo_bls_committee (padded_cert demo_bls_committee 1 6 (replicate 32 8) (replicate BLS_SIG_LEN 0)) = {0}"
proof -
  have m: "cm_members demo_bls_committee = demo_validator 1 5 BLS_VK_LEN # [demo_validator 2 5 BLS_VK_LEN, demo_validator 3 5 BLS_VK_LEN]"
    by (simp add: demo_bls_committee_def)
  have v: "vp_sig_algo (demo_validator 1 5 BLS_VK_LEN) = 5" "unat (cm_quorum demo_bls_committee) < 2 ^ 31"
    "aggregate_pubkeys (cx demo_ext) [vp_pubkey (demo_validator 1 5 BLS_VK_LEN)] = Inr (replicate BLS_VK_LEN 1)"
    "verify_aggregated (cx demo_ext) (replicate BLS_VK_LEN 1) (replicate BLS_SIG_LEN 0) msg = Inr ()" for msg
    by (simp_all add: demo_validator_def demo_bls_committee_def aggregate_pubkeys_def verify_aggregated_def bls_verify_def
        demo_crypto_def demo_scheme_def)
  have "verify_aggregated_cert demo_ext demo_bls_committee (demo_agg_cert [3]) = Inr ()"
    by (rule demo_agg_verifies) (simp_all add: demo_bitmap)
  note t = aggregated_cert_proves_quorum [OF demo_bitmap(1) this demo_bitmap(1) this]
  have "2 \<le> card (agg_signers demo_bls_committee (demo_agg_cert [3]))" using t by (simp add: demo_bls_committee_def)
  with t m v show ?thesis by blast
qed

section \<open>Peer-to-peer messages\<close>

text \<open>
  Claim C31. The broker delivers exactly what the history of operations prescribes: a peer
  receives, in order and once, every well-formed message on a known topic that another peer
  published after it subscribed and since it last received; and a receive leaves nothing behind.
\<close>

theorem broker_delivers:
  "fst (broker_recv (broker_run ops) p) = pending_for (rev ops) p \<and>
   fst (broker_recv (snd (broker_recv (broker_run ops) p)) p) = []"
  using broker_inbox [of ops p] by (simp add: broker_recv_def)

text \<open>
  Claim C25. What signatures cover. The message a transaction signature covers determines the nonce,
  the sender, the fee and the call (up to the governance proof and the order of a coordinator list), and
  nothing else: gas limit and witness hash are not signed. The bytes a peer signs determine the
  version, the sender, the topic, the sequence number and the covered part of the payload, and
  nothing more: the CBOR bodies, and the head hash and protocol version of a peer announcement,
  can be changed under a valid signature. The payloads of the three kinds of governance action are
  never equal, and those of a rotation and of a coordinator registration determine the action (the
  list up to order), so a signature on one action cannot be used for another.
\<close>

theorem signed_bytes_cover:
  assumes "tx_wf t" "tx_wf u" "message_wf a" "message_wf b" "length j = 32" "length j' = 32"
    and "length cs < 2 ^ 32" "length cs' < 2 ^ 32" "list_all (\<lambda>c. length c = 20) cs" "list_all (\<lambda>c. length c = 20) cs'"
  shows "(signing_bytes t = signing_bytes u \<longleftrightarrow>
      tx_nonce t = tx_nonce u \<and> from_account t = from_account u \<and> fee_sat t = fee_sat u \<and>
      call_core (call t) = call_core (call u)) \<and>
    (message_bytes a = message_bytes b \<longleftrightarrow>
      (pm_version a, pm_from a, pm_topic a, pm_seq a, payload_core (pm_payload a)) =
      (pm_version b, pm_from b, pm_topic b, pm_seq b, payload_core (pm_payload b))) \<and>
    upgrade_crypto_gov_bytes h sa ha \<noteq> register_attest_gov_bytes j cs \<and>
    upgrade_crypto_gov_bytes h sa ha \<noteq> set_governance_gov_bytes K c \<and>
    register_attest_gov_bytes j cs \<noteq> set_governance_gov_bytes K c \<and>
    (upgrade_crypto_gov_bytes h sa ha = upgrade_crypto_gov_bytes h' sa' ha' \<longrightarrow> (h, sa, ha) = (h', sa', ha')) \<and>
    (register_attest_gov_bytes j cs = register_attest_gov_bytes j' cs' \<longrightarrow> j = j' \<and> sort cs = sort cs')"
  using signing_bytes_core [OF assms(1,2)] message_bytes_iff [OF assms(3,4)] gov_payload_tags upgrade_gov_bytes_inj
    register_gov_bytes_inj [OF assms(5-10)] by blast

definition demo_message :: "u64 \<Rightarrow> bytes \<Rightarrow> u32 \<Rightarrow> p2p_message" where
  "demo_message n head v = \<lparr> pm_version = 1, pm_from = replicate 32 1, pm_topic = ''pg/v1/peer-info'', pm_seq = n,
     pm_payload = PeerInfo 7 head v \<rparr>"

theorem signed_bytes_cover_witness:
  "signing_bytes (demo_tx 0 10) \<noteq> signing_bytes (demo_tx 0 20) \<and>
   message_bytes (demo_message 1 (replicate 32 0) 1) = message_bytes (demo_message 1 (replicate 32 9) 2) \<and>
   register_attest_gov_bytes (replicate 32 0) [alice] \<noteq> register_attest_gov_bytes (replicate 32 0) [bob]"
proof -
  have m: "message_wf (demo_message n head v)" for n head v by (simp add: message_wf_def demo_message_def)
  have t: "tx_wf (demo_tx n a)" for n a
    by (simp add: tx_wf_def demo_tx_def length_demo_ids witness_digest_def demo_hash_ok [unfolded hash_ok_def])
  from signed_bytes_cover [OF t [of 0 10] t [of 0 20] m [of 1 "replicate 32 0" 1] m [of 1 "replicate 32 9" 2],
      of "replicate 32 0" "replicate 32 0" "[alice]" "[bob]"] show ?thesis
    using demo_names by (auto simp: demo_message_def demo_tx_def length_demo_ids)
qed

section \<open>Mempool\<close>

text \<open>
  Claim C26. However submissions and confirmations are interleaved, the pool never exceeds its
  capacity (with a capacity of zero it holds at most one transaction), holds each transaction once, under its own body hash and with the witness its body
  names; and the transactions pulled for a block are as many as asked for and available, all
  different, and none left behind pays a higher fee.
\<close>

theorem mempool_invariant:
  assumes "mempool_reach H c mp"
  shows "mempool_len mp \<le> max 1 c \<and> distinct (map fst (pool mp)) \<and>
    (\<forall>(h, t) \<in> set (pool mp). h = body_hash H (ptx_body t) \<and> witness_hash (ptx_body t) = witness_digest H (ptx_witness t)) \<and>
    length (pull_for_block H mp mx) = min mx (mempool_len mp) \<and>
    distinct (map (\<lambda>t. body_hash H (ptx_body t)) (pull_for_block H mp mx)) \<and>
    set (pull_for_block H mp mx) \<subseteq> snd ` set (pool mp) \<and>
    (\<forall>t \<in> set (pull_for_block H mp mx). \<forall>u \<in> snd ` set (pool mp) - set (pull_for_block H mp mx).
       fee_sat (ptx_body u) \<le> fee_sat (ptx_body t))"
proof -
  have ok: "mempool_ok H mp" and cap: "pool_cap mp = c"
    using mempool_reach_ok [OF assms] pool_cap_const [OF assms] by auto
  have "length (pull_for_block H mp mx) = min mx (mempool_len mp)"
    by (simp add: pull_for_block_def mempool_len_def)
  moreover have "set (pull_for_block H mp mx) \<subseteq> snd ` set (pool mp)"
    using set_pull_split [of mp H mx] by auto
  moreover have "\<forall>t \<in> set (pull_for_block H mp mx). \<forall>u \<in> snd ` set (pool mp) - set (pull_for_block H mp mx).
       fee_sat (ptx_body u) \<le> fee_sat (ptx_body t)"
    using pull_best [of _ H mp mx] by auto
  ultimately show ?thesis
    using ok cap distinct_pull [OF ok] bt_ok_distinct [of "pool mp"]
    by (simp add: mempool_ok_def mempool_len_def list_all_iff)
qed

theorem mempool_invariant_witness:
  "length (pull_for_block demo_hash (snd (mempool_submit demo_hash 5 (mempool_new 10) (demo_tx 0 10) demo_witness)) 256) = 1"
proof -
  let ?mp = "snd (mempool_submit demo_hash 5 (mempool_new 10) (demo_tx 0 10) demo_witness)"
  have "mempool_reach demo_hash 10 ?mp" by (intro reach_submit reach_new)
  moreover have "mempool_len ?mp = 1"
    by (simp add: mempool_submit_def mempool_new_def mempool_evict_def mempool_len_def demo_projections Let_def bt_get_def)
  ultimately show ?thesis using mempool_invariant [of demo_hash 10 ?mp 256] by simp
qed

section \<open>Block log\<close>

text \<open>
  Claim C28. What is appended to the block log is read back: after appending any blocks that encode to less than \<open>2 ^ 32\<close> bytes each to a new
  log, the log holds exactly them in order, the most recent ones are returned newest first, and
  reopening the file gives the same store, cached tip and count included.
\<close>

theorem block_log_roundtrip:
  assumes "codec_ok K" "list_all (fits_log K) bs" "cs_open K None = Inr cs0"
  shows "cs_load_all K (append_all K bs cs0) = Inr bs \<and>
    cs_recent K (append_all K bs cs0) n = Inr (rev (drop (length bs - n) bs)) \<and>
    cs_tip (append_all K bs cs0) = (if bs = [] then None else Some (last bs)) \<and>
    (bs \<noteq> [] \<longrightarrow> cs_open K (log_file (append_all K bs cs0)) = Inr (append_all K bs cs0))"
proof -
  have "cs_inv K cs0 []" using cs_open_empty [of K] assms(3) by auto
  from append_all_inv [OF this assms(2)] have i: "cs_inv K (append_all K bs cs0) bs" by simp
  from cs_load_all_inv [OF assms(1) i] cs_reopen [OF assms(1) i] i show ?thesis
    by (simp add: cs_recent_def cs_inv_def)
qed

definition demo_empty_block :: block where
  "demo_empty_block = \<lparr> header = demo_header, body = \<lparr> txs = [], witnesses = [] \<rparr> \<rparr>"

lemma demo_empty_block:
  "length (ser w_block demo_empty_block) = 426" "fits_log (wire_codec w_block) demo_empty_block"
proof -
  show "length (ser w_block demo_empty_block) = 426"
    by (rule length_w_block) (simp_all add: demo_empty_block_def header_wf_def demo_header_def length_pad_to_32 length_demo_ids)
  then show "fits_log (wire_codec w_block) demo_empty_block" by (simp add: fits_log_def wire_codec_def)
qed

theorem block_log_roundtrip_witness:
  "\<exists>cs. cs_load_all (wire_codec w_block) cs = Inr [demo_empty_block, demo_empty_block] \<and>
     cs_open (wire_codec w_block) (log_file cs) = Inr cs"
proof -
  obtain cs0 where o: "cs_open (wire_codec w_block) None = Inr cs0" using cs_open_empty by blast
  have "list_all (fits_log (wire_codec w_block)) [demo_empty_block, demo_empty_block]"
    by (simp add: demo_empty_block)
  from block_log_roundtrip [OF wire_codec_ok [OF wire_block] this o] show ?thesis by auto
qed

text \<open>
  Claim C34. A crash while a block is being appended: if the file ends inside the body of the last
  entry, opening it fails; if it ends inside the four-byte length, opening silently drops the
  entry, but the stray bytes stay, and the next append (which reports success) writes a file that
  is not the log of its blocks.
\<close>

theorem torn_block_log:
  assumes "codec_ok K" "log_of K bs = Some f" "length buf < 2 ^ 32" "n < length (log_entry buf)"
  shows "(4 \<le> n \<longrightarrow> cs_open K (Some (f @ take n (log_entry buf))) = Inl LogUnexpectedEof) \<and>
    (n < 4 \<longrightarrow> (\<exists>cs. cs_open K (Some (f @ take n (log_entry buf))) = Inr cs \<and> cs_load_all K cs = Inr bs \<and>
       (0 < n \<longrightarrow> fits_log K blk \<longrightarrow> fst (cs_append K cs blk) = Inr () \<and>
          log_file (snd (cs_append K cs blk)) \<noteq> log_of K (bs @ [blk]))))"
proof -
  note o = open_torn_log [OF assms]
  have r: "read_blocks K (f @ take n (log_entry buf)) = Inr bs" if "n < 4"
    using that by (simp add: read_log [OF assms(1,2)] read_torn_entry [OF assms(3,4)])
  have "length (take n (log_entry buf)) = n" using assms(4) by simp
  then have "f @ take n (log_entry buf) @ e \<noteq> f @ e" if "0 < n" for e
    using that by (metis add_cancel_left_left length_append nat_neq_iff same_append_eq)
  then show ?thesis
    using o r assms(2)
    by (auto simp: cs_load_all_def read_all_from_disk_def cs_append_def fits_log_def log_of_append split: option.splits)
qed

theorem torn_block_log_witness:
  "cs_open (wire_codec w_block) (Some (take 200 (log_entry (ser w_block demo_empty_block)))) = Inl LogUnexpectedEof \<and>
   (\<exists>cs. cs_open (wire_codec w_block) (Some (take 3 (log_entry (ser w_block demo_empty_block)))) = Inr cs \<and>
      log_file (snd (cs_append (wire_codec w_block) cs demo_empty_block)) \<noteq> log_of (wire_codec w_block) [demo_empty_block])"
proof -
  let ?K = "wire_codec w_block" and ?buf = "ser w_block demo_empty_block"
  have l: "log_of ?K [] = Some []" "length ?buf < 2 ^ 32" "200 < length (log_entry ?buf)" "3 < length (log_entry ?buf)"
    by (simp_all add: demo_empty_block log_entry_def)
  note t = torn_block_log [OF wire_codec_ok [OF wire_block] l(1,2)]
  from t [OF l(3)] t [OF l(4), of demo_empty_block] demo_empty_block(2) show ?thesis by auto
qed

end
