(* ===== verification/Node_Mining.thy ===== *)
theory Node_Mining
  imports State_Apply Consensus_Pow Consensus_Emission Chainstore
begin

text \<open>
  Genesis configuration, block templates and the inline miner: \<open>crates/node/src/genesis.rs\<close>,
  \<open>crates/node/src/mining.rs\<close>, and \<open>cmd_init\<close> and \<open>install_genesis_governance\<close> of
  \<open>crates/node/src/main.rs\<close>. The hex and CBOR crates are third-party code, bundled with the
  externals of the state crate in \<open>node_ext\<close>. The four floating-point fields of the genesis
  file, which nothing in the node reads, are left out.
\<close>

section \<open>External code\<close>

record node_ext =
  nx :: ext
  hex_encode :: "bytes \<Rightarrow> string"
  hex_decode :: "string \<Rightarrow> string + bytes"
  block_c :: "block codec"
  tx_c :: "tx_body codec"
  wit_c :: "witness codec"

definition hex_ok :: "node_ext \<Rightarrow> bool" where
  "hex_ok N \<longleftrightarrow> (\<forall>b. hex_decode N (hex_encode N b) = Inr b)"

section \<open>Errors\<close>

datatype node_error =
    PreGenesis u64 u64 u64
  | StaleParent
  | WrongHeight u64 u64
  | WrongBits u32 u32 u32 u64 u64
  | NonMonotonicTimestamp u64 u64
  | TimestampTooFar u64 u64
  | TargetNotMet
  | TxRootMismatch bytes bytes
  | WitnessRootMismatch bytes bytes
  | ApplyFailed apply_error
  | ReplayFailed u64 apply_error
  | StoreFailed log_error
  | EmptyDataDir
  | AlreadyInitialized
  | BadHex string
  | BadLength nat nat
  | BadCbor string
  | BadAddress address_error
  | AddressMismatch account_id account_id
  | BadTransferSignature string
  | PoolRejected string
  | LengthMismatch nat nat
  | BadCommittee string
  | EncodeFailed
  | Panicked

section \<open>Genesis\<close>

definition default_seconds_per_halving :: u64 where "default_seconds_per_halving = 210000 * 600"
definition default_asert_tau :: u64 where "default_asert_tau = 2 * 24 * 60 * 60 * 1000"
definition default_bootstrap_asert_tau :: u64 where "default_bootstrap_asert_tau = 60 * 60 * 1000"
definition default_bootstrap_height :: u64 where "default_bootstrap_height = 2016"
definition default_bootstrap_reward_pct :: u32 where "default_bootstrap_reward_pct = 50"
definition default_max_reward_pct_change_per_block :: u32 where "default_max_reward_pct_change_per_block = 25"
definition default_max_bits_pct_change_per_block :: u32 where "default_max_bits_pct_change_per_block = 8"

record committee_member =
  gm_signer_id_hex :: string
  gm_sig_algo :: u8
  gm_pubkey_hex :: string

record genesis =
  g_chain_id :: string
  g_genesis_time_ms :: u64
  g_initial_bits :: u32
  g_target_block_time_ms :: u64
  g_retarget_interval :: u64
  g_halving_interval_base :: u64
  g_seconds_per_halving :: u64
  g_initial_reward_sat :: u64
  g_asert_tau_ms :: u64
  g_bootstrap_asert_tau_ms :: u64
  g_bootstrap_height :: u64
  g_bootstrap_reward_pct :: u32
  g_max_reward_pct_change_per_block :: u32
  g_max_bits_pct_change_per_block :: u32
  g_stability_window_blocks :: u64
  g_sybil_dust_floor_sat :: u64
  g_sybil_min_age_blocks :: u64
  g_sybil_require_paid_fee :: bool
  g_sig_algo :: u8
  g_hash_algo :: u8
  g_governance_pubkey_hex :: string
  g_genesis_headline_hex :: string
  g_initial_accounts :: "string list"
  g_genesis_committee :: "committee_member list"
  g_genesis_committee_threshold :: u32
  g_genesis_committee_epoch :: u64

definition headline_bytes :: "node_ext \<Rightarrow> genesis \<Rightarrow> bytes" where
  "headline_bytes N g =
     (if g_genesis_headline_hex g = [] then replicate 32 0
      else
        (case hex_decode N (g_genesis_headline_hex g) of
           Inl e \<Rightarrow> replicate 32 0
         | Inr bs \<Rightarrow> if length bs = 32 then bs else replicate 32 0))"

fun committee_signers :: "node_ext \<Rightarrow> committee_member list \<Rightarrow> node_error + governance_signer list" where
  "committee_signers N [] = Inr []"
| "committee_signers N (m # ms) =
     (case hex_decode N (gm_signer_id_hex m) of
        Inl e \<Rightarrow> Inl (BadHex e)
      | Inr sid \<Rightarrow>
          if length sid \<noteq> 32 then Inl (BadLength 32 (length sid))
          else
            (case hex_decode N (gm_pubkey_hex m) of
               Inl e \<Rightarrow> Inl (BadHex e)
             | Inr pk \<Rightarrow>
                 (case sizes (gm_sig_algo m) of
                    Some (expected_pk_len, sig_len) \<Rightarrow>
                      if length pk \<noteq> expected_pk_len then Inl (BadLength expected_pk_len (length pk))
                      else map_sum id ((#) \<lparr> gs_signer_id = sid, gs_sig_algo = gm_sig_algo m, gs_pubkey = pk \<rparr>)
                             (committee_signers N ms)
                  | None \<Rightarrow>
                      map_sum id ((#) \<lparr> gs_signer_id = sid, gs_sig_algo = gm_sig_algo m, gs_pubkey = pk \<rparr>)
                        (committee_signers N ms))))"

definition genesis_config :: "genesis \<Rightarrow> governance_signer list \<Rightarrow> governance_config" where
  "genesis_config g sgs =
     \<lparr> gc_epoch = g_genesis_committee_epoch g,
       gc_threshold = (if g_genesis_committee_threshold g = 0 then of_nat (length sgs)
                    else g_genesis_committee_threshold g),
       gc_signers = sgs \<rparr>"

definition install_genesis_governance :: "node_ext \<Rightarrow> mem_state \<Rightarrow> genesis \<Rightarrow> node_error + mem_state" where
  "install_genesis_governance N mem g =
     (case committee_signers N (g_genesis_committee g) of
        Inl e \<Rightarrow> Inl e
      | Inr sgs \<Rightarrow>
          let cfg = genesis_config g sgs in
          (case validate_config cfg of
             Inl e \<Rightarrow> Inl (BadCommittee e)
           | Inr u \<Rightarrow>
               (case enc (gov_config_c (kx (nx N))) cfg of
                  None \<Rightarrow> Inl EncodeFailed
                | Some buf \<Rightarrow> Inr (mem_put mem Meta (str_bytes ''governance'') buf))))"

section \<open>Templates\<close>

definition template_from_parent_with_body ::
    "hash_ext \<Rightarrow> bytes \<Rightarrow> u64 \<Rightarrow> u32 \<Rightarrow> bytes \<Rightarrow> u8 \<Rightarrow> u8 \<Rightarrow> u64 \<Rightarrow> block_body \<Rightarrow> block_header" where
  "template_from_parent_with_body H parent_hash parent_height bts cb sa ha ts bd =
     \<lparr> version = 1, height = parent_height + 1, parent = parent_hash, timestamp_ms = ts, bits = bts, nonce = 0,
       hdr_tx_root = tx_root H bd, hdr_witness_root = witness_root H bd, state_root = replicate 32 0,
       reflect_root = replicate 32 0, coinbase = cb, hdr_sig_algo = sa, hdr_hash_algo = ha \<rparr>"

definition empty_body :: block_body where
  "empty_body = \<lparr> txs = [], witnesses = [] \<rparr>"

definition template_from_parent ::
    "hash_ext \<Rightarrow> bytes \<Rightarrow> u64 \<Rightarrow> u32 \<Rightarrow> bytes \<Rightarrow> u8 \<Rightarrow> u8 \<Rightarrow> u64 \<Rightarrow> block_header" where
  "template_from_parent H parent_hash parent_height bts cb sa ha ts =
     template_from_parent_with_body H parent_hash parent_height bts cb sa ha ts empty_body"

text \<open>
  The search loop runs until a nonce is found; \<open>None\<close> is the search that never ends.
\<close>

partial_function (option) mine_loop :: "hash_ext \<Rightarrow> bytes \<Rightarrow> block_header \<Rightarrow> block_header option" where
  "mine_loop H target hdr =
     (if meets_target (hash_header H hdr) target then Some hdr
      else mine_loop H target (hdr\<lparr>nonce := nonce hdr + 1\<rparr>))"

definition mine_inline :: "hash_ext \<Rightarrow> block_header \<Rightarrow> block option" where
  "mine_inline H hdr =
     map_option (\<lambda>h. \<lparr> header = h, body = empty_body \<rparr>) (mine_loop H (target_from_bits (bits hdr)) hdr)"

definition genesis_template :: "node_ext \<Rightarrow> genesis \<Rightarrow> block_header" where
  "genesis_template N g =
     (template_from_parent (hx (nx N)) (replicate 32 0) (0 - 1) (g_initial_bits g) (headline_bytes N g)
        (g_sig_algo g) (g_hash_algo g) (g_genesis_time_ms g))\<lparr>height := 0\<rparr>"

text \<open>\<open>cmd_init\<close>: the file after initialisation, or \<open>None\<close> while the search runs.\<close>

definition cmd_init :: "node_ext \<Rightarrow> genesis \<Rightarrow> bytes option \<Rightarrow> (node_error + chain_store) option" where
  "cmd_init N g f =
     (case cs_open (block_c N) f of
        Inl e \<Rightarrow> Some (Inl (StoreFailed e))
      | Inr cs \<Rightarrow>
          if cs_height cs > 0 \<or> cs_tip cs \<noteq> None then Some (Inl AlreadyInitialized)
          else
            map_option (\<lambda>blk.
              (case cs_append (block_c N) cs blk of
                 (Inl e, cs) \<Rightarrow> Inl (StoreFailed e)
               | (Inr u, cs) \<Rightarrow> Inr cs))
            (mine_inline (hx (nx N)) (genesis_template N g)))"

section \<open>The inline miner\<close>

lemma mine_loop_unfold:
  "mine_loop H t hdr = (if meets_target (hash_header H hdr) t then Some hdr
     else mine_loop H t (hdr\<lparr>nonce := nonce hdr + 1\<rparr>))"
  by (rule mine_loop.simps)

lemma mine_loop_steps:
  assumes "\<forall>j < k. \<not> meets_target (hash_header H (hdr\<lparr>nonce := nonce hdr + of_nat j\<rparr>)) t"
  shows "mine_loop H t hdr = mine_loop H t (hdr\<lparr>nonce := nonce hdr + of_nat k\<rparr>)"
  using assms
proof (induction k)
  case (Suc k)
  then have "mine_loop H t hdr = mine_loop H t (hdr\<lparr>nonce := nonce hdr + of_nat k\<rparr>)" by simp
  also have "\<dots> = mine_loop H t (hdr\<lparr>nonce := nonce hdr + of_nat (Suc k)\<rparr>)"
    using Suc.prems by (subst mine_loop_unfold) (simp add: add.commute add.left_commute)
  finally show ?case .
qed simp

text \<open>
  If some nonce meets the target the search ends, at the first such nonce after the starting
  one; otherwise it never ends.
\<close>

lemma mine_loop_finds:
  assumes "meets_target (hash_header H (hdr\<lparr>nonce := n\<rparr>)) t"
  shows "\<exists>k. mine_loop H t hdr = Some (hdr\<lparr>nonce := nonce hdr + of_nat k\<rparr>) \<and>
    meets_target (hash_header H (hdr\<lparr>nonce := nonce hdr + of_nat k\<rparr>)) t \<and>
    (\<forall>j < k. \<not> meets_target (hash_header H (hdr\<lparr>nonce := nonce hdr + of_nat j\<rparr>)) t)"
proof -
  let ?P = "\<lambda>k. meets_target (hash_header H (hdr\<lparr>nonce := nonce hdr + of_nat k\<rparr>)) t"
  have "nonce hdr + of_nat (unat (n - nonce hdr)) = n" by simp
  then have "?P (unat (n - nonce hdr))" using assms by simp
  then have P: "?P (LEAST k. ?P k)" by (rule LeastI)
  have least: "\<forall>j < (LEAST k. ?P k). \<not> ?P j" using not_less_Least by blast
  from mine_loop_steps [OF least] P have "mine_loop H t hdr = Some (hdr\<lparr>nonce := nonce hdr + of_nat (LEAST k. ?P k)\<rparr>)"
    by (simp add: mine_loop_unfold [of H t "hdr\<lparr>nonce := nonce hdr + of_nat (LEAST k. ?P k)\<rparr>"])
  with P least show ?thesis by blast
qed

lemma mine_loop_Some:
  assumes "mine_loop H t hdr = Some h"
  shows "meets_target (hash_header H h) t \<and> (\<exists>n. h = hdr\<lparr>nonce := n\<rparr>)"
proof (rule mine_loop.raw_induct [where P = "\<lambda>H t hdr h. meets_target (hash_header H h) t \<and> (\<exists>n. h = hdr\<lparr>nonce := n\<rparr>)", OF _ assms])
  fix mine :: "hash_ext \<Rightarrow> bytes \<Rightarrow> block_header \<Rightarrow> block_header option" and H t hdr h
  assume IH: "\<And>H t hdr h. mine H t hdr = Some h \<Longrightarrow> meets_target (hash_header H h) t \<and> (\<exists>n. h = hdr\<lparr>nonce := n\<rparr>)"
    and r: "(if meets_target (hash_header H hdr) t then Some hdr else mine H t (hdr\<lparr>nonce := nonce hdr + 1\<rparr>)) = Some h"
  show "meets_target (hash_header H h) t \<and> (\<exists>n. h = hdr\<lparr>nonce := n\<rparr>)"
  proof (cases "meets_target (hash_header H hdr) t")
    case True
    then have "h = hdr\<lparr>nonce := nonce hdr\<rparr>" using r by simp
    then show ?thesis using True by (metis block_header.surjective block_header.update_convs(6))
  next
    case False
    then have "mine H t (hdr\<lparr>nonce := nonce hdr + 1\<rparr>) = Some h" using r by simp
    from IH [OF this] show ?thesis by auto
  qed
qed

end
