(* ===== verification/Node.thy ===== *)
theory Node
  imports Node_Mining Mempool Consensus_Asert
begin

text \<open>
  The node: its shared state and \<open>try_apply_block\<close> of \<open>crates/node/src/rpc.rs\<close>, the replay and
  start-up of \<open>cmd_run\<close> and one round of the self-miner of \<open>crates/node/src/main.rs\<close>. The
  server handles one request at a time, so an operation is a function from a state to a result
  and a state, and the clock it reads is an argument; what happens when the self-miner thread runs
  alongside is the subject of \<open>Node_Race\<close>. \<open>Panicked\<close> marks the
  unwinding of a \<open>clamp\<close> with crossed bounds.
\<close>

section \<open>State\<close>

record node_state =
  ns_store :: chain_store
  ns_chain_id :: string
  ns_bits :: u32
  ns_coinbase :: bytes
  ns_sig_algo :: u8
  ns_hash_algo :: u8
  ns_genesis_time_ms :: u64
  ns_state :: mem_state
  ns_mempool :: mempool
  ns_block_reward_sat :: u128
  ns_target_block_time_ms :: u64
  ns_halving_interval_base :: u64
  ns_emission :: emission_params
  ns_minted_so_far :: u128
  ns_prev_reward_sat :: "u128 option"
  ns_asert_tau_ms :: u64
  ns_bootstrap_asert_tau_ms :: u64

abbreviation node_hash :: "node_ext \<Rightarrow> hash_ext" where
  "node_hash N \<equiv> hx (nx N)"

abbreviation node_ops :: "node_ext \<Rightarrow> mem_state store_ops" where
  "node_ops N \<equiv> mem_ops (hx (nx N))"

definition FUTURE_TIME_TOLERANCE_MS :: u64 where
  "FUTURE_TIME_TOLERANCE_MS = 2 * 60 * 60 * 1000"

section \<open>Accepting a block\<close>

text \<open>Parent hash, height, timestamp, bits and parent height that a block must fit.\<close>

definition tip_context :: "node_ext \<Rightarrow> node_state \<Rightarrow> bytes \<times> u64 \<times> u64 \<times> u32 \<times> u64" where
  "tip_context N st =
     (case cs_tip (ns_store st) of
        Some b \<Rightarrow> (hash_header (node_hash N) (header b), height (header b) + 1, timestamp_ms (header b),
                   bits (header b), height (header b))
      | None \<Rightarrow> (replicate 32 0, 0, 0, ns_bits st, 0))"

definition expected_bits :: "node_state \<Rightarrow> u32 \<Rightarrow> u64 \<Rightarrow> u64 \<Rightarrow> u64 \<Rightarrow> u32 option" where
  "expected_bits st parent_bits parent_height parent_ts ts =
     next_bits_from_parent parent_bits parent_height parent_ts ts (ns_target_block_time_ms st)
       (bootstrap_height (ns_emission st)) (ns_bootstrap_asert_tau_ms st) (ns_asert_tau_ms st)"

definition check_block :: "node_ext \<Rightarrow> u64 \<Rightarrow> node_state \<Rightarrow> block \<Rightarrow> node_error + unit" where
  "check_block N now st blk =
     (if now < ns_genesis_time_ms st
      then Inl (PreGenesis ((ns_genesis_time_ms st - now) div 1000) (ns_genesis_time_ms st) now)
      else
        let hdr = header blk;
            (expected_parent, expected_height, parent_ts, parent_bits, parent_height) = tip_context N st in
        if parent hdr \<noteq> expected_parent then Inl StaleParent
        else if height hdr \<noteq> expected_height then Inl (WrongHeight (height hdr) expected_height)
        else
          (case expected_bits st parent_bits parent_height parent_ts (timestamp_ms hdr) of
             None \<Rightarrow> Inl Panicked
           | Some eb \<Rightarrow>
               if bits hdr \<noteq> eb then Inl (WrongBits (bits hdr) eb parent_bits parent_height parent_ts)
               else if timestamp_ms hdr < parent_ts then Inl (NonMonotonicTimestamp (timestamp_ms hdr) parent_ts)
               else if timestamp_ms hdr > now + FUTURE_TIME_TOLERANCE_MS
                 then Inl (TimestampTooFar (timestamp_ms hdr) (now + FUTURE_TIME_TOLERANCE_MS))
               else if \<not> meets_target (hash_header (node_hash N) hdr) (target_from_bits (bits hdr))
                 then Inl TargetNotMet
               else if hdr_tx_root hdr \<noteq> tx_root (node_hash N) (body blk)
                 then Inl (TxRootMismatch (hdr_tx_root hdr) (tx_root (node_hash N) (body blk)))
               else if hdr_witness_root hdr \<noteq> witness_root (node_hash N) (body blk)
                 then Inl (WitnessRootMismatch (hdr_witness_root hdr) (witness_root (node_hash N) (body blk)))
               else Inr ()))"

definition next_reward :: "node_state \<Rightarrow> block_header \<Rightarrow> u128 option" where
  "next_reward st hdr =
     (let parent_ts = (case cs_tip (ns_store st) of Some b \<Rightarrow> timestamp_ms (header b)
                       | None \<Rightarrow> ns_genesis_time_ms st) in
      current_reward_with_height (ns_emission st) (ns_genesis_time_ms st) (timestamp_ms hdr) parent_ts
        (ns_minted_so_far st) (height hdr) (ns_prev_reward_sat st))"

text \<open>\<open>minted\<close> is the issued amount that was read before the block was applied.\<close>

definition commit_block :: "node_ext \<Rightarrow> node_state \<Rightarrow> block \<Rightarrow> u128 \<Rightarrow> u128 \<Rightarrow> (node_error + unit) \<times> node_state" where
  "commit_block N st blk minted reward =
     (let st = st\<lparr>ns_minted_so_far := sat_add minted reward, ns_prev_reward_sat := Some reward,
                 ns_mempool := mempool_confirm (ns_mempool st) (map (body_hash (node_hash N)) (txs (body blk)))\<rparr> in
      case cs_append (block_c N) (ns_store st) blk of
        (Inl e, cs) \<Rightarrow> (Inl (StoreFailed e), st\<lparr>ns_store := cs\<rparr>)
      | (Inr u, cs) \<Rightarrow> (Inr (), st\<lparr>ns_store := cs\<rparr>))"

definition try_apply_block :: "node_ext \<Rightarrow> u64 \<Rightarrow> node_state \<Rightarrow> block \<Rightarrow> (node_error + unit) \<times> node_state" where
  "try_apply_block N now st blk =
     (case check_block N now st blk of
        Inl e \<Rightarrow> (Inl e, st)
      | Inr u \<Rightarrow>
          (case next_reward st (header blk) of
             None \<Rightarrow> (Inl Panicked, st)
           | Some reward \<Rightarrow>
               (case apply_block (node_ops N) (nx N) (ns_state st) blk reward of
                  (Inl e, s) \<Rightarrow> (Inl (ApplyFailed e), st\<lparr>ns_state := s\<rparr>)
                | (Inr out, s) \<Rightarrow> commit_block N (st\<lparr>ns_state := s\<rparr>) blk (ns_minted_so_far st) reward)))"

section \<open>Start-up\<close>

definition genesis_emission :: "genesis \<Rightarrow> emission_params" where
  "genesis_emission g =
     \<lparr> initial_reward_sat = ucast (g_initial_reward_sat g), seconds_per_halving = g_seconds_per_halving g,
       target_block_time_ms = g_target_block_time_ms g, supply_cap_sat = 21000000 * 100000000,
       max_reward_pct_change_per_block = g_max_reward_pct_change_per_block g,
       bootstrap_height = g_bootstrap_height g, bootstrap_reward_pct = g_bootstrap_reward_pct g \<rparr>"

definition replay_parent_ts :: "u64 \<Rightarrow> block list \<Rightarrow> block \<Rightarrow> u64" where
  "replay_parent_ts gt blocks b =
     (if height (header b) = 0 then gt
      else
        let i = unat (height (header b) - 1) in
        if i < length blocks then timestamp_ms (header (blocks ! i)) else gt)"

fun replay :: "node_ext \<Rightarrow> emission_params \<Rightarrow> u64 \<Rightarrow> block list \<Rightarrow> block list \<Rightarrow> mem_state \<Rightarrow> u128 \<Rightarrow> u128 option \<Rightarrow>
    node_error + (mem_state \<times> u128 \<times> u128 option)" where
  "replay N p gt blocks [] mem minted prev = Inr (mem, minted, prev)"
| "replay N p gt blocks (b # bs) mem minted prev =
     (case current_reward_with_height p gt (timestamp_ms (header b)) (replay_parent_ts gt blocks b) minted
             (height (header b)) prev of
        None \<Rightarrow> Inl Panicked
      | Some reward \<Rightarrow>
          (case apply_block (node_ops N) (nx N) mem b reward of
             (Inl e, s) \<Rightarrow> Inl (ReplayFailed (height (header b)) e)
           | (Inr out, s) \<Rightarrow> replay N p gt blocks bs s (sat_add minted reward) (Some reward)))"

definition genesis_state :: "node_ext \<Rightarrow> genesis \<Rightarrow> node_error + mem_state" where
  "genesis_state N g =
     (if g_genesis_committee g \<noteq> [] then install_genesis_governance N mem_new g else Inr mem_new)"

definition node_coinbase :: "node_ext \<Rightarrow> genesis \<Rightarrow> string option \<Rightarrow> bytes" where
  "node_coinbase N g treasury =
     (let headline = take 20 (headline_bytes N g) @ replicate 12 0 in
      case treasury of
        None \<Rightarrow> headline
      | Some addr \<Rightarrow>
          (case from_bech32 (node_hash N) addr of Inl e \<Rightarrow> headline | Inr i \<Rightarrow> pad_to_32 i))"

definition node_start ::
    "node_ext \<Rightarrow> genesis \<Rightarrow> string option \<Rightarrow> chain_store \<Rightarrow> mem_state \<Rightarrow> u128 \<Rightarrow> u128 option \<Rightarrow> node_state" where
  "node_start N g treasury store mem minted prev =
     \<lparr> ns_store = store, ns_chain_id = g_chain_id g, ns_bits = g_initial_bits g,
       ns_coinbase = node_coinbase N g treasury, ns_sig_algo = g_sig_algo g,
       ns_hash_algo = g_hash_algo g, ns_genesis_time_ms = g_genesis_time_ms g,
       ns_state = mem, ns_mempool = mempool_new 10000,
       ns_block_reward_sat = ucast (g_initial_reward_sat g),
       ns_target_block_time_ms = g_target_block_time_ms g,
       ns_halving_interval_base = g_halving_interval_base g,
       ns_emission = genesis_emission g, ns_minted_so_far = minted,
       ns_prev_reward_sat = prev, ns_asert_tau_ms = g_asert_tau_ms g,
       ns_bootstrap_asert_tau_ms = g_bootstrap_asert_tau_ms g \<rparr>"

definition cmd_run :: "node_ext \<Rightarrow> genesis \<Rightarrow> string option \<Rightarrow> bytes option \<Rightarrow> node_error + node_state" where
  "cmd_run N g treasury f =
     (case cs_open (block_c N) f of
        Inl e \<Rightarrow> Inl (StoreFailed e)
      | Inr store \<Rightarrow>
          if cs_tip store = None then Inl EmptyDataDir
          else
            (case cs_load_all (block_c N) store of
               Inl e \<Rightarrow> Inl (StoreFailed e)
             | Inr blocks \<Rightarrow>
                 (case genesis_state N g of
                    Inl e \<Rightarrow> Inl e
                  | Inr mem \<Rightarrow>
                      (case replay N (genesis_emission g) (g_genesis_time_ms g) blocks blocks mem 0 None of
                         Inl e \<Rightarrow> Inl e
                       | Inr (mem, minted, prev) \<Rightarrow> Inr (node_start N g treasury store mem minted prev)))))"

section \<open>The self-miner\<close>

text \<open>
  One mining attempt: the block the loop starts from (\<open>None\<close> while it waits). The loop then
  counts the nonce up until the target is met and submits the block through
  \<open>try_apply_block\<close>.
\<close>

definition pool_body :: "node_ext \<Rightarrow> node_state \<Rightarrow> block_body" where
  "pool_body N st =
     (let pending = pull_for_block (node_hash N) (ns_mempool st) 256 in
      \<lparr> txs = map ptx_body pending, witnesses = map ptx_witness pending \<rparr>)"

definition miner_candidate :: "node_ext \<Rightarrow> u64 \<Rightarrow> u64 \<Rightarrow> node_state \<Rightarrow> (node_error + block) option" where
  "miner_candidate N now block_ts st =
     (if now < ns_genesis_time_ms st then None
      else
        (case cs_tip (ns_store st) of
           None \<Rightarrow> None
         | Some tip \<Rightarrow>
             (case expected_bits st (bits (header tip)) (height (header tip)) (timestamp_ms (header tip)) block_ts of
                None \<Rightarrow> Some (Inl Panicked)
              | Some new_bits \<Rightarrow>
                  let bd = pool_body N st in
                  Some (Inr \<lparr> header = template_from_parent_with_body (node_hash N)
                                 (hash_header (node_hash N) (header tip)) (height (header tip)) new_bits
                                 (ns_coinbase st) (ns_sig_algo st) (ns_hash_algo st) block_ts bd,
                              body = bd \<rparr>))))"

text \<open>
  The search of the self-miner: about every two million nonces it looks whether somebody else has
  extended the chain (\<open>seen k\<close> is the height of the tip at the \<open>k\<close>-th look, \<open>None\<close> without one) and gives up if
  so. \<open>None\<close> is the search that never ends, \<open>Some None\<close> the one that was given up.
\<close>

partial_function (option) self_mine_search ::
    "hash_ext \<Rightarrow> bytes \<Rightarrow> u64 \<Rightarrow> (nat \<Rightarrow> u64 option) \<Rightarrow> nat \<Rightarrow> block_header \<Rightarrow> block_header option option" where
  "self_mine_search H target tip_height seen k hdr =
     (if meets_target (hash_header H hdr) target then Some (Some hdr)
      else
        let hdr = hdr\<lparr>nonce := nonce hdr + 1\<rparr> in
        if take_bit 21 (nonce hdr) = 0 then
          if (case seen k of None \<Rightarrow> False | Some h \<Rightarrow> h > tip_height) then Some None
          else self_mine_search H target tip_height seen (Suc k) hdr
        else self_mine_search H target tip_height seen k hdr)"

text \<open>One attempt: the block is built on one state of the node and offered to a later one.\<close>

definition self_mine_attempt ::
    "node_ext \<Rightarrow> u64 \<Rightarrow> u64 \<Rightarrow> node_state \<Rightarrow> (nat \<Rightarrow> u64 option) \<Rightarrow> u64 \<Rightarrow> node_state \<Rightarrow> (node_error + node_state) option" where
  "self_mine_attempt N now block_ts st seen now' st' =
     (case miner_candidate N now block_ts st of
        None \<Rightarrow> Some (Inr st')
      | Some (Inl e) \<Rightarrow> Some (Inl e)
      | Some (Inr blk) \<Rightarrow>
          map_option (\<lambda>found.
            case found of
              None \<Rightarrow> Inr st'
            | Some hdr \<Rightarrow> Inr (snd (try_apply_block N now' st' \<lparr> header = hdr, body = body blk \<rparr>)))
          (self_mine_search (node_hash N) (target_from_bits (bits (header blk))) (height (header blk) - 1) seen 0 (header blk)))"

section \<open>The show commands\<close>

text \<open>Both open the log; \<open>None\<close> is the division by zero of a genesis file with no halving interval.\<close>

definition cmd_show_emission :: "node_ext \<Rightarrow> genesis \<Rightarrow> bytes option \<Rightarrow> (log_error + u64 \<times> u32 \<times> u64) option" where
  "cmd_show_emission N g f =
     (case cs_open (block_c N) f of
        Inl e \<Rightarrow> Some (Inl e)
      | Inr store \<Rightarrow>
          if g_halving_interval_base g = 0 then None
          else
            let h = cs_height store;
                halvings = min (h div g_halving_interval_base g) 63;
                reward = (if halvings \<ge> 63 then 0 else drop_bit (unat halvings) (g_initial_reward_sat g)) in
            Some (Inr (h, ucast halvings, reward)))"

definition cmd_show_reflect :: "node_ext \<Rightarrow> bytes option \<Rightarrow> log_error + u64" where
  "cmd_show_reflect N f = map_sum id cs_len (cs_open (block_c N) f)"

end
