(* ===== verification/Node_Chain.thy ===== *)
theory Node_Chain
  imports Node State_Accounting
begin

text \<open>
  The chain a node builds. \<open>node_step\<close> is one request; the invariant \<open>node_inv\<close> (the log is
  readable and agrees with the cache, its blocks form a valid chain, the pool and the store are
  well formed) holds in every state a node can reach. Replaying the log gives back the state, the
  issued amount and the last reward, as long as no refused block has changed the store; and the
  balances add up to the issued amount, which stays below a fixed bound.
\<close>

section \<open>Valid chains\<close>

definition child_ok :: "node_ext \<Rightarrow> node_state \<Rightarrow> block \<Rightarrow> block \<Rightarrow> bool" where
  "child_ok N st a b \<longleftrightarrow>
     parent (header b) = hash_header (node_hash N) (header a) \<and>
     height (header b) = height (header a) + 1 \<and>
     timestamp_ms (header a) \<le> timestamp_ms (header b) \<and>
     expected_bits st (bits (header a)) (height (header a)) (timestamp_ms (header a)) (timestamp_ms (header b)) =
       Some (bits (header b)) \<and>
     meets_target (hash_header (node_hash N) (header b)) (target_from_bits (bits (header b))) \<and>
     hdr_tx_root (header b) = tx_root (node_hash N) (body b) \<and>
     hdr_witness_root (header b) = witness_root (node_hash N) (body b)"

definition chain_ok :: "node_ext \<Rightarrow> node_state \<Rightarrow> block list \<Rightarrow> bool" where
  "chain_ok N st bs \<longleftrightarrow> bs \<noteq> [] \<and> height (header (hd bs)) = 0 \<and>
     timestamp_ms (header (hd bs)) = ns_genesis_time_ms st \<and> successively (child_ok N st) bs"

definition node_inv :: "node_ext \<Rightarrow> node_state \<Rightarrow> block list \<Rightarrow> bool" where
  "node_inv N st bs \<longleftrightarrow> cs_inv (block_c N) (ns_store st) bs \<and> chain_ok N st bs \<and>
     mem_inv (ns_state st) \<and> mempool_ok (node_hash N) (ns_mempool st)"

lemma chain_ok_config:
  assumes "ns_genesis_time_ms st' = ns_genesis_time_ms st" "ns_emission st' = ns_emission st"
    "ns_target_block_time_ms st' = ns_target_block_time_ms st" "ns_asert_tau_ms st' = ns_asert_tau_ms st"
    "ns_bootstrap_asert_tau_ms st' = ns_bootstrap_asert_tau_ms st"
  shows "chain_ok N st' bs = chain_ok N st bs"
proof -
  have "child_ok N st' = child_ok N st" using assms by (simp add: fun_eq_iff child_ok_def expected_bits_def)
  then show ?thesis using assms(1) by (simp add: chain_ok_def)
qed

lemma node_inv_upd:
  assumes "chain_ok N st bs" "cs_inv (block_c N) cs bs" "mem_inv s" "mempool_ok (node_hash N) mp"
  shows "node_inv N (st\<lparr>ns_state := s, ns_minted_so_far := m, ns_prev_reward_sat := r, ns_mempool := mp, ns_store := cs\<rparr>) bs"
proof -
  have "chain_ok N (st\<lparr>ns_state := s, ns_minted_so_far := m, ns_prev_reward_sat := r, ns_mempool := mp, ns_store := cs\<rparr>) bs"
    using assms(1) by (subst chain_ok_config [of _ st]) simp_all
  with assms show ?thesis by (simp add: node_inv_def)
qed

lemma node_state_upd:
  "st\<lparr>ns_state := s\<rparr> = st\<lparr>ns_state := s, ns_minted_so_far := ns_minted_so_far st,
     ns_prev_reward_sat := ns_prev_reward_sat st, ns_mempool := ns_mempool st, ns_store := ns_store st\<rparr>"
  "st\<lparr>ns_mempool := mp\<rparr> = st\<lparr>ns_state := ns_state st, ns_minted_so_far := ns_minted_so_far st,
     ns_prev_reward_sat := ns_prev_reward_sat st, ns_mempool := mp, ns_store := ns_store st\<rparr>"
  by simp_all

lemma chain_ok_snoc:
  "bs \<noteq> [] \<Longrightarrow> chain_ok N st (bs @ [b]) \<longleftrightarrow> chain_ok N st bs \<and> child_ok N st (last bs) b"
  by (auto simp: chain_ok_def successively_append_iff)

lemma chain_ok_butlast: "chain_ok N st (bs @ [b]) \<Longrightarrow> bs \<noteq> [] \<Longrightarrow> chain_ok N st bs"
  by (simp add: chain_ok_snoc)

lemma chain_height:
  assumes "chain_ok N st bs" "i < length bs"
  shows "height (header (bs ! i)) = of_nat i"
  using assms
proof (induction bs arbitrary: i rule: rev_induct)
  case (snoc b bs)
  show ?case
  proof (cases "bs = []")
    case True
    then show ?thesis using snoc.prems by (simp add: chain_ok_def)
  next
    case False
    then have c: "chain_ok N st bs" "child_ok N st (last bs) b" using snoc.prems(1) by (simp_all add: chain_ok_snoc)
    have "height (header (last bs)) = of_nat (length bs - 1)"
      using snoc.IH [OF c(1), of "length bs - 1"] False by (simp add: last_conv_nth)
    then have "height (header b) = of_nat (length bs)"
      using c(2) False by (cases bs rule: rev_cases) (simp_all add: child_ok_def add.commute)
    then show ?thesis using snoc.IH [OF c(1)] snoc.prems(2) by (cases "i < length bs") (simp_all add: nth_append less_Suc_eq)
  qed
qed (simp add: chain_ok_def)

lemma chain_times:
  assumes "chain_ok N st bs" "b \<in> set bs"
  shows "ns_genesis_time_ms st \<le> timestamp_ms (header b) \<and> timestamp_ms (header b) \<le> timestamp_ms (header (last bs))"
  using assms
proof (induction bs arbitrary: b rule: rev_induct)
  case (snoc c bs)
  show ?case
  proof (cases "bs = []")
    case True
    then show ?thesis using snoc.prems by (simp add: chain_ok_def)
  next
    case False
    then have c: "chain_ok N st bs" "child_ok N st (last bs) c" using snoc.prems(1) by (simp_all add: chain_ok_snoc)
    have l: "timestamp_ms (header (last bs)) \<le> timestamp_ms (header c)" using c(2) by (simp add: child_ok_def)
    note IH = snoc.IH [OF c(1)]
    show ?thesis
    proof (cases "b = c")
      case True
      have "ns_genesis_time_ms st \<le> timestamp_ms (header (last bs))" using IH [of "last bs"] False by simp
      from order_trans [OF this l] True show ?thesis by simp
    next
      case b: False
      then have "b \<in> set bs" using snoc.prems(2) by simp
      note i = IH [OF this]
      from i order_trans [OF conjunct2 [OF i] l] show ?thesis by simp
    qed
  qed
qed simp

lemma chain_bits:
  assumes "chain_ok N st bs" "bits_ok (bits (header (hd bs)))" "b \<in> set bs"
  shows "bits_ok (bits (header b))"
  using assms
proof (induction bs arbitrary: b rule: rev_induct)
  case (snoc c bs)
  show ?case
  proof (cases "bs = []")
    case True
    then show ?thesis using snoc.prems by simp
  next
    case False
    then have c: "chain_ok N st bs" "child_ok N st (last bs) c" using snoc.prems(1) by (simp_all add: chain_ok_snoc)
    have h: "bits_ok (bits (header (hd bs)))" using snoc.prems(2) False by simp
    note IH = snoc.IH [OF c(1) h]
    have "bits_ok (bits (header (last bs)))" using IH False by simp
    moreover have "expected_bits st (bits (header (last bs))) (height (header (last bs)))
        (timestamp_ms (header (last bs))) (timestamp_ms (header c)) = Some (bits (header c))"
      using c(2) by (simp only: child_ok_def)
    ultimately have "bits_ok (bits (header c))"
      unfolding expected_bits_def by (metis next_bits_ok option.inject)
    moreover have "b = c \<or> b \<in> set bs" using snoc.prems(3) by auto
    ultimately show ?thesis using IH by blast
  qed
qed simp

section \<open>One request\<close>

lemma check_block_Inr:
  assumes "check_block N now st blk = Inr ()" "cs_tip (ns_store st) = Some t"
  shows "child_ok N st t blk" "ns_genesis_time_ms st \<le> now"
    "timestamp_ms (header blk) \<le> now + FUTURE_TIME_TOLERANCE_MS"
  using assms
  by (auto simp: check_block_def tip_context_def child_ok_def Let_def not_less split: if_splits option.splits)

lemma try_apply_block_cases:
  assumes "cs_inv (block_c N) (ns_store st) bs" "fits_log (block_c N) blk"
  obtains (refused) e where "try_apply_block N now st blk = (Inl e, st)"
  | (failed) e s where "try_apply_block N now st blk = (Inl (ApplyFailed e), st\<lparr>ns_state := s\<rparr>)"
      "check_block N now st blk = Inr ()"
      "\<exists>r. next_reward st (header blk) = Some r \<and> apply_block (node_ops N) (nx N) (ns_state st) blk r = (Inl e, s)"
  | (accepted) out s r cs where "check_block N now st blk = Inr ()" "next_reward st (header blk) = Some r"
      "apply_block (node_ops N) (nx N) (ns_state st) blk r = (Inr out, s)"
      "cs_append (block_c N) (ns_store st) blk = (Inr (), cs)"
      "try_apply_block N now st blk = (Inr (), st\<lparr>ns_state := s, ns_minted_so_far := sat_add (ns_minted_so_far st) r,
         ns_prev_reward_sat := Some r,
         ns_mempool := mempool_confirm (ns_mempool st) (map (body_hash (node_hash N)) (txs (body blk))),
         ns_store := cs\<rparr>)"
proof (cases "check_block N now st blk")
  case (Inl e)
  then show thesis by (intro refused) (simp add: try_apply_block_def)
next
  case (Inr u)
  show thesis
  proof (cases "next_reward st (header blk)")
    case None
    then show thesis using Inr by (intro refused) (simp add: try_apply_block_def)
  next
    case (Some r)
    obtain res s where a: "apply_block (node_ops N) (nx N) (ns_state st) blk r = (res, s)" by fastforce
    show thesis
    proof (cases res)
      case (Inl e)
      then show thesis using Inr Some a by (intro failed [of e s]) (auto simp: try_apply_block_def)
    next
      case out: (Inr out)
      obtain cs where "cs_append (block_c N) (ns_store st) blk = (Inr (), cs)"
        using cs_append_inv(1) [OF assms] by (metis prod.collapse)
      then show thesis using Inr Some a out
        by (intro accepted [of r out s cs]) (auto simp: try_apply_block_def commit_block_def Let_def)
    qed
  qed
qed

lemma try_apply_block_inv:
  assumes "node_inv N st bs" "fits_log (block_c N) blk"
  shows "fst (try_apply_block N now st blk) = Inr () \<Longrightarrow> node_inv N (snd (try_apply_block N now st blk)) (bs @ [blk])"
    and "fst (try_apply_block N now st blk) \<noteq> Inr () \<Longrightarrow> node_inv N (snd (try_apply_block N now st blk)) bs"
proof -
  have i: "cs_inv (block_c N) (ns_store st) bs" "chain_ok N st bs" "mem_inv (ns_state st)"
    "mempool_ok (node_hash N) (ns_mempool st)" using assms(1) by (simp_all add: node_inv_def)
  have s: "mem_inv (snd (apply_block (node_ops N) (nx N) (ns_state st) blk r))" for r
    using i(3) by (rule mem.apply_block_inv)
  have "(fst (try_apply_block N now st blk) = Inr () \<longrightarrow> node_inv N (snd (try_apply_block N now st blk)) (bs @ [blk])) \<and>
      (fst (try_apply_block N now st blk) \<noteq> Inr () \<longrightarrow> node_inv N (snd (try_apply_block N now st blk)) bs)"
    using i(1) assms(2)
  proof (cases rule: try_apply_block_cases [where now = now])
    case (refused e)
    then show ?thesis using assms(1) by simp
  next
    case (failed e s')
    then obtain r where "apply_block (node_ops N) (nx N) (ns_state st) blk r = (Inl e, s')" by blast
    then have "mem_inv s'" using s [of r] by simp
    then have "node_inv N (st\<lparr>ns_state := s'\<rparr>) bs" by (subst node_state_upd(1)) (intro node_inv_upd i)
    then show ?thesis using failed(1) by simp
  next
    case (accepted out s' r cs)
    have "bs \<noteq> []" using i(2) by (simp add: chain_ok_def)
    then have "cs_tip (ns_store st) = Some (last bs)" using i(1) by (simp add: cs_inv_def)
    then have "chain_ok N st (bs @ [blk])"
      using check_block_Inr(1) [OF accepted(1)] i(2) \<open>bs \<noteq> []\<close> by (simp add: chain_ok_snoc)
    moreover have "cs_inv (block_c N) cs (bs @ [blk])" using cs_append_inv(2) [OF i(1) assms(2)] accepted(4) by simp
    moreover have "mem_inv s'" using s [of r] accepted(3) by simp
    ultimately have "node_inv N (snd (try_apply_block N now st blk)) (bs @ [blk])"
      unfolding accepted(5) snd_conv by (intro node_inv_upd mempool_ok_confirm i(4))
    then show ?thesis using accepted(5) by simp
  qed
  then show "fst (try_apply_block N now st blk) = Inr () \<Longrightarrow> node_inv N (snd (try_apply_block N now st blk)) (bs @ [blk])"
    "fst (try_apply_block N now st blk) \<noteq> Inr () \<Longrightarrow> node_inv N (snd (try_apply_block N now st blk)) bs" by blast+
qed

section \<open>Reachable states\<close>

inductive node_step :: "node_ext \<Rightarrow> node_state \<Rightarrow> node_state \<Rightarrow> bool" for N where
  step_block: "fits_log (block_c N) blk \<Longrightarrow> node_step N st (snd (try_apply_block N now st blk))"
| step_tx: "node_step N st (st\<lparr>ns_mempool := snd (mempool_submit (node_hash N) now (ns_mempool st) bd w)\<rparr>)"

inductive node_reach :: "node_ext \<Rightarrow> node_state \<Rightarrow> node_state \<Rightarrow> bool" for N st0 where
  reach_start: "node_reach N st0 st0"
| reach_step: "node_reach N st0 st \<Longrightarrow> node_step N st st' \<Longrightarrow> node_reach N st0 st'"

lemma node_step_inv:
  assumes "node_step N st st'" "node_inv N st bs"
  shows "\<exists>new. node_inv N st' (bs @ new)"
  using assms(1)
proof cases
  case (step_block blk now)
  then show ?thesis using try_apply_block_inv [OF assms(2) step_block(2), of now]
    by (cases "fst (try_apply_block N now st blk) = Inr ()") (auto intro: exI [of _ "[]"])
next
  case (step_tx now bd w)
  have i: "cs_inv (block_c N) (ns_store st) bs" "chain_ok N st bs" "mem_inv (ns_state st)"
    "mempool_ok (node_hash N) (ns_mempool st)" using assms(2) by (simp_all add: node_inv_def)
  have "node_inv N st' bs"
    unfolding step_tx by (subst node_state_upd(2)) (intro node_inv_upd mempool_ok_submit i)
  then show ?thesis by (intro exI [of _ "[]"]) simp
qed

lemma node_reach_inv:
  assumes "node_reach N st0 st" "node_inv N st0 bs"
  shows "\<exists>new. node_inv N st (bs @ new)"
  using assms
proof (induction rule: node_reach.induct)
  case reach_start
  then show ?case by (intro exI [of _ "[]"]) simp
next
  case (reach_step st st')
  then show ?case using node_step_inv by (metis append_assoc)
qed

end
