(* ===== verification/Node_Replay.thy ===== *)
theory Node_Replay
  imports Node_Chain
begin

text \<open>
  Restarts and issuance. The replay of a log is computed block by block, so that an accepted
  block and one more step of the replay agree; a node that has only accepted blocks, or refused
  blocks without a trace, is restored exactly by a restart. The same induction carries the sum of
  the balances and the emission potential along the chain.
\<close>

section \<open>Replay, one block at a time\<close>

lemma replay_append:
  "replay N p gt bl (xs @ ys) mem m r =
     (case replay N p gt bl xs mem m r of Inl e \<Rightarrow> Inl e | Inr (mem', m', r') \<Rightarrow> replay N p gt bl ys mem' m' r')"
  by (induction xs arbitrary: mem m r) (auto split: option.splits sum.splits prod.splits)

lemma replay_cong:
  assumes "\<forall>b \<in> set bs. replay_parent_ts gt bl b = replay_parent_ts gt bl' b"
  shows "replay N p gt bl bs mem m r = replay N p gt bl' bs mem m r"
  using assms by (induction bs arbitrary: mem m r) (auto split: option.splits sum.splits prod.splits)

lemma unat_height:
  assumes "chain_ok N st bs" "i < length bs" "length bs \<le> 2 ^ 64"
  shows "unat (height (header (bs ! i))) = i"
  using chain_height [OF assms(1,2)] assms(2,3) by (simp add: unat_of_nat)

lemma parent_ts_old:
  assumes "chain_ok N st (bs @ [b])" "length bs < 2 ^ 64" "c \<in> set bs"
  shows "replay_parent_ts gt (bs @ [b]) c = replay_parent_ts gt bs c"
proof -
  obtain i where i: "i < length bs" "c = bs ! i" using assms(3) by (auto simp: in_set_conv_nth)
  have u: "unat (height (header c)) = i"
    using unat_height [OF assms(1), of i] i assms(2) by (simp add: nth_append)
  have "unat (height (header c) - 1) < length bs" if "height (header c) \<noteq> 0"
  proof -
    have "unat (height (header c)) \<noteq> 0" using that by (simp add: unsigned_eq_0_iff)
    then have "(1 :: u64) \<le> height (header c)" by (simp add: word_le_nat_alt Suc_le_eq)
    then show ?thesis using u i(1) by (simp add: unat_sub_le)
  qed
  then show ?thesis by (auto simp: replay_parent_ts_def Let_def nth_append)
qed

lemma parent_ts_new:
  assumes "chain_ok N st (bs @ [b])" "length bs < 2 ^ 64" "bs \<noteq> []"
  shows "replay_parent_ts gt (bs @ [b]) b = timestamp_ms (header (last bs))"
proof -
  have u: "unat (height (header b)) = length bs"
    using unat_height [OF assms(1), of "length bs"] assms(2) by simp
  then have "height (header b) \<noteq> 0" "(1 :: u64) \<le> height (header b)"
    using assms(3) by (auto simp: word_le_nat_alt Suc_le_eq)
  moreover from this have "unat (height (header b) - 1) = length bs - 1" using u by (simp add: unat_sub_le)
  moreover have "length bs - 1 < length bs" using assms(3) by (cases bs) simp_all
  ultimately show ?thesis using assms(3)
    by (simp add: replay_parent_ts_def Let_def nth_append last_conv_nth less_SucI)
qed

lemma replay_snoc:
  assumes "chain_ok N st (bs @ [b])" "length bs < 2 ^ 64"
  shows "replay N p gt (bs @ [b]) (bs @ [b]) mem 0 None =
    (case replay N p gt bs bs mem 0 None of
       Inl e \<Rightarrow> Inl e
     | Inr (mem', m, r) \<Rightarrow>
         (case current_reward_with_height p gt (timestamp_ms (header b)) (replay_parent_ts gt (bs @ [b]) b) m
                 (height (header b)) r of
            None \<Rightarrow> Inl Panicked
          | Some reward \<Rightarrow>
              (case apply_block (node_ops N) (nx N) mem' b reward of
                 (Inl e, s) \<Rightarrow> Inl (ReplayFailed (height (header b)) e)
               | (Inr out, s) \<Rightarrow> Inr (s, sat_add m reward, Some reward))))"
proof -
  have "replay N p gt (bs @ [b]) bs mem 0 None = replay N p gt bs bs mem 0 None"
    using parent_ts_old [OF assms] by (intro replay_cong) blast
  then show ?thesis by (simp add: replay_append del: replay.simps(1)) (simp split: sum.split option.split prod.split)
qed

section \<open>Runs without a trace of refused blocks\<close>

definition replayed :: "node_ext \<Rightarrow> mem_state \<Rightarrow> node_state \<Rightarrow> block list \<Rightarrow> bool" where
  "replayed N mem0 st bs \<longleftrightarrow>
     replay N (ns_emission st) (ns_genesis_time_ms st) bs bs mem0 0 None =
     Inr (ns_state st, ns_minted_so_far st, ns_prev_reward_sat st)"

definition configured :: "node_ext \<Rightarrow> genesis \<Rightarrow> string option \<Rightarrow> node_state \<Rightarrow> bool" where
  "configured N g treasury st \<longleftrightarrow>
     st\<lparr>ns_mempool := mempool_new 10000\<rparr> =
     node_start N g treasury (ns_store st) (ns_state st) (ns_minted_so_far st) (ns_prev_reward_sat st)"

inductive node_clean :: "node_ext \<Rightarrow> node_state \<Rightarrow> node_state \<Rightarrow> bool" for N st0 where
  clean_start: "node_clean N st0 st0"
| clean_block: "node_clean N st0 st \<Longrightarrow> fits_log (block_c N) blk \<Longrightarrow>
    fst (try_apply_block N now st blk) = Inr () \<or> ns_state (snd (try_apply_block N now st blk)) = ns_state st \<Longrightarrow>
    node_clean N st0 (snd (try_apply_block N now st blk))"
| clean_tx: "node_clean N st0 st \<Longrightarrow>
    node_clean N st0 (st\<lparr>ns_mempool := snd (mempool_submit (node_hash N) now (ns_mempool st) bd w)\<rparr>)"

lemma replayed_accept:
  assumes inv: "node_inv N st bs" and rep: "replayed N mem0 st bs" and len: "length bs < 2 ^ 64"
    and fits: "fits_log (block_c N) blk" and acc: "fst (try_apply_block N now st blk) = Inr ()"
  shows "replayed N mem0 (snd (try_apply_block N now st blk)) (bs @ [blk])"
proof -
  have i: "cs_inv (block_c N) (ns_store st) bs" "chain_ok N st bs" using inv by (simp_all add: node_inv_def)
  have ne: "bs \<noteq> []" using i(2) by (simp add: chain_ok_def)
  have tip: "cs_tip (ns_store st) = Some (last bs)" using i(1) ne by (simp add: cs_inv_def)
  show ?thesis using i(1) fits
  proof (cases rule: try_apply_block_cases [where now = now])
    case (accepted out s r cs)
    have ch: "chain_ok N st (bs @ [blk])"
      using check_block_Inr(1) [OF accepted(1) tip] i(2) ne by (simp add: chain_ok_snoc)
    have r: "current_reward_with_height (ns_emission st) (ns_genesis_time_ms st) (timestamp_ms (header blk))
        (timestamp_ms (header (last bs))) (ns_minted_so_far st) (height (header blk)) (ns_prev_reward_sat st) = Some r"
      using accepted(2) tip by (simp add: next_reward_def)
    show ?thesis
      using rep accepted(3) r
      by (simp add: replayed_def accepted(5) replay_snoc [OF ch len] parent_ts_new [OF ch len ne])
  qed (use acc in simp_all)
qed

lemma configured_upd:
  "configured N g t st \<Longrightarrow>
     configured N g t (st\<lparr>ns_state := s, ns_minted_so_far := m, ns_prev_reward_sat := r, ns_mempool := mp, ns_store := cs\<rparr>)"
  by (cases st) (simp add: configured_def node_start_def)

lemma configured_step:
  assumes "configured N g t st" "cs_inv (block_c N) (ns_store st) bs" "fits_log (block_c N) blk"
  shows "configured N g t (snd (try_apply_block N now st blk))"
  using assms(2,3)
proof (cases rule: try_apply_block_cases [where now = now])
  case (failed e s)
  have "configured N g t (st\<lparr>ns_state := s\<rparr>)" by (subst node_state_upd(1)) (rule configured_upd [OF assms(1)])
  then show ?thesis using failed by simp
next
  case (accepted out s r cs)
  then show ?thesis by (simp only: snd_conv configured_upd [OF assms(1)])
qed (use assms(1) in simp)

lemma clean_run:
  assumes "node_clean N st0 st" "node_inv N st0 bs0" "replayed N mem0 st0 bs0" "configured N g t st0"
  shows "\<exists>bs. node_inv N st bs \<and> configured N g t st \<and> (length bs \<le> 2 ^ 64 \<longrightarrow> replayed N mem0 st bs)"
  using assms
proof (induction rule: node_clean.induct)
  case clean_start
  then show ?case by blast
next
  case (clean_block st blk now)
  then obtain bs where bs: "node_inv N st bs" "configured N g t st" "length bs \<le> 2 ^ 64 \<longrightarrow> replayed N mem0 st bs" by blast
  have cs: "cs_inv (block_c N) (ns_store st) bs" using bs(1) by (simp add: node_inv_def)
  have c: "configured N g t (snd (try_apply_block N now st blk))"
    by (rule configured_step [OF bs(2) cs clean_block.hyps(2)])
  show ?case
  proof (cases "fst (try_apply_block N now st blk) = Inr ()")
    case True
    have "node_inv N (snd (try_apply_block N now st blk)) (bs @ [blk])"
      by (rule try_apply_block_inv(1) [OF bs(1) clean_block.hyps(2) True])
    moreover have "length (bs @ [blk]) \<le> 2 ^ 64 \<longrightarrow> replayed N mem0 (snd (try_apply_block N now st blk)) (bs @ [blk])"
      using replayed_accept [OF bs(1) _ _ clean_block.hyps(2) True] bs(3) by simp
    ultimately show ?thesis using c by blast
  next
    case False
    have "snd (try_apply_block N now st blk) = st"
      using cs clean_block.hyps(2)
      by (cases rule: try_apply_block_cases [where now = now]) (use False clean_block.hyps(3) in auto)
    then show ?thesis using bs by simp blast
  qed
next
  case (clean_tx st now bd w)
  then obtain bs where bs: "node_inv N st bs" "configured N g t st" "length bs \<le> 2 ^ 64 \<longrightarrow> replayed N mem0 st bs" by blast
  let ?st = "st\<lparr>ns_mempool := snd (mempool_submit (node_hash N) now (ns_mempool st) bd w)\<rparr>"
  have i: "cs_inv (block_c N) (ns_store st) bs" "chain_ok N st bs" "mem_inv (ns_state st)"
    "mempool_ok (node_hash N) (ns_mempool st)" using bs(1) by (simp_all add: node_inv_def)
  have "node_inv N ?st bs" by (subst node_state_upd(2)) (intro node_inv_upd mempool_ok_submit i)
  moreover have "configured N g t ?st" by (subst node_state_upd(2)) (rule configured_upd [OF bs(2)])
  moreover have "replayed N mem0 ?st bs = replayed N mem0 st bs" by (simp add: replayed_def)
  ultimately show ?case using bs(3) by blast
qed

section \<open>Restart\<close>

lemma mem_put_other_load:
  "mem_inv m \<Longrightarrow> sub \<noteq> Accounts \<Longrightarrow>
     load_or_default (mem_ops H) X (mem_put m sub k v) = load_or_default (mem_ops H) X m \<and> mem_inv (mem_put m sub k v)"
  using mem.load_put_other [of m sub H X k v] mem.inv_put [of m H sub k v] by (simp add: mem_ops_def)

lemma genesis_state_ok:
  assumes "genesis_state N g = Inr mem0"
  shows "mem_inv mem0" "load_or_default (node_ops N) (nx N) mem0 = (\<lambda>_. default_account)"
proof -
  have n: "load_or_default (node_ops N) (nx N) mem_new = (\<lambda>_. default_account)"
    by (simp add: fun_eq_iff load_or_default_def load_def mem_ops_def mem_get_def mem_new_def bt_get_def)
  have "mem0 = mem_new \<or> (\<exists>buf. mem0 = mem_put mem_new Meta (str_bytes ''governance'') buf)"
    using assms by (auto simp: genesis_state_def install_genesis_governance_def Let_def split: if_splits sum.splits option.splits)
  then show "mem_inv mem0" "load_or_default (node_ops N) (nx N) mem0 = (\<lambda>_. default_account)"
    using n mem_put_other_load [of mem_new Meta "node_hash N" "nx N"] by auto
qed

lemma cmd_run_log:
  assumes "codec_ok (block_c N)" "log_of (block_c N) bs = Some f" "bs \<noteq> []" "genesis_state N g = Inr mem0"
  obtains store where "cs_inv (block_c N) store bs" "log_file store = Some f"
    "cmd_run N g t (Some f) =
      (case replay N (genesis_emission g) (g_genesis_time_ms g) bs bs mem0 0 None of
         Inl e \<Rightarrow> Inl e
       | Inr (mem, minted, prev) \<Rightarrow> Inr (node_start N g t store mem minted prev))"
proof -
  obtain store where st: "cs_open (block_c N) (Some f) = Inr store" "cs_inv (block_c N) store bs" "log_file store = Some f"
    using cs_open_inv [OF assms(1,2)] by blast
  moreover have "cs_tip store = Some (last bs)" using st(2) assms(3) by (simp add: cs_inv_def)
  moreover note cs_load_all_inv [OF assms(1) st(2)]
  ultimately show thesis by (intro that [of store]) (simp_all add: cmd_run_def assms(4))
qed

lemma cmd_run_Inr:
  assumes "codec_ok (block_c N)" "log_of (block_c N) bs = Some f" "bs \<noteq> []" "cmd_run N g t (Some f) = Inr st"
  obtains mem0 where "genesis_state N g = Inr mem0" "cs_inv (block_c N) (ns_store st) bs" "replayed N mem0 st bs"
    "configured N g t st" "mempool_ok (node_hash N) (ns_mempool st)"
proof -
  obtain store where o: "cs_open (block_c N) (Some f) = Inr store" using cs_open_inv [OF assms(1,2)] by blast
  then obtain mem0 where m: "genesis_state N g = Inr mem0"
    using assms(4) by (auto simp: cmd_run_def split: if_splits sum.splits)
  obtain store where s: "cs_inv (block_c N) store bs"
    "cmd_run N g t (Some f) =
      (case replay N (genesis_emission g) (g_genesis_time_ms g) bs bs mem0 0 None of
         Inl e \<Rightarrow> Inl e
       | Inr (mem, minted, prev) \<Rightarrow> Inr (node_start N g t store mem minted prev))"
    by (rule cmd_run_log [OF assms(1-3) m])
  then obtain mem minted prev where r: "replay N (genesis_emission g) (g_genesis_time_ms g) bs bs mem0 0 None = Inr (mem, minted, prev)"
    and st: "st = node_start N g t store mem minted prev"
    using assms(4) by (auto split: sum.splits)
  show thesis
    by (rule that [OF m]) (use s(1) r in \<open>simp_all add: st replayed_def configured_def node_start_def\<close>)
qed

lemma mem_inv_replay:
  "replay N p gt bl bs mem m r = Inr (mem', m', r') \<Longrightarrow> mem_inv mem \<Longrightarrow> mem_inv mem'"
proof (induction bs arbitrary: mem m r)
  case (Cons b bs)
  then obtain reward out s where
    "apply_block (node_ops N) (nx N) mem b reward = (Inr out, s)"
    "replay N p gt bl bs s (sat_add m reward) (Some reward) = Inr (mem', m', r')"
    by (auto split: option.splits prod.splits sum.splits)
  moreover have "mem_inv s" using mem.apply_block_inv [OF Cons.prems(2), of "node_hash N" "nx N" b reward] calculation(1) by simp
  ultimately show ?case using Cons.IH by blast
qed simp

lemma start_inv:
  assumes "codec_ok (block_c N)" "log_of (block_c N) bs = Some f" "cmd_run N g t (Some f) = Inr st" "chain_ok N st bs"
  obtains mem0 where "genesis_state N g = Inr mem0" "node_inv N st bs" "replayed N mem0 st bs" "configured N g t st"
proof -
  have "bs \<noteq> []" using assms(4) by (simp add: chain_ok_def)
  then obtain mem0 where m: "genesis_state N g = Inr mem0" "cs_inv (block_c N) (ns_store st) bs" "replayed N mem0 st bs"
    "configured N g t st" "mempool_ok (node_hash N) (ns_mempool st)"
    using cmd_run_Inr [OF assms(1,2) _ assms(3)] by metis
  have "mem_inv (ns_state st)"
    using m(3) genesis_state_ok(1) [OF m(1)] unfolding replayed_def by (rule mem_inv_replay)
  then show thesis using m assms(4) by (intro that) (simp_all add: node_inv_def)
qed

text \<open>What is known of a node that was started on a valid log and has run without such a trace.\<close>

lemma clean_state:
  assumes K: "codec_ok (block_c N)" and f: "log_of (block_c N) bs0 = Some f" "cmd_run N g t (Some f) = Inr st0" "chain_ok N st0 bs0"
    and run: "node_clean N st0 st"
    and len: "cs_load_all (block_c N) (ns_store st) = Inr bs" "length bs \<le> 2 ^ 64"
  obtains mem0 where "genesis_state N g = Inr mem0" "node_inv N st bs" "replayed N mem0 st bs" "configured N g t st"
    "ns_emission st = genesis_emission g" "ns_genesis_time_ms st = g_genesis_time_ms g"
proof -
  obtain mem0 where m: "genesis_state N g = Inr mem0" "node_inv N st0 bs0" "replayed N mem0 st0 bs0" "configured N g t st0"
    by (rule start_inv [OF K f])
  obtain bs' where b: "node_inv N st bs'" "configured N g t st" "length bs' \<le> 2 ^ 64 \<longrightarrow> replayed N mem0 st bs'"
    using clean_run [OF run m(2-4)] by blast
  have "cs_inv (block_c N) (ns_store st) bs'" using b(1) by (simp add: node_inv_def)
  then have "bs' = bs" using cs_load_all_inv [OF K] len(1) by auto
  moreover have "ns_emission st = genesis_emission g" "ns_genesis_time_ms st = g_genesis_time_ms g"
    using b(2) by (cases st; simp add: configured_def node_start_def)+
  ultimately show thesis using m(1) b len(2) by (intro that) simp_all
qed

lemma restart:
  assumes K: "codec_ok (block_c N)" and f: "log_of (block_c N) bs0 = Some f" "cmd_run N g t (Some f) = Inr st0" "chain_ok N st0 bs0"
    and run: "node_clean N st0 st"
    and len: "cs_load_all (block_c N) (ns_store st) = Inr bs" "length bs \<le> 2 ^ 64"
  shows "cmd_run N g t (log_file (ns_store st)) = Inr (st\<lparr>ns_mempool := mempool_new 10000\<rparr>)"
proof -
  obtain mem0 where m: "genesis_state N g = Inr mem0" "node_inv N st bs" "replayed N mem0 st bs" "configured N g t st"
    "ns_emission st = genesis_emission g" "ns_genesis_time_ms st = g_genesis_time_ms g"
    by (rule clean_state [OF assms])
  have i: "cs_inv (block_c N) (ns_store st) bs" "bs \<noteq> []" using m(2) by (auto simp: node_inv_def chain_ok_def)
  obtain f' where f': "log_file (ns_store st) = Some f'" "log_of (block_c N) bs = Some f'"
    using i log_of_Nil [of "block_c N" bs] by (cases "log_file (ns_store st)") (auto simp: cs_inv_def)
  obtain store where s: "cs_inv (block_c N) store bs" "log_file store = Some f'"
    "cmd_run N g t (Some f') =
      (case replay N (genesis_emission g) (g_genesis_time_ms g) bs bs mem0 0 None of
         Inl e \<Rightarrow> Inl e
       | Inr (mem, minted, prev) \<Rightarrow> Inr (node_start N g t store mem minted prev))"
    by (rule cmd_run_log [OF K f'(2) i(2) m(1)])
  have "store = ns_store st" using same_store [OF s(1) i(1)] s(2) f'(1) by simp
  then show ?thesis using m s(3) f'(1) by (simp add: replayed_def configured_def)
qed

section \<open>Issuance\<close>

lemma potential_bound:
  assumes "emission_potential p x y s" "s \<le> unat (supply_cap_sat p)"
  shows "x \<le> unat (supply_cap_sat p) + 99 * unat (initial_reward_sat p)"
    and "slew_pct p * x \<le> slew_pct p * unat (supply_cap_sat p) + (100 - slew_pct p) * unat (initial_reward_sat p)"
proof -
  let ?d = "slew_pct p" and ?c = "unat (supply_cap_sat p)" and ?r = "unat (initial_reward_sat p)"
  have d: "1 \<le> ?d" by (simp add: slew_pct_def)
  have "?d * x \<le> ?d * s + (100 - ?d) * ?r" using assms(1) by (simp add: emission_potential_def)
  also have "\<dots> \<le> ?d * ?c + (100 - ?d) * ?r" using assms(2) by simp
  finally show le: "?d * x \<le> ?d * ?c + (100 - ?d) * ?r" .
  have "100 - ?d \<le> ?d * 99" using d by (cases ?d) simp_all
  then have "(100 - ?d) * ?r \<le> ?d * 99 * ?r" by (rule mult_le_mono1)
  then have "?d * x \<le> ?d * ?c + ?d * 99 * ?r" by (rule order_trans [OF le add_left_mono])
  then have "?d * x \<le> ?d * (?c + 99 * ?r)" by (simp only: distrib_left mult.assoc)
  then show "x \<le> ?c + 99 * ?r" using d by simp
qed

definition chain_accounts :: "block list \<Rightarrow> account_id set" where
  "chain_accounts bs = (\<Union>b \<in> set bs. block_accounts b)"

lemma replay_supply:
  assumes K: "account_codec_ok (kx (nx N))" and mem0: "mem_inv mem0" "load_or_default (node_ops N) (nx N) mem0 = (\<lambda>_. default_account)"
    and p: "unat (supply_cap_sat p) + 99 * unat (initial_reward_sat p) < 2 ^ 128"
    and "chain_ok N st bs" "length bs \<le> 2 ^ 64" "finite A" "chain_accounts bs \<subseteq> A"
    and "replay N p (ns_genesis_time_ms st) bs bs mem0 0 None = Inr (s, m, r)"
  shows "mem_inv s \<and> total A (load_or_default (node_ops N) (nx N) s) = unat m \<and>
    emission_potential p (unat m) (prev_nat r) (unat (scheduled_supply_at (timestamp_ms (header (last bs)) - ns_genesis_time_ms st) p))"
  using assms(5-9)
proof (induction bs arbitrary: s m r rule: rev_induct)
  case (snoc b bs)
  let ?gt = "ns_genesis_time_ms st" and ?L = "load_or_default (node_ops N) (nx N)"
  let ?S = "\<lambda>c. unat (scheduled_supply_at (timestamp_ms (header c) - ?gt) p)"
  have len: "length bs < 2 ^ 64" using snoc.prems(2) by simp
  obtain s1 m1 r1 rw out where step: "replay N p ?gt bs bs mem0 0 None = Inr (s1, m1, r1)"
    "current_reward_with_height p ?gt (timestamp_ms (header b)) (replay_parent_ts ?gt (bs @ [b]) b) m1 (height (header b)) r1 = Some rw"
    "apply_block (node_ops N) (nx N) s1 b rw = (Inr out, s)" "m = sat_add m1 rw" "r = Some rw"
    using snoc.prems(5) unfolding replay_snoc [OF snoc.prems(1) len]
    by (auto split: sum.splits option.splits prod.splits)
  have "\<exists>sc. mem_inv s1 \<and> total A (?L s1) = unat m1 \<and> emission_potential p (unat m1) (prev_nat r1) sc \<and> sc \<le> ?S b"
  proof (cases "bs = []")
    case True
    then have "s1 = mem0" "m1 = 0" "r1 = None" using step(1) by simp_all
    then show ?thesis using mem0 by (intro exI [of _ 0]) (simp add: total_def default_account_def emission_potential_def prev_nat_def)
  next
    case False
    then have c: "chain_ok N st bs" "child_ok N st (last bs) b" using snoc.prems(1) by (simp_all add: chain_ok_snoc)
    have "?gt \<le> timestamp_ms (header (last bs))" using chain_times [OF c(1), of "last bs"] False by simp
    moreover have "timestamp_ms (header (last bs)) \<le> timestamp_ms (header b)" using c(2) by (simp add: child_ok_def)
    ultimately have "timestamp_ms (header (last bs)) - ?gt \<le> timestamp_ms (header b) - ?gt"
      by (simp add: word_le_nat_alt unat_sub_le)
    then have "?S (last bs) \<le> ?S b" by (rule scheduled_supply_mono)
    moreover have "chain_accounts bs \<subseteq> A" using snoc.prems(4) by (auto simp: chain_accounts_def)
    ultimately show ?thesis using snoc.IH [OF c(1) _ snoc.prems(3) _ step(1)] len by (intro exI [of _ "?S (last bs)"]) simp
  qed
  then obtain sc where h: "mem_inv s1" "total A (?L s1) = unat m1" "emission_potential p (unat m1) (prev_nat r1) sc" "sc \<le> ?S b"
    by blast
  have pot: "emission_potential p (unat m1 + unat rw) (unat rw) (?S b)"
    by (rule emission_potential_step [OF h(3) step(2) h(4)])
  have le: "unat m1 + unat rw < 2 ^ 128"
    using potential_bound(1) [OF pot scheduled_supply_cap] p by linarith
  then have m: "unat m = unat m1 + unat rw" by (simp add: step(4) unat_sat_add)
  have "mem_inv s" using mem.apply_block_inv [OF h(1), of "node_hash N" "nx N" b rw] step(3) by simp
  moreover have "total A (?L s) = total A (?L s1) + unat rw"
    by (rule mem.apply_block_conserves [OF K h(1) step(3) snoc.prems(3)])
      (use snoc.prems(4) h(2) le in \<open>auto simp: chain_accounts_def\<close>)
  ultimately show ?case using pot h(2) m step(5) by (simp add: prev_nat_def)
qed (simp add: chain_ok_def)

end
