(* ===== verification/Rpc.thy ===== *)
theory Rpc
  imports Node_Chain
begin

text \<open>
  The JSON-RPC interface of \<open>crates/node/src/rpc.rs\<close>. HTTP, JSON parsing and logging are
  third-party code; a request arrives here as a value of \<open>rpc_req\<close>, with \<open>BadParams\<close> for
  parameters that did not parse, and a response is a status code with its result. Hex and CBOR
  conversions are modelled with their error branches.
\<close>

section \<open>Headers as JSON\<close>

record header_json =
  hj_version :: u32
  hj_height :: u64
  hj_parent :: string
  hj_timestamp_ms :: u64
  hj_bits :: u32
  hj_nonce :: u64
  hj_tx_root :: string
  hj_witness_root :: string
  hj_state_root :: string
  hj_reflect_root :: string
  hj_coinbase :: string
  hj_sig_algo :: u8
  hj_hash_algo :: u8

definition header_to_json :: "node_ext \<Rightarrow> block_header \<Rightarrow> header_json" where
  "header_to_json N h =
     \<lparr> hj_version = version h, hj_height = height h, hj_parent = hex_encode N (parent h),
       hj_timestamp_ms = timestamp_ms h, hj_bits = bits h, hj_nonce = nonce h,
       hj_tx_root = hex_encode N (hdr_tx_root h), hj_witness_root = hex_encode N (hdr_witness_root h),
       hj_state_root = hex_encode N (state_root h), hj_reflect_root = hex_encode N (reflect_root h),
       hj_coinbase = hex_encode N (coinbase h), hj_sig_algo = hdr_sig_algo h, hj_hash_algo = hdr_hash_algo h \<rparr>"

definition hex32 :: "node_ext \<Rightarrow> string \<Rightarrow> node_error + bytes" where
  "hex32 N s =
     (case hex_decode N s of
        Inl e \<Rightarrow> Inl (BadHex e)
      | Inr v \<Rightarrow> if length v \<noteq> 32 then Inl (BadLength 32 (length v)) else Inr v)"

definition header_from_json :: "node_ext \<Rightarrow> header_json \<Rightarrow> node_error + block_header" where
  "header_from_json N j =
     bind_sum (hex32 N (hj_parent j)) (\<lambda>p.
     bind_sum (hex32 N (hj_tx_root j)) (\<lambda>tr.
     bind_sum (hex32 N (hj_witness_root j)) (\<lambda>wr.
     bind_sum (hex32 N (hj_state_root j)) (\<lambda>sr.
     bind_sum (hex32 N (hj_reflect_root j)) (\<lambda>rr.
     bind_sum (hex32 N (hj_coinbase j)) (\<lambda>cb.
       Inr \<lparr> version = hj_version j, height = hj_height j, parent = p, timestamp_ms = hj_timestamp_ms j,
             bits = hj_bits j, nonce = hj_nonce j, hdr_tx_root = tr, hdr_witness_root = wr, state_root = sr,
             reflect_root = rr, coinbase = cb, hdr_sig_algo = hj_sig_algo j, hdr_hash_algo = hj_hash_algo j \<rparr>))))))"

section \<open>Blocks\<close>

record template_resp =
  tr_header :: header_json
  tr_target :: string
  tr_txs_cbor_hex :: "string list"
  tr_witnesses_cbor_hex :: "string list"

record submit_req =
  sr_header :: header_json
  sr_txs_cbor_hex :: "string list"
  sr_witnesses_cbor_hex :: "string list"

fun encode_items :: "node_ext \<Rightarrow> 'a codec \<Rightarrow> 'a list \<Rightarrow> node_error + string list" where
  "encode_items N c [] = Inr []"
| "encode_items N c (x # xs) =
     (case enc c x of
        None \<Rightarrow> Inl EncodeFailed
      | Some buf \<Rightarrow> bind_sum (encode_items N c xs) (\<lambda>ss. Inr (hex_encode N buf # ss)))"

fun decode_items :: "node_ext \<Rightarrow> 'a codec \<Rightarrow> string list \<Rightarrow> node_error + 'a list" where
  "decode_items N c [] = Inr []"
| "decode_items N c (s # ss) =
     (case hex_decode N s of
        Inl e \<Rightarrow> Inl (BadHex e)
      | Inr b \<Rightarrow>
          (case dec c b of
             Inl e \<Rightarrow> Inl (BadCbor e)
           | Inr x \<Rightarrow> bind_sum (decode_items N c ss) (\<lambda>xs. Inr (x # xs))))"

definition template_header :: "node_ext \<Rightarrow> u64 \<Rightarrow> node_state \<Rightarrow> block_header" where
  "template_header N now st =
     (let (parent_hash, parent_height) =
            (case cs_tip (ns_store st) of
               Some b \<Rightarrow> (hash_header (node_hash N) (header b), height (header b))
             | None \<Rightarrow> (replicate 32 0, 0)) in
      template_from_parent_with_body (node_hash N) parent_hash parent_height (ns_bits st) (ns_coinbase st)
        (ns_sig_algo st) (ns_hash_algo st) now (pool_body N st))"

definition rpc_template :: "node_ext \<Rightarrow> u64 \<Rightarrow> node_state \<Rightarrow> node_error + template_resp" where
  "rpc_template N now st =
     bind_sum (encode_items N (tx_c N) (txs (pool_body N st))) (\<lambda>tx_hex.
     bind_sum (encode_items N (wit_c N) (witnesses (pool_body N st))) (\<lambda>wit_hex.
       Inr \<lparr> tr_header = header_to_json N (template_header N now st),
             tr_target = hex_encode N (target_from_bits (ns_bits st)),
             tr_txs_cbor_hex = tx_hex, tr_witnesses_cbor_hex = wit_hex \<rparr>))"

definition decode_submit :: "node_ext \<Rightarrow> submit_req \<Rightarrow> node_error + block" where
  "decode_submit N req =
     bind_sum (header_from_json N (sr_header req)) (\<lambda>hdr.
       if length (sr_txs_cbor_hex req) \<noteq> length (sr_witnesses_cbor_hex req)
       then Inl (LengthMismatch (length (sr_txs_cbor_hex req)) (length (sr_witnesses_cbor_hex req)))
       else
         bind_sum (decode_items N (tx_c N) (sr_txs_cbor_hex req)) (\<lambda>ts.
         bind_sum (decode_items N (wit_c N) (sr_witnesses_cbor_hex req)) (\<lambda>ws.
           Inr \<lparr> header = hdr, body = \<lparr> txs = ts, witnesses = ws \<rparr> \<rparr>)))"

definition rpc_submit :: "node_ext \<Rightarrow> u64 \<Rightarrow> node_state \<Rightarrow> submit_req \<Rightarrow> (node_error + (u64 \<times> string)) \<times> node_state" where
  "rpc_submit N now st req =
     (case decode_submit N req of
        Inl e \<Rightarrow> (Inl e, st)
      | Inr blk \<Rightarrow>
          (case try_apply_block N now st blk of
             (Inl e, st') \<Rightarrow> (Inl e, st')
           | (Inr u, st') \<Rightarrow>
               (Inr (height (header blk), hex_encode N (hash_header (node_hash N) (header blk))), st')))"

section \<open>Transactions\<close>

definition pool_error :: "mempool_error \<Rightarrow> string" where
  "pool_error e =
     (case e of
        PoolWitnessMismatch \<Rightarrow> ''witness hash does not match TxBody.witness_hash''
      | PoolDuplicate \<Rightarrow> ''transaction already in mempool'')"

definition pool_add :: "node_ext \<Rightarrow> u64 \<Rightarrow> node_state \<Rightarrow> tx_body \<Rightarrow> witness \<Rightarrow> (node_error + string) \<times> node_state" where
  "pool_add N now st bd w =
     (case mempool_submit (node_hash N) now (ns_mempool st) bd w of
        (Inl e, mp) \<Rightarrow> (Inl (PoolRejected (pool_error e)), st\<lparr>ns_mempool := mp\<rparr>)
      | (Inr h, mp) \<Rightarrow> (Inr (hex_encode N h), st\<lparr>ns_mempool := mp\<rparr>))"

definition rpc_submit_tx :: "node_ext \<Rightarrow> u64 \<Rightarrow> node_state \<Rightarrow> string \<Rightarrow> string \<Rightarrow> (node_error + string) \<times> node_state" where
  "rpc_submit_tx N now st tx_hex wit_hex =
     (case bind_sum (map_sum BadHex id (hex_decode N tx_hex)) (\<lambda>tb.
           bind_sum (map_sum BadHex id (hex_decode N wit_hex)) (\<lambda>wb.
           bind_sum (map_sum BadCbor id (dec (tx_c N) tb)) (\<lambda>bd.
           bind_sum (map_sum BadCbor id (dec (wit_c N) wb)) (\<lambda>w. Inr (bd, w))))) of
        Inl e \<Rightarrow> (Inl e, st)
      | Inr (bd, w) \<Rightarrow> pool_add N now st bd w)"

definition parse_address :: "node_ext \<Rightarrow> string \<Rightarrow> node_error + account_id" where
  "parse_address N s = map_sum BadAddress id (from_bech32 (node_hash N) s)"

record transfer_req =
  tq_from_address :: string
  tq_to_address :: string
  tq_amount_sat :: u128
  tq_fee_sat :: u64
  tq_nonce :: u64
  tq_pubkey_hex :: string
  tq_sig_hex :: string

definition transfer_tx :: "transfer_req \<Rightarrow> account_id \<Rightarrow> account_id \<Rightarrow> tx_body" where
  "transfer_tx req from to =
     \<lparr> tx_nonce = tq_nonce req, from_account = from, call = Transfer to (tq_amount_sat req),
       fee_sat = tq_fee_sat req, gas_limit = 21000, witness_hash = replicate 32 0 \<rparr>"

definition build_transfer :: "node_ext \<Rightarrow> node_state \<Rightarrow> transfer_req \<Rightarrow> node_error + (tx_body \<times> witness)" where
  "build_transfer N st req =
     bind_sum (parse_address N (tq_from_address req)) (\<lambda>from.
     bind_sum (parse_address N (tq_to_address req)) (\<lambda>to.
     bind_sum (map_sum BadHex id (hex_decode N (tq_pubkey_hex req))) (\<lambda>pk.
     bind_sum (map_sum BadHex id (hex_decode N (tq_sig_hex req))) (\<lambda>sg.
       let derived = from_pubkey (node_hash N) pk; tx = transfer_tx req from to in
       if derived \<noteq> from then Inl (AddressMismatch from derived)
       else
         (case verify (cx (nx N)) 3 pk sg (signing_hash (node_hash N) tx) of
            Inl e \<Rightarrow> Inl (BadTransferSignature (show_crypto_error e))
          | Inr u \<Rightarrow>
              let acct = load_or_default (node_ops N) (nx N) (ns_state st) from;
                  w = \<lparr> wit_sig_algo = 3, wit_sig = sg,
                        wit_pubkey = (if pubkey acct = [] then Inline pk else Known from) \<rparr> in
              Inr (tx\<lparr>witness_hash := witness_digest (node_hash N) w\<rparr>, w))))))"

definition rpc_submit_transfer :: "node_ext \<Rightarrow> u64 \<Rightarrow> node_state \<Rightarrow> transfer_req \<Rightarrow> (node_error + string) \<times> node_state" where
  "rpc_submit_transfer N now st req =
     (case build_transfer N st req of Inl e \<Rightarrow> (Inl e, st) | Inr (tx, w) \<Rightarrow> pool_add N now st tx w)"

text \<open>A transfer the node builds is the one the request describes, signed by the key of its sender.\<close>

lemma build_transfer_Inr:
  assumes "build_transfer N st req = Inr (tx, w)"
  obtains src dst pk sg where "from_bech32 (node_hash N) (tq_from_address req) = Inr src"
    "from_bech32 (node_hash N) (tq_to_address req) = Inr dst"
    "hex_decode N (tq_pubkey_hex req) = Inr pk" "hex_decode N (tq_sig_hex req) = Inr sg"
    "from_pubkey (node_hash N) pk = src" "verify (cx (nx N)) 3 pk sg (signing_hash (node_hash N) tx) = Inr ()"
    "w = \<lparr> wit_sig_algo = 3, wit_sig = sg,
       wit_pubkey = (if pubkey (load_or_default (node_ops N) (nx N) (ns_state st) src) = [] then Inline pk else Known src) \<rparr>"
    "tx = (transfer_tx req src dst)\<lparr>witness_hash := witness_digest (node_hash N) w\<rparr>"
proof -
  have "signing_hash H (t\<lparr>witness_hash := x\<rparr>) = signing_hash H t" for H t x
    by (simp add: signing_hash_def signing_bytes_def)
  then show thesis
    using assms that
    by (auto simp: build_transfer_def bind_sum_def parse_address_def Let_def map_sum_def split: sum.splits if_splits)
qed

lemma build_transfer_valid:
  assumes b: "build_transfer N st req = Inr (tx, w)" and pk: "hex_decode N (tq_pubkey_hex req) = Inr pk"
    and acct: "acct = load_or_default (node_ops N) (nx N) (ns_state st) (from_account tx)"
    and ok: "tq_nonce req = acct_nonce acct" "unat (tq_amount_sat req) + unat (tq_fee_sat req) \<le> unat (balance acct)"
      "pubkey acct = [] \<or> pubkey acct = pk \<and> acct_sig_algo acct = 3"
  shows "\<exists>t. validate_tx (node_ops N) (nx N) i (ns_state st) tx w = Inr t"
proof (rule build_transfer_Inr [OF b])
  fix src dst pk' sg
  assume h: "hex_decode N (tq_pubkey_hex req) = Inr pk'" "from_pubkey (node_hash N) pk' = src"
    "verify (cx (nx N)) 3 pk' sg (signing_hash (node_hash N) tx) = Inr ()"
    "w = \<lparr> wit_sig_algo = 3, wit_sig = sg,
       wit_pubkey = (if pubkey (load_or_default (node_ops N) (nx N) (ns_state st) src) = [] then Inline pk' else Known src) \<rparr>"
    "tx = (transfer_tx req src dst)\<lparr>witness_hash := witness_digest (node_hash N) w\<rparr>"
  have f: "from_account tx = src" "call tx = Transfer dst (tq_amount_sat req)" "tx_nonce tx = acct_nonce acct" "fee_sat tx = tq_fee_sat req"
    using ok(1) by (simp_all add: h(5) transfer_tx_def)
  note acct = acct [unfolded f(1)]
  have "load (node_ops N) (nx N) (ns_state st) src = Some acct" if "pubkey acct \<noteq> []"
    using that by (auto simp: acct load_or_default_def default_account_def split: option.splits)
  then have k: "witness_pubkey (node_ops N) (nx N) (ns_state st) i tx w = Inr pk'"
    using ok(3) h(1,2) pk by (auto simp: witness_pubkey_def h(4) acct [symmetric] f)
  obtain q where "checked_add (tq_amount_sat req) (ucast (tq_fee_sat req)) = Some q" "\<not> balance acct < q"
    using checked_add_le [OF ok(2)] by blast
  then show ?thesis
    using h(3) k by (simp add: validate_tx_def f acct [symmetric] Let_def h(4))
qed

section \<open>Queries\<close>

record balance_resp =
  br_address :: string
  br_balance_sat :: u128
  br_nonce :: u64

record account_resp =
  ac_address :: string
  ac_balance_sat :: u128
  ac_nonce :: u64
  ac_has_pubkey :: bool
  ac_resp_sig_algo :: u8

definition rpc_get_balance :: "node_ext \<Rightarrow> node_state \<Rightarrow> string \<Rightarrow> node_error + balance_resp" where
  "rpc_get_balance N st address =
     bind_sum (parse_address N address) (\<lambda>i.
       let acct = load_or_default (node_ops N) (nx N) (ns_state st) i in
       Inr \<lparr> br_address = address, br_balance_sat = balance acct, br_nonce = acct_nonce acct \<rparr>)"

definition rpc_get_account :: "node_ext \<Rightarrow> node_state \<Rightarrow> string \<Rightarrow> node_error + account_resp" where
  "rpc_get_account N st address =
     bind_sum (parse_address N address) (\<lambda>i.
       let acct = load_or_default (node_ops N) (nx N) (ns_state st) i in
       Inr \<lparr> ac_address = address, ac_balance_sat = balance acct, ac_nonce = acct_nonce acct,
             ac_has_pubkey = (pubkey acct \<noteq> []), ac_resp_sig_algo = acct_sig_algo acct \<rparr>)"

record block_summary =
  bs_height :: u64
  bs_hash :: string
  bs_timestamp_ms :: u64
  bs_nonce :: u64
  bs_tx_count :: nat

definition summarise :: "node_ext \<Rightarrow> block \<Rightarrow> block_summary" where
  "summarise N b =
     \<lparr> bs_height = height (header b), bs_hash = hex_encode N (hash_header (node_hash N) (header b)),
       bs_timestamp_ms = timestamp_ms (header b), bs_nonce = nonce (header b), bs_tx_count = length (txs (body b)) \<rparr>"

definition rpc_list_blocks :: "node_ext \<Rightarrow> node_state \<Rightarrow> nat \<Rightarrow> node_error + block_summary list" where
  "rpc_list_blocks N st limit =
     map_sum StoreFailed (map (summarise N)) (cs_recent (block_c N) (ns_store st) limit)"

record tx_summary =
  ts_hash :: string
  ts_from :: string
  ts_to :: string
  ts_amount_sat :: u128
  ts_fee_sat :: u64
  ts_nonce :: u64

definition summarise_tx :: "node_ext \<Rightarrow> tx_body \<Rightarrow> tx_summary" where
  "summarise_tx N tx =
     (let (to_addr, amount) =
            (case call tx of Transfer to amount \<Rightarrow> (show_account (nx N) to, amount) | _ \<Rightarrow> (''(non-transfer)'', 0)) in
      \<lparr> ts_hash = hex_encode N (body_hash (node_hash N) tx), ts_from = show_account (nx N) (from_account tx),
        ts_to = to_addr, ts_amount_sat = amount, ts_fee_sat = fee_sat tx, ts_nonce = tx_nonce tx \<rparr>)"

record block_detail =
  bd_hash :: string
  bd_tx_count :: nat
  bd_header :: header_json
  bd_txs :: "tx_summary list"

definition rpc_get_block :: "node_ext \<Rightarrow> node_state \<Rightarrow> u64 \<Rightarrow> node_error + block_detail option" where
  "rpc_get_block N st h =
     map_sum StoreFailed (map_option (\<lambda>b.
       \<lparr> bd_hash = hex_encode N (hash_header (node_hash N) (header b)), bd_tx_count = length (txs (body b)),
         bd_header = header_to_json N (header b), bd_txs = map (summarise_tx N) (txs (body b)) \<rparr>))
       (cs_get_by_height (block_c N) (ns_store st) h)"

record info_resp =
  ir_chain_id :: string
  ir_height :: u64
  ir_tip_hash :: string
  ir_bits :: u32
  ir_target :: string
  ir_sig_algo :: u8
  ir_hash_algo :: u8
  ir_genesis_time_ms :: u64
  ir_genesis_offset_ms :: "64 word"
  ir_mempool_size :: nat
  ir_block_reward_sat :: u128

definition rpc_info :: "node_ext \<Rightarrow> u64 \<Rightarrow> node_state \<Rightarrow> info_resp" where
  "rpc_info N now st =
     (let (h, tip_hash) =
            (case cs_tip (ns_store st) of
               Some b \<Rightarrow> (height (header b), hex_encode N (hash_header (node_hash N) (header b)))
             | None \<Rightarrow> (0, hex_encode N (replicate 32 0))) in
      \<lparr> ir_chain_id = ns_chain_id st, ir_height = h, ir_tip_hash = tip_hash, ir_bits = ns_bits st,
        ir_target = hex_encode N (target_from_bits (ns_bits st)), ir_sig_algo = ns_sig_algo st,
        ir_hash_algo = ns_hash_algo st, ir_genesis_time_ms = ns_genesis_time_ms st,
        ir_genesis_offset_ms = now - ns_genesis_time_ms st, ir_mempool_size = mempool_len (ns_mempool st),
        ir_block_reward_sat = ns_block_reward_sat st \<rparr>)"

section \<open>Emission series\<close>

record emission_req =
  er_window_seconds :: u64
  er_points :: nat

record emission_point =
  ep_height :: u64
  ep_timestamp_ms :: u64
  ep_minted_sat :: u128

record emission_resp =
  es_samples :: "emission_point list"
  es_genesis_time_ms :: u64
  es_block_reward_sat :: u128
  es_target_block_time_ms :: u64
  es_halving_interval_base :: u64

definition emission_reply :: "node_state \<Rightarrow> emission_point list \<Rightarrow> emission_resp" where
  "emission_reply st samples =
     \<lparr> es_samples = samples, es_genesis_time_ms = ns_genesis_time_ms st, es_block_reward_sat = ns_block_reward_sat st,
       es_target_block_time_ms = ns_target_block_time_ms st, es_halving_interval_base = ns_halving_interval_base st \<rparr>"

text \<open>The loop over neighbouring blocks: issued so far, last reward, issued amount by height.\<close>

type_synonym emission_acc = "u128 \<times> u128 option \<times> (u64 \<rightharpoonup> u128)"

definition emission_step :: "emission_params \<Rightarrow> u64 \<Rightarrow> block \<times> block \<Rightarrow> emission_acc option \<Rightarrow> emission_acc option" where
  "emission_step p gt ab acc =
     (case acc of
        None \<Rightarrow> None
      | Some (running, prev_reward, cum) \<Rightarrow>
          (case current_reward_with_height p gt (timestamp_ms (header (snd ab))) (timestamp_ms (header (fst ab))) running
                  (height (header (snd ab))) prev_reward of
             None \<Rightarrow> None
           | Some reward \<Rightarrow>
               let running = sat_add running reward in
               Some (running, Some reward, cum(height (header (snd ab)) \<mapsto> running))))"

definition emission_loop :: "emission_params \<Rightarrow> u64 \<Rightarrow> block list \<Rightarrow> emission_acc option" where
  "emission_loop p gt bs = fold (emission_step p gt) (zip bs (tl bs)) (Some (0, None, [0 \<mapsto> 0]))"

definition emission_sample :: "(u64 \<rightharpoonup> u128) \<Rightarrow> block \<Rightarrow> emission_point" where
  "emission_sample cum b =
     \<lparr> ep_height = height (header b), ep_timestamp_ms = timestamp_ms (header b),
       ep_minted_sat = (case cum (height (header b)) of None \<Rightarrow> 0 | Some m \<Rightarrow> m) \<rparr>"

definition emission_samples :: "(u64 \<rightharpoonup> u128) \<Rightarrow> nat \<Rightarrow> block list \<Rightarrow> emission_point list" where
  "emission_samples cum points win =
     (let stride = max (length win div points) 1;
          samples = map (\<lambda>i. emission_sample cum (win ! i)) (filter (\<lambda>i. i mod stride = 0) [0..<length win]) in
      if samples = [] \<or> ep_height (last samples) \<noteq> height (header (last win))
      then samples @ [emission_sample cum (last win)] else samples)"

definition rpc_emission_series :: "node_ext \<Rightarrow> node_state \<Rightarrow> emission_req \<Rightarrow> node_error + emission_resp" where
  "rpc_emission_series N st req =
     (let points = min (max (er_points req) 2) 500 in
      case cs_load_all (block_c N) (ns_store st) of
        Inl e \<Rightarrow> Inl (StoreFailed e)
      | Inr bs \<Rightarrow>
          if bs = [] then Inr (emission_reply st [])
          else
            let tip_ts = timestamp_ms (header (last bs));
                cutoff_ms = sat_sub tip_ts (sat_mul (er_window_seconds req) 1000);
                win = filter (\<lambda>b. timestamp_ms (header b) \<ge> cutoff_ms) bs in
            if win = [] then Inr (emission_reply st [])
            else
              (case emission_loop (ns_emission st) (ns_genesis_time_ms st) bs of
                 None \<Rightarrow> Inl Panicked
               | Some (running, prev_reward, cum) \<Rightarrow> Inr (emission_reply st (emission_samples cum points win))))"

section \<open>Dispatch\<close>

datatype rpc_req =
    GetInfo
  | GetTemplate
  | SubmitBlock submit_req
  | ListBlocks nat
  | GetBlock u64
  | SubmitTx string string
  | SubmitTransfer transfer_req
  | GetBalance string
  | GetAccount string
  | GetMempool
  | EmissionSeries emission_req
  | BadParams string
  | UnknownMethod string

datatype rpc_result =
    InfoR info_resp
  | TemplateR template_resp
  | SubmitR u64 string
  | BlocksR "block_summary list"
  | BlockR block_detail
  | TxR string
  | BalanceR balance_resp
  | AccountR account_resp
  | MempoolR nat "string list"
  | EmissionR emission_resp
  | ErrorR node_error
  | MessageR string

definition reply :: "nat \<Rightarrow> ('a \<Rightarrow> rpc_result) \<Rightarrow> node_error + 'a \<Rightarrow> nat \<times> rpc_result" where
  "reply code f r = (case r of Inl e \<Rightarrow> (code, ErrorR e) | Inr x \<Rightarrow> (200, f x))"

fun rpc_dispatch :: "node_ext \<Rightarrow> u64 \<Rightarrow> rpc_req \<Rightarrow> node_state \<Rightarrow> (nat \<times> rpc_result) \<times> node_state" where
  "rpc_dispatch N now GetInfo st = ((200, InfoR (rpc_info N now st)), st)"
| "rpc_dispatch N now GetTemplate st = (reply 500 TemplateR (rpc_template N now st), st)"
| "rpc_dispatch N now (SubmitBlock req) st =
     (let (r, st) = rpc_submit N now st req in (reply 400 (\<lambda>(h, s). SubmitR h s) r, st))"
| "rpc_dispatch N now (ListBlocks limit) st = (reply 500 BlocksR (rpc_list_blocks N st (min limit 500)), st)"
| "rpc_dispatch N now (GetBlock h) st =
     (case rpc_get_block N st h of
        Inr (Some d) \<Rightarrow> ((200, BlockR d), st)
      | Inr None \<Rightarrow> ((404, MessageR ''block not found''), st)
      | Inl e \<Rightarrow> ((500, ErrorR e), st))"
| "rpc_dispatch N now (SubmitTx t w) st =
     (let (r, st) = rpc_submit_tx N now st t w in (reply 400 TxR r, st))"
| "rpc_dispatch N now (SubmitTransfer req) st =
     (let (r, st) = rpc_submit_transfer N now st req in (reply 400 TxR r, st))"
| "rpc_dispatch N now (GetBalance a) st = (reply 400 BalanceR (rpc_get_balance N st a), st)"
| "rpc_dispatch N now (GetAccount a) st = (reply 400 AccountR (rpc_get_account N st a), st)"
| "rpc_dispatch N now GetMempool st =
     ((200, MempoolR (mempool_len (ns_mempool st)) (pending_hashes (hex_encode N) (ns_mempool st))), st)"
| "rpc_dispatch N now (EmissionSeries req) st = (reply 500 EmissionR (rpc_emission_series N st req), st)"
| "rpc_dispatch N now (BadParams e) st = ((400, MessageR (''bad params: '' @ e)), st)"
| "rpc_dispatch N now (UnknownMethod m) st = ((400, MessageR (''unknown method: '' @ m)), st)"

section \<open>Round trips\<close>

lemma hex32_encode: "hex_ok N \<Longrightarrow> length b = 32 \<Longrightarrow> hex32 N (hex_encode N b) = Inr b"
  by (simp add: hex32_def hex_ok_def)

lemma header_json_roundtrip:
  assumes "hex_ok N" "header_wf h"
  shows "header_from_json N (header_to_json N h) = Inr h"
  using assms by (simp add: header_from_json_def header_to_json_def hex32_encode header_wf_def bind_sum_def)

lemma decode_encode_items:
  assumes "hex_ok N" "codec_ok c"
  shows "\<exists>ss. encode_items N c xs = Inr ss \<and> decode_items N c ss = Inr xs \<and> length ss = length xs"
proof (induction xs)
  case (Cons x xs)
  then obtain ss where ss: "encode_items N c xs = Inr ss" "decode_items N c ss = Inr xs" "length ss = length xs" by blast
  obtain b where "enc c x = Some b" "dec c b = Inr x" using assms(2) by (auto simp: codec_ok_def)
  then show ?case using ss assms(1) by (simp add: bind_sum_def hex_ok_def)
qed simp

section \<open>Requests are steps\<close>

lemma pool_add_step: "node_step N st (snd (pool_add N now st bd w))"
proof -
  have "snd (pool_add N now st bd w) = st\<lparr>ns_mempool := snd (mempool_submit (node_hash N) now (ns_mempool st) bd w)\<rparr>"
    by (cases "mempool_submit (node_hash N) now (ns_mempool st) bd w"; cases "fst (mempool_submit (node_hash N) now (ns_mempool st) bd w)")
      (simp_all add: pool_add_def)
  then show ?thesis using step_tx by metis
qed

definition req_fits :: "node_ext \<Rightarrow> rpc_req \<Rightarrow> bool" where
  "req_fits N req \<longleftrightarrow>
     (case req of SubmitBlock r \<Rightarrow> (case decode_submit N r of Inl e \<Rightarrow> True | Inr blk \<Rightarrow> fits_log (block_c N) blk) | _ \<Rightarrow> True)"

lemma dispatch_step:
  assumes "req_fits N req"
  shows "snd (rpc_dispatch N now req st) = st \<or> node_step N st (snd (rpc_dispatch N now req st))"
proof (cases req)
  case (SubmitBlock r)
  show ?thesis
  proof (cases "decode_submit N r")
    case (Inl e)
    then show ?thesis by (simp add: SubmitBlock rpc_submit_def)
  next
    case (Inr blk)
    then have "fits_log (block_c N) blk" using assms by (simp add: SubmitBlock req_fits_def)
    moreover have "snd (rpc_dispatch N now req st) = snd (try_apply_block N now st blk)"
      by (simp add: SubmitBlock rpc_submit_def Inr split_beta split: sum.split)
    ultimately show ?thesis using step_block by metis
  qed
next
  case (SubmitTx t w)
  then show ?thesis using pool_add_step by (auto simp: rpc_submit_tx_def split_beta split: sum.split)
next
  case (SubmitTransfer r)
  then show ?thesis using pool_add_step by (auto simp: rpc_submit_transfer_def split_beta split: sum.split)
qed (simp_all split: sum.split option.split)

end
