(* ===== verification/Node_Live.thy ===== *)
theory Node_Live
  imports Node_Replay Rpc
begin

text \<open>
  What a miner and an observer see of a node: the self-miner's blocks pass the checks and, with
  an empty pool, are accepted; a pending transaction that cannot be applied stops every block
  built from the pool; the template of the RPC has stale bits once the difficulty has moved; and
  the emission series ends with the issued amount of the node.
\<close>

section \<open>Blocks the node refuses without a trace\<close>

lemma validate_all_bad:
  assumes "tx \<in> set ts" "\<forall>i w. \<exists>e. validate_tx ops X i s tx w = Inl e"
  shows "\<exists>e. validate_all ops X s ws i ts fees = Inl e"
  using assms(1)
proof (induction ts arbitrary: i fees)
  case (Cons t ts)
  show ?case
  proof (cases "tx = t")
    case True
    then obtain e where "validate_tx ops X i s t (ws ! i) = Inl e" using assms(2) by blast
    then show ?thesis by simp
  next
    case False
    then have "\<exists>e. validate_all ops X s ws (Suc i) ts fees' = Inl e" for fees' using Cons by simp
    then show ?thesis by (auto split: sum.split option.split) (metis sum.distinct(1))+
  qed
qed simp

lemma invalid_body_refused:
  assumes "validate_all (node_ops N) (nx N) (ns_state st) (witnesses (body blk)) 0 (txs (body blk)) 0 = Inl err"
  shows "\<exists>e. try_apply_block N now st blk = (Inl e, st)"
  using assms by (auto simp: try_apply_block_def apply_block_def split: sum.split option.split)

lemma unsupported_tx_bad: "call_target (from_account tx) (call tx) = None \<Longrightarrow> validate_tx ops X i s tx w = Inl (UnsupportedCall i)"
  by (simp add: validate_tx_def)

lemma pool_body_txs:
  assumes "t \<in> set (map snd (pool (ns_mempool st)))" "mempool_len (ns_mempool st) \<le> 256"
  shows "ptx_body t \<in> set (txs (pool_body N st))"
proof -
  have "t \<in> set (pull_for_block (node_hash N) (ns_mempool st) 256)"
    using assms by (simp add: pull_for_block_def mempool_len_def)
  then show ?thesis by (simp add: pool_body_def Let_def)
qed

lemma wrong_bits_refused:
  assumes "cs_tip (ns_store st) = Some t" "parent (header blk) = hash_header (node_hash N) (header t)"
    "height (header blk) = height (header t) + 1"
    "expected_bits st (bits (header t)) (height (header t)) (timestamp_ms (header t)) (timestamp_ms (header blk)) = Some eb"
    "bits (header blk) \<noteq> eb" "ns_genesis_time_ms st \<le> now"
  shows "try_apply_block N now st blk =
    (Inl (WrongBits (bits (header blk)) eb (bits (header t)) (height (header t)) (timestamp_ms (header t))), st)"
  using assms by (simp add: try_apply_block_def check_block_def tip_context_def Let_def not_less)

section \<open>The self-miner\<close>

definition with_nonce :: "block \<Rightarrow> u64 \<Rightarrow> block" where
  "with_nonce blk n = blk\<lparr>header := (header blk)\<lparr>nonce := n\<rparr>\<rparr>"

lemma candidate_form:
  assumes "miner_candidate N now ts st = Some (Inr blk)"
  obtains tip where "cs_tip (ns_store st) = Some tip" "ns_genesis_time_ms st \<le> now"
    "expected_bits st (bits (header tip)) (height (header tip)) (timestamp_ms (header tip)) ts = Some (bits (header blk))"
    "body blk = pool_body N st"
    "header blk = template_from_parent_with_body (node_hash N) (hash_header (node_hash N) (header tip)) (height (header tip))
       (bits (header blk)) (ns_coinbase st) (ns_sig_algo st) (ns_hash_algo st) ts (pool_body N st)"
  using assms
  by (auto simp: miner_candidate_def Let_def template_from_parent_with_body_def not_less split: if_splits option.splits)

lemma candidate_fields:
  assumes "miner_candidate N now ts st = Some (Inr blk)"
  shows "body (with_nonce blk n) = pool_body N st \<and> timestamp_ms (header (with_nonce blk n)) = ts"
  using assms
  by (auto simp: miner_candidate_def Let_def template_from_parent_with_body_def with_nonce_def split: if_splits option.splits)

lemma candidate_checks:
  assumes c: "miner_candidate N now ts st = Some (Inr blk)"
    and t: "cs_tip (ns_store st) = Some tip" "timestamp_ms (header tip) \<le> ts"
    and now': "ns_genesis_time_ms st \<le> now'" "ts \<le> now' + FUTURE_TIME_TOLERANCE_MS"
    and pow: "meets_target (hash_header (node_hash N) (header (with_nonce blk n))) (target_from_bits (bits (header blk)))"
  shows "check_block N now' st (with_nonce blk n) = Inr ()"
proof (rule candidate_form [OF c])
  fix tip'
  assume a: "cs_tip (ns_store st) = Some tip'"
    "expected_bits st (bits (header tip')) (height (header tip')) (timestamp_ms (header tip')) ts = Some (bits (header blk))"
    "body blk = pool_body N st"
    and h: "header blk = template_from_parent_with_body (node_hash N) (hash_header (node_hash N) (header tip')) (height (header tip'))
       (bits (header blk)) (ns_coinbase st) (ns_sig_algo st) (ns_hash_algo st) ts (pool_body N st)"
  have f: "parent (header blk) = hash_header (node_hash N) (header tip')" "height (header blk) = height (header tip') + 1"
    "timestamp_ms (header blk) = ts" "hdr_tx_root (header blk) = tx_root (node_hash N) (pool_body N st)"
    "hdr_witness_root (header blk) = witness_root (node_hash N) (pool_body N st)"
    by (subst h; simp add: template_from_parent_with_body_def)+
  have "tip' = tip" using a(1) t(1) by simp
  with a f t now' pow show ?thesis
    by (simp add: check_block_def tip_context_def with_nonce_def Let_def not_less)
qed

lemma empty_block_applies:
  assumes "txs (body blk) = []" "codec_ok (reflection_c (kx X))"
    and "unat (balance (load_or_default ops X s (miner_of blk))) + unat reward < 2 ^ 128"
  shows "\<exists>out s'. apply_block ops X s blk reward = (Inr out, s')"
proof -
  have "checked_add reward (0 :: u128) = Some reward" using assms(3) by (simp add: checked_add_def)
  moreover have "\<exists>b. checked_add (balance (load_or_default ops X s (miner_of blk))) reward = Some b"
    using assms(3) by (simp add: checked_add_def)
  ultimately have "\<exists>s1. pay_coinbase ops X (header blk) reward 0 s = Inr (reward, s1)"
    by (auto simp: pay_coinbase_def Let_def miner_of_def)
  moreover obtain buf where "enc (reflection_c (kx X)) (block_reflection blk 0 reward) = Some buf"
    using assms(2) by (auto simp: codec_ok_def)
  ultimately show ?thesis using assms(1) by (auto simp: apply_block_def Let_def split_beta)
qed

text \<open>The issued amount leaves room for the next reward, over any accounts that include the chain's.\<close>

lemma issued_room:
  assumes K: "account_codec_ok (kx (nx N))" and mem0: "genesis_state N g = Inr mem0"
    and p: "unat (supply_cap_sat (ns_emission st)) + 99 * unat (initial_reward_sat (ns_emission st)) < 2 ^ 128"
    and ch: "chain_ok N st bs" "length bs \<le> 2 ^ 64" and rep: "replayed N mem0 st bs"
    and ts: "timestamp_ms (header (last bs)) \<le> ts"
    and r: "current_reward_with_height (ns_emission st) (ns_genesis_time_ms st) ts pts (ns_minted_so_far st) h (ns_prev_reward_sat st) = Some reward"
  shows "finite (chain_accounts bs)"
    "finite A \<Longrightarrow> chain_accounts bs \<subseteq> A \<Longrightarrow>
      total A (load_or_default (node_ops N) (nx N) (ns_state st)) + unat reward < 2 ^ 128"
proof -
  let ?L = "load_or_default (node_ops N) (nx N) (ns_state st)"
  let ?S = "\<lambda>t. unat (scheduled_supply_at (t - ns_genesis_time_ms st) (ns_emission st))"
  have "finite {to. \<exists>a. x = Some (to :: account_id, a :: u128)}" for x by (cases x) auto
  then show "finite (chain_accounts bs)"
    by (auto simp: chain_accounts_def block_accounts_def senders_def recipients_def)
  assume A: "finite A" "chain_accounts bs \<subseteq> A"
  note g = genesis_state_ok [OF mem0]
  from replay_supply [OF K g p ch A] rep
  have s: "total A ?L = unat (ns_minted_so_far st)"
    "emission_potential (ns_emission st) (unat (ns_minted_so_far st)) (prev_nat (ns_prev_reward_sat st)) (?S (timestamp_ms (header (last bs))))"
    by (simp_all add: replayed_def)
  have "bs \<noteq> []" using ch(1) by (simp add: chain_ok_def)
  then have "ns_genesis_time_ms st \<le> timestamp_ms (header (last bs))" using chain_times [OF ch(1), of "last bs"] by simp
  then have "timestamp_ms (header (last bs)) - ns_genesis_time_ms st \<le> ts - ns_genesis_time_ms st"
    using ts by (simp add: word_le_nat_alt unat_sub_le)
  then have "?S (timestamp_ms (header (last bs))) \<le> ?S ts" by (rule scheduled_supply_mono)
  from potential_bound(1) [OF emission_potential_step [OF s(2) r this] scheduled_supply_cap]
  show "total A ?L + unat reward < 2 ^ 128" using p s(1) by linarith
qed

lemma clean_balance:
  assumes K: "account_codec_ok (kx (nx N))" and mem0: "genesis_state N g = Inr mem0"
    and p: "unat (supply_cap_sat (ns_emission st)) + 99 * unat (initial_reward_sat (ns_emission st)) < 2 ^ 128"
    and ch: "chain_ok N st bs" "length bs \<le> 2 ^ 64" and rep: "replayed N mem0 st bs"
    and ts: "timestamp_ms (header (last bs)) \<le> ts"
    and r: "current_reward_with_height (ns_emission st) (ns_genesis_time_ms st) ts pts (ns_minted_so_far st) h (ns_prev_reward_sat st) = Some reward"
  shows "unat (balance (load_or_default (node_ops N) (nx N) (ns_state st) i)) + unat reward < 2 ^ 128"
proof -
  let ?A = "insert i (chain_accounts bs)"
  have fin: "finite ?A" using issued_room(1) [OF assms] by simp
  have "total ?A (load_or_default (node_ops N) (nx N) (ns_state st)) + unat reward < 2 ^ 128"
    by (rule issued_room(2) [OF assms fin]) blast
  moreover have "unat (balance (load_or_default (node_ops N) (nx N) (ns_state st) i)) \<le>
      total ?A (load_or_default (node_ops N) (nx N) (ns_state st))" by (rule total_ge [OF fin]) simp
  ultimately show ?thesis by linarith
qed

lemma self_mined_accepted:
  assumes K: "account_codec_ok (kx (nx N))" "codec_ok (reflection_c (kx (nx N)))" and mem0: "genesis_state N g = Inr mem0"
    and p: "unat (supply_cap_sat (ns_emission st)) + 99 * unat (initial_reward_sat (ns_emission st)) < 2 ^ 128"
    and inv: "node_inv N st bs" "length bs \<le> 2 ^ 64" and rep: "replayed N mem0 st bs"
    and pool: "pool (ns_mempool st) = []"
    and c: "miner_candidate N now ts st = Some (Inr blk)" "timestamp_ms (header (last bs)) \<le> ts"
    and now': "ns_genesis_time_ms st \<le> now'" "ts \<le> now' + FUTURE_TIME_TOLERANCE_MS"
    and pow: "meets_target (hash_header (node_hash N) (header (with_nonce blk n))) (target_from_bits (bits (header blk)))"
    and fits: "fits_log (block_c N) (with_nonce blk n)"
  shows "fst (try_apply_block N now' st (with_nonce blk n)) = Inr ()"
proof -
  let ?b = "with_nonce blk n"
  have i: "cs_inv (block_c N) (ns_store st) bs" "chain_ok N st bs" using inv(1) by (simp_all add: node_inv_def)
  have tip: "cs_tip (ns_store st) = Some (last bs)" using i by (simp add: cs_inv_def chain_ok_def)
  have chk: "check_block N now' st ?b = Inr ()" by (rule candidate_checks [OF c(1) tip c(2) now' pow])
  have b: "body ?b = pool_body N st" "timestamp_ms (header ?b) = ts"
    using candidate_fields [OF c(1)] by blast+
  then have e: "txs (body ?b) = []" using pool by (simp add: pool_body_def pull_for_block_def)
  obtain r where r: "next_reward st (header ?b) = Some r"
    unfolding next_reward_def Let_def by (rule reward_defined)
  then have "current_reward_with_height (ns_emission st) (ns_genesis_time_ms st) ts (timestamp_ms (header (last bs)))
      (ns_minted_so_far st) (height (header ?b)) (ns_prev_reward_sat st) = Some r"
    using tip b(2) by (simp add: next_reward_def)
  from clean_balance [OF K(1) mem0 p i(2) inv(2) rep c(2) this] empty_block_applies [OF e K(2), of "node_ops N" "ns_state st" r]
  obtain out s' where a: "apply_block (node_ops N) (nx N) (ns_state st) ?b r = (Inr out, s')" by blast
  obtain cs where "cs_append (block_c N) (ns_store st) ?b = (Inr (), cs)"
    using cs_append_inv(1) [OF i(1) fits] by (metis prod.collapse)
  then show ?thesis by (simp add: try_apply_block_def commit_block_def Let_def chk r a)
qed

section \<open>Emission series\<close>

lemma reward_no_prev:
  "current_reward_with_height p gt ts pts m h None = current_reward_with_height p gt ts pts m h (Some 0)"
  by (simp add: current_reward_with_height_def Let_def)

lemma emission_loop_snoc:
  "bs \<noteq> [] \<Longrightarrow> emission_loop p gt (bs @ [b]) = emission_step p gt (last bs, b) (emission_loop p gt bs)"
proof -
  assume "bs \<noteq> []"
  then obtain a as where bs: "bs = a # as" by (cases bs) auto
  have "zip (a # as @ [b]) (as @ [b]) = zip (a # as) as @ [(last (a # as), b)]"
    by (induction as arbitrary: a) auto
  then show ?thesis by (simp add: emission_loop_def bs)
qed

lemma emission_loop_replay:
  assumes "chain_ok N st bs" "length bs \<le> 2 ^ 64"
    and "replay N p (ns_genesis_time_ms st) bs bs mem0 0 None = Inr (s, m, r)"
  shows "\<exists>prev cum. emission_loop p (ns_genesis_time_ms st) bs = Some (m, prev, cum) \<and>
    (prev = r \<or> prev = None \<and> r = Some 0) \<and> cum (height (header (last bs))) = Some m"
  using assms
proof (induction bs arbitrary: s m r rule: rev_induct)
  case (snoc b bs)
  let ?gt = "ns_genesis_time_ms st"
  have len: "length bs < 2 ^ 64" using snoc.prems(2) by simp
  obtain s1 m1 r1 rw where step: "replay N p ?gt bs bs mem0 0 None = Inr (s1, m1, r1)"
    "current_reward_with_height p ?gt (timestamp_ms (header b)) (replay_parent_ts ?gt (bs @ [b]) b) m1 (height (header b)) r1 = Some rw"
    "m = sat_add m1 rw" "r = Some rw"
    using snoc.prems(3) unfolding replay_snoc [OF snoc.prems(1) len]
    by (auto split: sum.splits option.splits prod.splits)
  show ?case
  proof (cases "bs = []")
    case True
    then have "height (header b) = 0" "timestamp_ms (header b) = ?gt" using snoc.prems(1) by (simp_all add: chain_ok_def)
    then have "rw = 0" "m1 = 0" using step(1,2) True by (simp_all add: current_reward_with_height_def)
    then show ?thesis using True step(3,4) \<open>height (header b) = 0\<close> by (simp add: emission_loop_def sat_add_def)
  next
    case False
    then have c: "chain_ok N st bs" "child_ok N st (last bs) b" using snoc.prems(1) by (simp_all add: chain_ok_snoc)
    obtain prev cum where IH: "emission_loop p ?gt bs = Some (m1, prev, cum)" "prev = r1 \<or> prev = None \<and> r1 = Some 0"
      using snoc.IH [OF c(1) _ step(1)] len by auto
    have "current_reward_with_height p ?gt (timestamp_ms (header b)) (timestamp_ms (header (last bs))) m1 (height (header b)) prev = Some rw"
      using step(2) IH(2) unfolding parent_ts_new [OF snoc.prems(1) len False] by (auto simp: reward_no_prev)
    then show ?thesis using step(3,4) by (simp add: emission_loop_snoc [OF False] IH(1) emission_step_def Let_def)
  qed
qed (simp add: chain_ok_def)

lemma last_filter: "xs \<noteq> [] \<Longrightarrow> P (last xs) \<Longrightarrow> filter P xs \<noteq> [] \<and> last (filter P xs) = last xs"
  by (induction xs) (auto split: if_splits)

lemma last_emission_sample:
  assumes "win \<noteq> []" "distinct (map (\<lambda>b. height (header b)) win)"
  shows "emission_samples cum points win \<noteq> [] \<and> last (emission_samples cum points win) = emission_sample cum (last win)"
proof -
  define stride where "stride = max (length win div points) 1"
  define ix where "ix = filter (\<lambda>i. i mod stride = 0) [0..<length win]"
  define samples where "samples = map (\<lambda>i. emission_sample cum (win ! i)) ix"
  have e: "emission_samples cum points win =
      (if samples = [] \<or> ep_height (last samples) \<noteq> height (header (last win)) then samples @ [emission_sample cum (last win)] else samples)"
    by (simp add: emission_samples_def stride_def ix_def samples_def Let_def)
  have "last samples = emission_sample cum (last win)"
    if s: "samples \<noteq> []" "ep_height (last samples) = height (header (last win))"
  proof -
    have ne: "ix \<noteq> []" using s(1) by (simp add: samples_def)
    then have k: "last ix < length win" using last_in_set [OF ne] by (simp add: ix_def)
    have l: "last samples = emission_sample cum (win ! last ix)" using ne by (simp add: samples_def last_map)
    then have "height (header (win ! last ix)) = height (header (win ! (length win - 1)))"
      using s(2) assms(1) by (simp add: emission_sample_def last_conv_nth)
    then have "last ix = length win - 1"
      using nth_eq_iff_index_eq [OF assms(2), of "last ix" "length win - 1"] k assms(1) by simp
    then show ?thesis using l assms(1) by (simp add: last_conv_nth)
  qed
  then show ?thesis unfolding e by auto
qed

lemma chain_heights_distinct:
  assumes "chain_ok N st bs" "length bs \<le> 2 ^ 64"
  shows "distinct (map (\<lambda>b. height (header b)) bs)"
  unfolding distinct_conv_nth
proof (intro allI impI)
  fix i j
  assume "i < length (map (\<lambda>b. height (header b)) bs)" "j < length (map (\<lambda>b. height (header b)) bs)" "i \<noteq> j"
  then show "map (\<lambda>b. height (header b)) bs ! i \<noteq> map (\<lambda>b. height (header b)) bs ! j"
    using unat_height [OF assms(1) _ assms(2), of i] unat_height [OF assms(1) _ assms(2), of j] by auto
qed

lemma emission_series_tip:
  assumes K: "codec_ok (block_c N)" and inv: "node_inv N st bs" "length bs \<le> 2 ^ 64" and rep: "replayed N mem0 st bs"
  shows "\<exists>resp. rpc_emission_series N st req = Inr resp \<and> es_samples resp \<noteq> [] \<and>
    last (es_samples resp) = \<lparr> ep_height = height (header (last bs)), ep_timestamp_ms = timestamp_ms (header (last bs)),
      ep_minted_sat = ns_minted_so_far st \<rparr>"
proof -
  have i: "cs_inv (block_c N) (ns_store st) bs" "chain_ok N st bs" "bs \<noteq> []" using inv(1) by (auto simp: node_inv_def chain_ok_def)
  define P where "P = (\<lambda>b :: block. sat_sub (timestamp_ms (header (last bs))) (sat_mul (er_window_seconds req) 1000) \<le> timestamp_ms (header b))"
  have "P (last bs)" by (simp add: P_def word_le_nat_alt unat_sat_sub)
  then have win: "filter P bs \<noteq> []" "last (filter P bs) = last bs" using last_filter [OF i(3)] by blast+
  obtain prev cum where l: "emission_loop (ns_emission st) (ns_genesis_time_ms st) bs = Some (ns_minted_so_far st, prev, cum)"
    "cum (height (header (last bs))) = Some (ns_minted_so_far st)"
    using emission_loop_replay [OF i(2) inv(2) rep [unfolded replayed_def]] by blast
  have d: "distinct (map (\<lambda>b. height (header b)) (filter P bs))"
    by (rule distinct_map_filter [OF chain_heights_distinct [OF i(2) inv(2)]])
  note s = last_emission_sample [OF win(1) d, of cum "min (max (er_points req) 2) 500"]
  have "rpc_emission_series N st req = Inr (emission_reply st (emission_samples cum (min (max (er_points req) 2) 500) (filter P bs)))"
    using win(1) i(3) l(1) cs_load_all_inv [OF K i(1)] by (simp add: rpc_emission_series_def Let_def P_def)
  then show ?thesis using s win(2) l(2) by (simp add: emission_reply_def emission_sample_def)
qed

section \<open>Templates over the wire\<close>

lemma template_header_wf:
  assumes "hash_ok (node_hash N)" "length (ns_coinbase st) = 32"
  shows "header_wf (template_header N now st)"
proof -
  have "length (blake3 (node_hash N) b) = 32" for b using assms(1) by (simp add: hash_ok_def)
  then show ?thesis
    using assms
    by (simp add: template_header_def template_from_parent_with_body_def header_wf_def tx_root_def witness_root_def vec_root_def
        split: option.split)
qed

lemma header_json_nonce: "(header_to_json N h)\<lparr>hj_nonce := n\<rparr> = header_to_json N (h\<lparr>nonce := n\<rparr>)"
  by (simp add: header_to_json_def)

lemma stale_block_refused:
  assumes "cs_tip (ns_store st) = Some tip"
    and "expected_bits st (bits (header tip)) (height (header tip)) (timestamp_ms (header tip)) now = Some eb"
    and "eb \<noteq> ns_bits st" "ns_genesis_time_ms st \<le> now'"
  shows "try_apply_block N now' st \<lparr> header = (template_header N now st)\<lparr>nonce := n\<rparr>, body = pool_body N st \<rparr> =
    (Inl (WrongBits (ns_bits st) eb (bits (header tip)) (height (header tip)) (timestamp_ms (header tip))), st)"
proof -
  let ?b = "\<lparr> header = (template_header N now st)\<lparr>nonce := n\<rparr>, body = pool_body N st \<rparr>"
  have h: "parent (header ?b) = hash_header (node_hash N) (header tip)" "height (header ?b) = height (header tip) + 1"
    "timestamp_ms (header ?b) = now" "bits (header ?b) = ns_bits st"
    using assms(1) by (simp_all add: template_header_def template_from_parent_with_body_def)
  from wrong_bits_refused [OF assms(1) h(1,2), unfolded h, OF assms(2) _ assms(4)] assms(3) show ?thesis by simp
qed

lemma template_submit:
  assumes "hex_ok N" "codec_ok (tx_c N)" "codec_ok (wit_c N)" "hash_ok (node_hash N)" "length (ns_coinbase st) = 32"
  shows "\<exists>resp. rpc_template N now st = Inr resp \<and>
    (\<forall>n. decode_submit N \<lparr> sr_header = (tr_header resp)\<lparr>hj_nonce := n\<rparr>, sr_txs_cbor_hex = tr_txs_cbor_hex resp,
        sr_witnesses_cbor_hex = tr_witnesses_cbor_hex resp \<rparr> =
      Inr \<lparr> header = (template_header N now st)\<lparr>nonce := n\<rparr>, body = pool_body N st \<rparr>)"
proof -
  obtain ts where ts: "encode_items N (tx_c N) (txs (pool_body N st)) = Inr ts"
    "decode_items N (tx_c N) ts = Inr (txs (pool_body N st))" "length ts = length (txs (pool_body N st))"
    using decode_encode_items [OF assms(1,2)] by blast
  obtain ws where ws: "encode_items N (wit_c N) (witnesses (pool_body N st)) = Inr ws"
    "decode_items N (wit_c N) ws = Inr (witnesses (pool_body N st))" "length ws = length (witnesses (pool_body N st))"
    using decode_encode_items [OF assms(1,3)] by blast
  have len: "length ts = length ws" using ts(3) ws(3) by (simp add: pool_body_def Let_def)
  have wf: "header_wf ((template_header N now st)\<lparr>nonce := n\<rparr>)" for n
    using template_header_wf [OF assms(4,5)] by (simp add: header_wf_def)
  show ?thesis
    by (simp add: rpc_template_def decode_submit_def bind_sum_def ts(1,2) ws(1,2) len header_json_nonce header_json_roundtrip [OF assms(1) wf])
qed

lemma length_headline: "length (headline_bytes N g) = 32"
  by (simp add: headline_bytes_def split: sum.split)

section \<open>A new chain\<close>

lemma cmd_init_chain:
  assumes "cmd_init N g None = Some (Inr cs)" "fits_log (block_c N) blk"
    and "mine_inline (node_hash N) (genesis_template N g) = Some blk"
  shows "cs_inv (block_c N) cs [blk]" "height (header blk) = 0" "timestamp_ms (header blk) = g_genesis_time_ms g"
    "\<exists>f. log_file cs = Some f \<and> log_of (block_c N) [blk] = Some f"
proof -
  obtain cs0 where c: "cs_open (block_c N) None = Inr cs0" "cs_inv (block_c N) cs0 []" using cs_open_empty by blast
  have t: "cs_tip cs0 = None" using c(2) by (simp add: cs_inv_def)
  have "(case cs_append (block_c N) cs0 blk of (Inl e, cs) \<Rightarrow> Inl (StoreFailed e) | (Inr u, cs) \<Rightarrow> Inr cs) = Inr cs"
    using assms(1) c(1) t assms(3) by (simp add: cmd_init_def cs_height_def)
  then have "snd (cs_append (block_c N) cs0 blk) = cs" by (auto split: prod.splits sum.splits)
  then show i: "cs_inv (block_c N) cs [blk]" using cs_append_inv(2) [OF c(2) assms(2)] by simp
  obtain n where h: "header blk = (genesis_template N g)\<lparr>nonce := n\<rparr>"
    using assms(3) mine_loop_Some by (fastforce simp: mine_inline_def)
  then show "height (header blk) = 0" "timestamp_ms (header blk) = g_genesis_time_ms g"
    by (simp_all add: genesis_template_def template_from_parent_def template_from_parent_with_body_def)
  show "\<exists>f. log_file cs = Some f \<and> log_of (block_c N) [blk] = Some f"
    using i log_of_Nil [of "block_c N" "[blk]"] by (cases "log_file cs") (auto simp: cs_inv_def)
qed

section \<open>The search of the self-miner\<close>

text \<open>While nobody else extends the chain, it is the search of the inline miner.\<close>

abbreviation not_newer :: "(nat \<Rightarrow> u64 option) \<Rightarrow> u64 \<Rightarrow> bool" where
  "not_newer seen th \<equiv> \<forall>k h. seen k = Some h \<longrightarrow> h \<le> th"

lemma self_mine_search_sound:
  assumes "self_mine_search H t th seen k hdr = Some r"
  shows "not_newer seen th \<longrightarrow> (\<exists>h. r = Some h \<and> mine_loop H t hdr = Some h)"
proof (rule self_mine_search.raw_induct
    [where P = "\<lambda>H t th seen k hdr r. not_newer seen th \<longrightarrow> (\<exists>h. r = Some h \<and> mine_loop H t hdr = Some h)", OF _ assms], intro impI)
  fix search :: "hash_ext \<Rightarrow> bytes \<Rightarrow> u64 \<Rightarrow> (nat \<Rightarrow> u64 option) \<Rightarrow> nat \<Rightarrow> block_header \<Rightarrow> block_header option option"
    and H t th seen k hdr r
  assume IH: "\<And>H t th seen k hdr r. search H t th seen k hdr = Some r \<Longrightarrow>
      not_newer seen th \<longrightarrow> (\<exists>h. r = Some h \<and> mine_loop H t hdr = Some h)"
    and r: "(if meets_target (hash_header H hdr) t then Some (Some hdr)
      else let hdr = hdr\<lparr>nonce := nonce hdr + 1\<rparr> in
        if take_bit 21 (nonce hdr) = 0 then
          if (case seen k of None \<Rightarrow> False | Some h \<Rightarrow> h > th) then Some None else search H t th seen (Suc k) hdr
        else search H t th seen k hdr) = Some r"
    and nn: "not_newer seen th"
  show "\<exists>h. r = Some h \<and> mine_loop H t hdr = Some h"
  proof (cases "meets_target (hash_header H hdr) t")
    case True
    then show ?thesis using r by (auto simp: mine_loop_unfold [of H t hdr])
  next
    case False
    have "\<not> (case seen k of None \<Rightarrow> False | Some h \<Rightarrow> th < h)" using nn by (auto simp: not_less split: option.split)
    then obtain k' where "search H t th seen k' (hdr\<lparr>nonce := nonce hdr + 1\<rparr>) = Some r"
      using r False by (auto simp: Let_def split: if_splits)
    from IH [OF this] nn False show ?thesis by (simp add: mine_loop_unfold [of H t hdr])
  qed
qed

lemma self_mine_search_complete:
  assumes "mine_loop H t hdr = Some h" "not_newer seen th"
  shows "self_mine_search H t th seen k hdr = Some (Some h)"
proof -
  have "\<forall>k. self_mine_search H t th seen k hdr = Some (Some h)"
  proof (rule mine_loop.raw_induct [where P = "\<lambda>H t hdr h. \<forall>k. self_mine_search H t th seen k hdr = Some (Some h)", OF _ assms(1)], intro allI)
    fix search :: "hash_ext \<Rightarrow> bytes \<Rightarrow> block_header \<Rightarrow> block_header option" and H t hdr h k
    assume IH: "\<And>H t hdr h. search H t hdr = Some h \<Longrightarrow> \<forall>k. self_mine_search H t th seen k hdr = Some (Some h)"
      and r: "(if meets_target (hash_header H hdr) t then Some hdr else search H t (hdr\<lparr>nonce := nonce hdr + 1\<rparr>)) = Some h"
    have nn: "\<not> (case seen k of None \<Rightarrow> False | Some h \<Rightarrow> th < h)" using assms(2) by (auto simp: not_less split: option.split)
    show "self_mine_search H t th seen k hdr = Some (Some h)"
    proof (cases "meets_target (hash_header H hdr) t")
      case False
      then have "search H t (hdr\<lparr>nonce := nonce hdr + 1\<rparr>) = Some h" using r by simp
      from IH [OF this] nn False show ?thesis by (subst self_mine_search.simps) (simp add: Let_def)
    qed (use r in \<open>simp add: self_mine_search.simps\<close>)
  qed
  then show ?thesis by blast
qed

lemma self_mine_search_inline:
  assumes "not_newer seen th"
  shows "self_mine_search H t th seen k hdr = map_option Some (mine_loop H t hdr)"
proof (cases "mine_loop H t hdr")
  case None
  then show ?thesis using self_mine_search_sound [of H t th seen k hdr] assms by (cases "self_mine_search H t th seen k hdr") auto
qed (simp add: self_mine_search_complete [OF _ assms])

end
