(* ===== verification/Http.thy ===== *)
theory Http
  imports Rpc
begin

text \<open>
  The HTTP side of \<open>crates/node/src/rpc.rs\<close>: routes, the body limit, the JSON form of requests and
  responses, and the metrics page. JSON values are \<open>serde_json::Value\<close>; parsing and printing JSON text
  and the texts of errors belong to third-party crates and are fields of \<open>http_ext\<close>, as are the
  explorer page and the build identity, which the build fills in.
\<close>

section \<open>JSON values\<close>

text \<open>
  Numbers are 64-bit integers (signed or unsigned) or floating-point values, whose value nothing
  here reads. An object lists each key once.
\<close>

datatype json = JNull | JBool bool | JNum int | JFloat | JStr string | JArr "json list" | JObj "(string \<times> json) list"

definition jget :: "json \<Rightarrow> string \<Rightarrow> json option" where
  "jget v k = (case v of JObj kvs \<Rightarrow> map_of kvs k | _ \<Rightarrow> None)"

definition jidx :: "json \<Rightarrow> string \<Rightarrow> json" where
  "jidx v k = (case jget v k of None \<Rightarrow> JNull | Some x \<Rightarrow> x)"

definition as_u64 :: "json \<Rightarrow> u64 option" where
  "as_u64 v = (case v of JNum n \<Rightarrow> if 0 \<le> n \<and> n < 2 ^ 64 then Some (of_int n) else None | _ \<Rightarrow> None)"

definition as_i64 :: "json \<Rightarrow> int option" where
  "as_i64 v = (case v of JNum n \<Rightarrow> if - (2 ^ 63) \<le> n \<and> n < 2 ^ 63 then Some n else None | _ \<Rightarrow> None)"

definition as_str :: "json \<Rightarrow> string option" where
  "as_str v = (case v of JStr s \<Rightarrow> Some s | _ \<Rightarrow> None)"

definition as_bool :: "json \<Rightarrow> bool option" where
  "as_bool v = (case v of JBool b \<Rightarrow> Some b | _ \<Rightarrow> None)"

definition as_array :: "json \<Rightarrow> json list option" where
  "as_array v = (case v of JArr vs \<Rightarrow> Some vs | _ \<Rightarrow> None)"

text \<open>
  A value after it has been printed and parsed: the printer writes 128-bit integers in full, the
  parser reads an integer that does not fit 64 bits as a floating-point number.
\<close>

fun reparse :: "json \<Rightarrow> json" where
  "reparse (JNum n) = (if - (2 ^ 63) \<le> n \<and> n < 2 ^ 64 then JNum n else JFloat)"
| "reparse (JArr vs) = JArr (map reparse vs)"
| "reparse (JObj kvs) = JObj (map (\<lambda>(k, v). (k, reparse v)) kvs)"
| "reparse v = v"

section \<open>Responses\<close>

definition jword :: "'a::len word \<Rightarrow> json" where
  "jword w = JNum (uint w)"

definition jnat :: "nat \<Rightarrow> json" where
  "jnat n = JNum (int n)"

definition header_value :: "header_json \<Rightarrow> json" where
  "header_value h = JObj
     [(''version'', jword (hj_version h)), (''height'', jword (hj_height h)), (''parent'', JStr (hj_parent h)),
      (''timestamp_ms'', jword (hj_timestamp_ms h)), (''bits'', jword (hj_bits h)), (''nonce'', jword (hj_nonce h)),
      (''tx_root'', JStr (hj_tx_root h)), (''witness_root'', JStr (hj_witness_root h)),
      (''state_root'', JStr (hj_state_root h)), (''reflect_root'', JStr (hj_reflect_root h)),
      (''coinbase'', JStr (hj_coinbase h)), (''sig_algo'', jword (hj_sig_algo h)), (''hash_algo'', jword (hj_hash_algo h))]"

definition info_value :: "info_resp \<Rightarrow> json" where
  "info_value r = JObj
     [(''chain_id'', JStr (ir_chain_id r)), (''height'', jword (ir_height r)), (''tip_hash'', JStr (ir_tip_hash r)),
      (''bits'', jword (ir_bits r)), (''target'', JStr (ir_target r)), (''sig_algo'', jword (ir_sig_algo r)),
      (''hash_algo'', jword (ir_hash_algo r)), (''genesis_time_ms'', jword (ir_genesis_time_ms r)),
      (''genesis_offset_ms'', JNum (sint (ir_genesis_offset_ms r))), (''mempool_size'', jnat (ir_mempool_size r)),
      (''block_reward_sat'', jword (ir_block_reward_sat r))]"

definition template_value :: "template_resp \<Rightarrow> json" where
  "template_value r = JObj
     [(''header'', header_value (tr_header r)), (''target'', JStr (tr_target r)),
      (''txs_cbor_hex'', JArr (map JStr (tr_txs_cbor_hex r))),
      (''witnesses_cbor_hex'', JArr (map JStr (tr_witnesses_cbor_hex r)))]"

definition summary_value :: "block_summary \<Rightarrow> json" where
  "summary_value b = JObj
     [(''height'', jword (bs_height b)), (''hash'', JStr (bs_hash b)), (''timestamp_ms'', jword (bs_timestamp_ms b)),
      (''nonce'', jword (bs_nonce b)), (''tx_count'', jnat (bs_tx_count b))]"

definition tx_value :: "tx_summary \<Rightarrow> json" where
  "tx_value t = JObj
     [(''hash'', JStr (ts_hash t)), (''from'', JStr (ts_from t)), (''to'', JStr (ts_to t)),
      (''amount_sat'', jword (ts_amount_sat t)), (''fee_sat'', jword (ts_fee_sat t)), (''nonce'', jword (ts_nonce t))]"

definition block_value :: "block_detail \<Rightarrow> json" where
  "block_value b = JObj
     [(''hash'', JStr (bd_hash b)), (''tx_count'', jnat (bd_tx_count b)), (''header'', header_value (bd_header b)),
      (''txs'', JArr (map tx_value (bd_txs b)))]"

definition balance_value :: "balance_resp \<Rightarrow> json" where
  "balance_value r = JObj
     [(''address'', JStr (br_address r)), (''balance_sat'', jword (br_balance_sat r)), (''nonce'', jword (br_nonce r))]"

definition account_value :: "account_resp \<Rightarrow> json" where
  "account_value r = JObj
     [(''address'', JStr (ac_address r)), (''balance_sat'', jword (ac_balance_sat r)), (''nonce'', jword (ac_nonce r)),
      (''has_pubkey'', JBool (ac_has_pubkey r)), (''sig_algo'', jword (ac_resp_sig_algo r))]"

definition point_value :: "emission_point \<Rightarrow> json" where
  "point_value p = JObj
     [(''height'', jword (ep_height p)), (''timestamp_ms'', jword (ep_timestamp_ms p)), (''minted_sat'', jword (ep_minted_sat p))]"

definition emission_value :: "emission_resp \<Rightarrow> json" where
  "emission_value r = JObj
     [(''samples'', JArr (map point_value (es_samples r))), (''genesis_time_ms'', jword (es_genesis_time_ms r)),
      (''block_reward_sat'', jword (es_block_reward_sat r)), (''target_block_time_ms'', jword (es_target_block_time_ms r)),
      (''halving_interval_base'', jword (es_halving_interval_base r))]"

record http_ext =
  parse_rpc_req :: "bytes \<Rightarrow> string + string \<times> json"
  params_error :: "string \<Rightarrow> json \<Rightarrow> string"
  error_text :: "node_error \<Rightarrow> string"
  explorer_html :: string
  pkg_version :: string
  git_sha :: string

fun result_value :: "http_ext \<Rightarrow> rpc_result \<Rightarrow> json" where
  "result_value X (InfoR r) = JObj [(''result'', info_value r)]"
| "result_value X (TemplateR r) = JObj [(''result'', template_value r)]"
| "result_value X (SubmitR h s) =
     JObj [(''result'', JObj [(''ok'', JBool True), (''height'', jword h), (''hash'', JStr s)])]"
| "result_value X (BlocksR bs) = JObj [(''result'', JArr (map summary_value bs))]"
| "result_value X (BlockR b) = JObj [(''result'', block_value b)]"
| "result_value X (TxR h) = JObj [(''result'', JObj [(''ok'', JBool True), (''tx_hash'', JStr h)])]"
| "result_value X (BalanceR r) = JObj [(''result'', balance_value r)]"
| "result_value X (AccountR r) = JObj [(''result'', account_value r)]"
| "result_value X (MempoolR n hs) = JObj [(''result'', JObj [(''size'', jnat n), (''hashes'', JArr (map JStr hs))])]"
| "result_value X (EmissionR r) = JObj [(''result'', emission_value r)]"
| "result_value X (ErrorR e) = JObj [(''error'', JStr (error_text X e))]"
| "result_value X (MessageR m) = JObj [(''error'', JStr m)]"

section \<open>Requests\<close>

text \<open>A struct is read from an object, or from an array with its fields in order.\<close>

definition fields_of :: "string list \<Rightarrow> json \<Rightarrow> (string \<times> json) list option" where
  "fields_of names v =
     (case v of
        JObj kvs \<Rightarrow> Some kvs
      | JArr vs \<Rightarrow> if length vs \<le> length names then Some (zip names vs) else None
      | _ \<Rightarrow> None)"

definition num_field :: "(string \<times> json) list \<Rightarrow> string \<Rightarrow> 'a::len word option" where
  "num_field kvs k =
     (case map_of kvs k of
        Some (JNum n) \<Rightarrow> if 0 \<le> n \<and> n < 2 ^ LENGTH('a) then Some (of_int n) else None
      | _ \<Rightarrow> None)"

definition str_field :: "(string \<times> json) list \<Rightarrow> string \<Rightarrow> string option" where
  "str_field kvs k = (case map_of kvs k of Some (JStr s) \<Rightarrow> Some s | _ \<Rightarrow> None)"

fun all_strings :: "json list \<Rightarrow> string list option" where
  "all_strings [] = Some []"
| "all_strings (JStr s # vs) = map_option ((#) s) (all_strings vs)"
| "all_strings (v # vs) = None"

text \<open>A list field with \<open>serde(default)\<close>.\<close>

definition strings_field :: "(string \<times> json) list \<Rightarrow> string \<Rightarrow> string list option" where
  "strings_field kvs k =
     (case map_of kvs k of None \<Rightarrow> Some [] | Some (JArr vs) \<Rightarrow> all_strings vs | Some v \<Rightarrow> None)"

definition count_field :: "(string \<times> json) list \<Rightarrow> string \<Rightarrow> nat \<Rightarrow> nat option" where
  "count_field kvs k dflt =
     (if map_of kvs k = None then Some dflt else map_option unat (num_field kvs k :: u64 option))"

definition value_header :: "json \<Rightarrow> header_json option" where
  "value_header v =
     Option.bind (fields_of [''version'', ''height'', ''parent'', ''timestamp_ms'', ''bits'', ''nonce'', ''tx_root'',
        ''witness_root'', ''state_root'', ''reflect_root'', ''coinbase'', ''sig_algo'', ''hash_algo''] v) (\<lambda>kvs.
     Option.bind (num_field kvs ''version'') (\<lambda>ver. Option.bind (num_field kvs ''height'') (\<lambda>h.
     Option.bind (str_field kvs ''parent'') (\<lambda>p. Option.bind (num_field kvs ''timestamp_ms'') (\<lambda>t.
     Option.bind (num_field kvs ''bits'') (\<lambda>b. Option.bind (num_field kvs ''nonce'') (\<lambda>n.
     Option.bind (str_field kvs ''tx_root'') (\<lambda>tr. Option.bind (str_field kvs ''witness_root'') (\<lambda>wr.
     Option.bind (str_field kvs ''state_root'') (\<lambda>sr. Option.bind (str_field kvs ''reflect_root'') (\<lambda>rr.
     Option.bind (str_field kvs ''coinbase'') (\<lambda>cb. Option.bind (num_field kvs ''sig_algo'') (\<lambda>sa.
     Option.bind (num_field kvs ''hash_algo'') (\<lambda>ha.
       Some \<lparr> hj_version = ver, hj_height = h, hj_parent = p, hj_timestamp_ms = t, hj_bits = b, hj_nonce = n,
              hj_tx_root = tr, hj_witness_root = wr, hj_state_root = sr, hj_reflect_root = rr, hj_coinbase = cb,
              hj_sig_algo = sa, hj_hash_algo = ha \<rparr>))))))))))))))"

definition value_submit :: "json \<Rightarrow> submit_req option" where
  "value_submit v =
     Option.bind (fields_of [''header'', ''txs_cbor_hex'', ''witnesses_cbor_hex''] v) (\<lambda>kvs.
     Option.bind (map_of kvs ''header'') (\<lambda>hv. Option.bind (value_header hv) (\<lambda>h.
     Option.bind (strings_field kvs ''txs_cbor_hex'') (\<lambda>ts. Option.bind (strings_field kvs ''witnesses_cbor_hex'') (\<lambda>ws.
       Some \<lparr> sr_header = h, sr_txs_cbor_hex = ts, sr_witnesses_cbor_hex = ws \<rparr>)))))"

definition value_transfer :: "json \<Rightarrow> transfer_req option" where
  "value_transfer v =
     Option.bind (fields_of [''from_address'', ''to_address'', ''amount_sat'', ''fee_sat'', ''nonce'', ''pubkey_hex'', ''sig_hex''] v) (\<lambda>kvs.
     Option.bind (str_field kvs ''from_address'') (\<lambda>f. Option.bind (str_field kvs ''to_address'') (\<lambda>t.
     Option.bind (num_field kvs ''amount_sat'') (\<lambda>a. Option.bind (num_field kvs ''fee_sat'') (\<lambda>fee.
     Option.bind (num_field kvs ''nonce'') (\<lambda>n. Option.bind (str_field kvs ''pubkey_hex'') (\<lambda>pk.
     Option.bind (str_field kvs ''sig_hex'') (\<lambda>sg.
       Some \<lparr> tq_from_address = f, tq_to_address = t, tq_amount_sat = a, tq_fee_sat = fee, tq_nonce = n,
              tq_pubkey_hex = pk, tq_sig_hex = sg \<rparr>))))))))"

definition value_emission :: "json \<Rightarrow> emission_req option" where
  "value_emission v =
     Option.bind (fields_of [''window_seconds'', ''points''] v) (\<lambda>kvs.
     Option.bind (num_field kvs ''window_seconds'') (\<lambda>w. Option.bind (count_field kvs ''points'' 240) (\<lambda>p.
       Some \<lparr> er_window_seconds = w, er_points = p \<rparr>)))"

text \<open>The request a method name and its parameters stand for, as \<open>dispatch\<close> reads them.\<close>

definition decode_call :: "http_ext \<Rightarrow> string \<Rightarrow> json \<Rightarrow> rpc_req" where
  "decode_call X m v =
     (let orbad = (\<lambda>r. case r of None \<Rightarrow> BadParams (params_error X m v) | Some q \<Rightarrow> q);
          addr = Option.bind (fields_of [''address''] v) (\<lambda>kvs. str_field kvs ''address'') in
      if m = ''get_info'' then GetInfo
      else if m = ''get_template'' then GetTemplate
      else if m = ''submit_block'' then orbad (map_option SubmitBlock (value_submit v))
      else if m = ''list_blocks'' then
        ListBlocks (case Option.bind (fields_of [''limit''] v) (\<lambda>kvs. count_field kvs ''limit'' 50) of None \<Rightarrow> 50 | Some n \<Rightarrow> n)
      else if m = ''get_block'' then
        orbad (map_option GetBlock (Option.bind (fields_of [''height''] v) (\<lambda>kvs. num_field kvs ''height'')))
      else if m = ''submit_tx'' then
        orbad (Option.bind (fields_of [''tx_cbor_hex'', ''witness_cbor_hex''] v) (\<lambda>kvs.
               Option.bind (str_field kvs ''tx_cbor_hex'') (\<lambda>t. Option.bind (str_field kvs ''witness_cbor_hex'') (\<lambda>w.
                 Some (SubmitTx t w)))))
      else if m = ''submit_transfer'' then orbad (map_option SubmitTransfer (value_transfer v))
      else if m = ''get_balance'' then orbad (map_option GetBalance addr)
      else if m = ''get_account'' then orbad (map_option GetAccount addr)
      else if m = ''get_mempool'' then GetMempool
      else if m = ''emission_series'' then orbad (map_option EmissionSeries (value_emission v))
      else UnknownMethod m)"

section \<open>The metrics page\<close>

definition show_int :: "int \<Rightarrow> string" where
  "show_int i = (if i < 0 then CHR ''-'' # show_nat (nat (- i)) else show_nat (nat i))"

definition newline :: string where "newline = [CHR 0x0A]"

definition quoted :: "string \<Rightarrow> string" where
  "quoted s = [CHR 0x22] @ s @ [CHR 0x22]"

text \<open>One metric: a help line, a type line, and the sample with its labels.\<close>

definition metric :: "string \<Rightarrow> string \<Rightarrow> string \<Rightarrow> string \<Rightarrow> string \<Rightarrow> string" where
  "metric name help kind labels val =
     ''# HELP '' @ name @ '' '' @ help @ newline @ ''# TYPE '' @ name @ '' '' @ kind @ newline @
     name @ labels @ '' '' @ val @ newline"

definition prometheus_metrics :: "http_ext \<Rightarrow> u64 \<Rightarrow> node_state \<Rightarrow> string" where
  "prometheus_metrics X now st =
     (let offset_ms = uint now - uint (ns_genesis_time_ms st) in
      concat
       [metric ''pygrove_height'' ''Current chain tip height.'' ''gauge'' [] (show_nat (unat (cs_height (ns_store st)))),
        metric ''pygrove_genesis_offset_ms'' ''Wall-clock ms past genesis. Negative = pre-genesis lockout.'' ''gauge'' [] (show_int offset_ms),
        metric ''pygrove_mempool_size'' ''Number of transactions waiting in the mempool.'' ''gauge'' [] (show_nat (mempool_len (ns_mempool st))),
        metric ''pygrove_block_reward_sat'' ''Current per-block reward in satoshi (pre-halving-1 nominal).'' ''gauge'' [] (show_nat (unat (ns_block_reward_sat st))),
        metric ''pygrove_bits'' ''Current difficulty target (Bitcoin compact-bits form).'' ''gauge'' [] (show_nat (unat (ns_bits st))),
        metric ''pygrove_minted_so_far_sat'' ''Cumulative coinbase emission (including fees collected).'' ''counter'' [] (show_nat (unat (ns_minted_so_far st))),
        metric ''pygrove_chain_info'' ''Chain identity labels.'' ''gauge''
          (''{chain_id='' @ quoted (ns_chain_id st) @ '',sig_algo='' @ quoted (show_nat (unat (ns_sig_algo st))) @
           '',hash_algo='' @ quoted (show_nat (unat (ns_hash_algo st))) @ ''}'') ''1'',
        metric ''pygrove_build_info'' ''Build identity (git sha, version).'' ''gauge''
          (''{version='' @ quoted (pkg_version X) @ '',git_sha='' @ quoted (git_sha X) @ ''}'') ''1''])"

section \<open>The server\<close>

datatype http_method = HttpPost | HttpGet | HttpOther

text \<open>The body is what reading it would give; \<open>Inl\<close> is a failed read.\<close>

record http_request =
  hr_method :: http_method
  hr_url :: string
  hr_body_length :: "nat option"
  hr_body :: "string + bytes"

datatype http_body = JsonBody json | HtmlBody string | TextBody string

definition MAX_RPC_BODY_BYTES :: nat where "MAX_RPC_BODY_BYTES = 64 * 1024"

definition read_body :: "http_request \<Rightarrow> nat \<Rightarrow> string + bytes" where
  "read_body req mx =
     (case hr_body req of
        Inl e \<Rightarrow> Inl (''read body: '' @ e)
      | Inr bs \<Rightarrow>
          let buf = take (mx + 1) bs in
          if length buf > mx then Inl (''body too large: > '' @ show_nat mx) else Inr buf)"

definition read_bounded_body :: "http_request \<Rightarrow> nat \<Rightarrow> string + bytes" where
  "read_bounded_body req mx =
     (case hr_body_length req of
        Some len \<Rightarrow> if len > mx then Inl (''body too large: '' @ show_nat len @ '' > '' @ show_nat mx) else read_body req mx
      | None \<Rightarrow> read_body req mx)"

definition json_err :: "nat \<Rightarrow> string \<Rightarrow> nat \<times> http_body" where
  "json_err code msg = (code, JsonBody (JObj [(''error'', JStr msg)]))"

definition serve_rpc :: "http_ext \<Rightarrow> node_ext \<Rightarrow> u64 \<Rightarrow> http_request \<Rightarrow> node_state \<Rightarrow> (nat \<times> http_body) \<times> node_state" where
  "serve_rpc X N now req st =
     (case read_bounded_body req MAX_RPC_BODY_BYTES of
        Inl e \<Rightarrow> (json_err 413 e, st)
      | Inr bs \<Rightarrow>
          (case parse_rpc_req X bs of
             Inl e \<Rightarrow> (json_err 400 (''bad request: '' @ e), st)
           | Inr (m, params) \<Rightarrow>
               (case rpc_dispatch N now (decode_call X m params) st of
                  ((code, r), st) \<Rightarrow> ((code, JsonBody (result_value X r)), st))))"

definition serve_request :: "http_ext \<Rightarrow> node_ext \<Rightarrow> u64 \<Rightarrow> http_request \<Rightarrow> node_state \<Rightarrow> (nat \<times> http_body) \<times> node_state" where
  "serve_request X N now req st =
     (if hr_method req = HttpPost \<and> hr_url req = ''/rpc'' then serve_rpc X N now req st
      else if hr_method req = HttpGet \<and> (hr_url req = ''/'' \<or> hr_url req = ''/index.html'') then ((200, HtmlBody (explorer_html X)), st)
      else if hr_method req = HttpGet \<and> hr_url req = ''/healthz'' then ((200, JsonBody (JObj [(''pygrove'', JStr ''v0.1'')])), st)
      else if hr_method req = HttpGet \<and> hr_url req = ''/metrics'' then ((200, TextBody (prometheus_metrics X now st)), st)
      else (json_err 404 ''not found'', st))"

definition http_serve :: "http_ext \<Rightarrow> node_ext \<Rightarrow> (u64 \<times> http_request) list \<Rightarrow> node_state \<Rightarrow> node_state" where
  "http_serve X N reqs st = fold (\<lambda>(now, req) st. snd (serve_request X N now req st)) reqs st"

section \<open>What the server may change\<close>

text \<open>A request changes the state only as one RPC call does, and an oversized body reaches no handler.\<close>

lemma read_bounded_body_Inr:
  assumes "read_bounded_body req mx = Inr b"
  shows "hr_body req = Inr b" "length b \<le> mx"
  using assms
  by (auto simp: read_bounded_body_def read_body_def Let_def split: option.splits if_splits sum.splits)

lemma serve_request_state:
  obtains "snd (serve_request X N now req st) = st"
  | b m v where "hr_method req = HttpPost" "hr_url req = ''/rpc''" "hr_body req = Inr b" "length b \<le> MAX_RPC_BODY_BYTES"
      "parse_rpc_req X b = Inr (m, v)" "snd (serve_request X N now req st) = snd (rpc_dispatch N now (decode_call X m v) st)"
proof (cases "hr_method req = HttpPost \<and> hr_url req = ''/rpc''")
  case True
  then have s: "serve_request X N now req st = serve_rpc X N now req st" by (simp add: serve_request_def)
  show thesis
  proof (cases "read_bounded_body req MAX_RPC_BODY_BYTES")
    case (Inl e)
    then show thesis using s that(1) by (simp add: serve_rpc_def)
  next
    case (Inr b)
    note b = read_bounded_body_Inr [OF Inr]
    show thesis
    proof (cases "parse_rpc_req X b")
      case (Inl e)
      then show thesis using s Inr that(1) by (simp add: serve_rpc_def)
    next
      case p: (Inr mv)
      then show thesis using s Inr True b
        by (intro that(2) [of b "fst mv" "snd mv"]) (simp_all add: serve_rpc_def split_beta)
    qed
  qed
next
  case False
  then show thesis using that(1) by (auto simp: serve_request_def)
qed

text \<open>
  The body limit keeps every block that arrives over HTTP within the length field of the log, for a
  JSON and CBOR encoding that does not expand a request of 64 KiB to 4 GiB.
\<close>

definition http_bounded :: "http_ext \<Rightarrow> node_ext \<Rightarrow> bool" where
  "http_bounded X N \<longleftrightarrow>
     (\<forall>b m v. length b \<le> MAX_RPC_BODY_BYTES \<longrightarrow> parse_rpc_req X b = Inr (m, v) \<longrightarrow> req_fits N (decode_call X m v))"

lemma serve_request_step:
  assumes "http_bounded X N"
  shows "snd (serve_request X N now req st) = st \<or> node_step N st (snd (serve_request X N now req st))"
proof (cases rule: serve_request_state [of X N now req st])
  case (2 b m v)
  then have "req_fits N (decode_call X m v)" using assms by (auto simp: http_bounded_def)
  then show ?thesis using dispatch_step [of N "decode_call X m v" now st] 2(6) by simp
qed simp

lemma http_serve_reach:
  assumes "http_bounded X N"
  shows "node_reach N st (http_serve X N reqs st)"
proof (induction reqs rule: rev_induct)
  case Nil
  then show ?case by (simp add: http_serve_def reach_start)
next
  case (snoc r reqs)
  have "http_serve X N (reqs @ [r]) st = snd (serve_request X N (fst r) (snd r) (http_serve X N reqs st))"
    by (simp add: http_serve_def split_beta)
  then show ?case
    using serve_request_step [OF assms, of "fst r" "snd r" "http_serve X N reqs st"] snoc by (auto intro: reach_step)
qed

text \<open>One request appends at most one block, and its header has the lengths of the Rust type.\<close>

lemma header_from_json_wf: "header_from_json N j = Inr h \<Longrightarrow> header_wf h"
  by (auto simp: header_from_json_def hex32_def bind_sum_def header_wf_def split: sum.splits if_splits)

lemma decode_submit_wf: "decode_submit N r = Inr b \<Longrightarrow> header_wf (header b)"
  by (auto simp: decode_submit_def bind_sum_def header_from_json_wf split: sum.splits if_splits)

lemma dispatch_store:
  assumes "\<And>r. req \<noteq> SubmitBlock r"
  shows "ns_store (snd (rpc_dispatch N now req st)) = ns_store st"
  using assms
  by (cases req) (auto simp: rpc_submit_tx_def rpc_submit_transfer_def pool_add_def split_beta split: sum.split option.split)

lemma serve_request_appends:
  assumes X: "http_bounded X N" and i: "node_inv N st bs"
  shows "\<exists>new. cs_inv (block_c N) (ns_store (snd (serve_request X N now req st))) (bs @ new) \<and> length new \<le> 1 \<and>
    (\<forall>b \<in> set new. header_wf (header b))"
proof -
  have cs: "cs_inv (block_c N) (ns_store st) bs" using i by (simp add: node_inv_def)
  have none: ?thesis if "ns_store (snd (serve_request X N now req st)) = ns_store st"
    using that cs by (intro exI [of _ "[]"]) simp
  show ?thesis
  proof (cases rule: serve_request_state [of X N now req st])
    case 1
    then show ?thesis using none by simp
  next
    case (2 b m v)
    show ?thesis
    proof (cases "\<exists>r. decode_call X m v = SubmitBlock r")
      case False
      then show ?thesis using none dispatch_store 2(6) by metis
    next
      case True
      then obtain r where r: "decode_call X m v = SubmitBlock r" by blast
      show ?thesis
      proof (cases "decode_submit N r")
        case (Inl e)
        then show ?thesis using none 2(6) r by (simp add: rpc_submit_def)
      next
        case (Inr blk)
        have fits: "fits_log (block_c N) blk" using X 2(4,5) r Inr unfolding http_bounded_def req_fits_def by fastforce
        have s: "snd (serve_request X N now req st) = snd (try_apply_block N now st blk)"
          using 2(6) r by (simp add: rpc_submit_def Inr split_beta split: sum.split)
        show ?thesis
        proof (cases "fst (try_apply_block N now st blk) = Inr ()")
          case True
          from try_apply_block_inv(1) [OF i fits True] show ?thesis
            using decode_submit_wf [OF Inr] s by (intro exI [of _ "[blk]"]) (simp add: node_inv_def)
        next
          case False
          from try_apply_block_inv(2) [OF i fits False] show ?thesis
            using s by (intro exI [of _ "[]"]) (simp add: node_inv_def)
        qed
      qed
    qed
  qed
qed

section \<open>Round trip of a template\<close>

lemma num_field_jword [simp]: "map_of kvs k = Some (JNum (uint w)) \<Longrightarrow> num_field kvs k = Some w"
  using uint_bounded [of w] by (simp add: num_field_def)

lemma all_strings_map [simp]: "all_strings (map JStr ss) = Some ss"
  by (induction ss) simp_all

lemma reparse_strings [simp]: "map reparse (map JStr ss) = map JStr ss"
  by (induction ss) simp_all

lemma reparse_word: "LENGTH('a::len) \<le> 64 \<Longrightarrow> reparse (jword (w :: 'a word)) = jword w"
proof -
  assume "LENGTH('a) \<le> 64"
  then have "(2 :: int) ^ LENGTH('a) \<le> 2 ^ 64" by (intro power_increasing) simp_all
  moreover have "uint w < 2 ^ LENGTH('a)" by (rule uint_bounded)
  ultimately have "uint w < 2 ^ 64" by linarith
  moreover have "- (2 ^ 63) \<le> uint w" by (rule order_trans [OF _ uint_ge_0]) simp
  ultimately show ?thesis by (simp add: jword_def)
qed

lemma reparse_header: "reparse (header_value h) = header_value h"
  by (simp add: header_value_def reparse_word)

lemma value_header_value: "value_header (header_value h) = Some h"
  by (simp add: value_header_def header_value_def fields_of_def jword_def str_field_def)

text \<open>What a client that fills in a nonce and sends a template back submits.\<close>

definition submit_value :: "submit_req \<Rightarrow> json" where
  "submit_value r = JObj
     [(''header'', header_value (sr_header r)), (''txs_cbor_hex'', JArr (map JStr (sr_txs_cbor_hex r))),
      (''witnesses_cbor_hex'', JArr (map JStr (sr_witnesses_cbor_hex r)))]"

lemma submit_value_roundtrip: "decode_call X ''submit_block'' (reparse (submit_value r)) = SubmitBlock r"
  by (simp add: decode_call_def submit_value_def value_submit_def reparse_header value_header_value fields_of_def
      strings_field_def Let_def del: map_map)

end
