(* ===== verification/Instance_Node.thy ===== *)
theory Instance_Node
  imports Instance Node_Live Claims_Core Http
begin

text \<open>
  A concrete node on the instance of the external code: a genesis file, the log that holds the
  genesis block, the state the node starts in, and the block its miner builds next.
\<close>

definition demo_node_ext :: node_ext where
  "demo_node_ext = \<lparr> nx = demo_ext, hex_encode = map (\<lambda>b. char_of (unat b)),
     hex_decode = (\<lambda>s. Inr (map (\<lambda>c. of_nat (of_char c)) s)),
     block_c = wire_codec w_block, tx_c = wire_codec w_tx, wit_c = wire_codec w_witness \<rparr>"

lemma demo_node_fields [simp]:
  "nx demo_node_ext = demo_ext" "block_c demo_node_ext = wire_codec w_block"
  "tx_c demo_node_ext = wire_codec w_tx" "wit_c demo_node_ext = wire_codec w_witness"
  by (simp_all add: demo_node_ext_def)

lemma demo_hex_ok: "hex_ok demo_node_ext"
proof -
  have "map ((\<lambda>c. of_nat (of_char c) :: u8) \<circ> (\<lambda>b. char_of (unat b))) data = data" for data
    using byte_lt by (intro map_idI) simp
  then show ?thesis by (simp add: hex_ok_def demo_node_ext_def)
qed

lemma demo_codecs_ok:
  "codec_ok (block_c demo_node_ext)" "codec_ok (tx_c demo_node_ext)" "codec_ok (wit_c demo_node_ext)"
  by (simp_all add: wire_codec_ok wire_block wire_tx wire_witness)

lemma demo_fits:
  assumes "header_wf (header b)" "txs (body b) = []" "witnesses (body b) = []"
  shows "fits_log (block_c demo_node_ext) b"
  using length_w_block [OF assms] by (simp add: fits_log_def wire_codec_def)

lemma demo_pow: "meets_target (hash_header demo_hash h) (target_from_bits 0x1f00ffff)"
proof -
  have r: "replicate 4 0 = [0, 0, 0, 0 :: u8]" "replicate 2 0 = [0, 0 :: u8]" by (simp_all add: eval_nat_numeral)
  show ?thesis
    by (simp add: hash_header_def hash_with_domain_def demo_hash_def target_genesis_bits truncate_to_32_def Let_def r)
qed

section \<open>Genesis\<close>

definition demo_genesis :: genesis where
  "demo_genesis = \<lparr> g_chain_id = ''demo'', g_genesis_time_ms = 1000, g_initial_bits = 0x1f00ffff,
     g_target_block_time_ms = 600000, g_retarget_interval = 2016, g_halving_interval_base = 210000,
     g_seconds_per_halving = default_seconds_per_halving, g_initial_reward_sat = 5000000000,
     g_asert_tau_ms = default_asert_tau, g_bootstrap_asert_tau_ms = default_bootstrap_asert_tau,
     g_bootstrap_height = default_bootstrap_height, g_bootstrap_reward_pct = default_bootstrap_reward_pct,
     g_max_reward_pct_change_per_block = default_max_reward_pct_change_per_block,
     g_max_bits_pct_change_per_block = default_max_bits_pct_change_per_block,
     g_stability_window_blocks = 144, g_sybil_dust_floor_sat = 0, g_sybil_min_age_blocks = 0,
     g_sybil_require_paid_fee = False, g_sig_algo = 3, g_hash_algo = 1, g_governance_pubkey_hex = [],
     g_genesis_headline_hex = [], g_initial_accounts = [], g_genesis_committee = [],
     g_genesis_committee_threshold = 0, g_genesis_committee_epoch = 0 \<rparr>"

definition demo_genesis_block :: block where
  "demo_genesis_block = \<lparr> header = genesis_template demo_node_ext demo_genesis, body = empty_body \<rparr>"

lemma demo_template_bits: "bits (genesis_template demo_node_ext demo_genesis) = 0x1f00ffff"
  by (simp add: genesis_template_def template_from_parent_def template_from_parent_with_body_def demo_genesis_def)

lemma demo_genesis_mined: "mine_inline demo_hash (genesis_template demo_node_ext demo_genesis) = Some demo_genesis_block"
  using demo_pow by (subst mine_inline_def) (subst mine_loop_unfold, simp add: demo_template_bits demo_genesis_block_def)

lemma demo_blake3_length: "length (blake3 demo_hash b) = 32"
  using demo_hash_ok by (simp add: hash_ok_def)

lemma demo_genesis_header:
  "header_wf (header demo_genesis_block)" "height (header demo_genesis_block) = 0"
  "timestamp_ms (header demo_genesis_block) = 1000" "bits (header demo_genesis_block) = 0x1f00ffff"
  "txs (body demo_genesis_block) = []" "witnesses (body demo_genesis_block) = []"
  by (simp_all add: demo_genesis_block_def genesis_template_def template_from_parent_def
      template_from_parent_with_body_def empty_body_def header_wf_def tx_root_def witness_root_def vec_root_def
      demo_blake3_length length_headline) (simp_all add: demo_genesis_def)

definition demo_log :: bytes where
  "demo_log = log_entry (ser w_block demo_genesis_block)"

lemma demo_log: "log_of (block_c demo_node_ext) [demo_genesis_block] = Some demo_log"
  using demo_fits [OF demo_genesis_header(1,5,6)] by (simp add: fits_log_def demo_log_def wire_codec_def)

lemma demo_genesis_state: "genesis_state demo_node_ext demo_genesis = Inr mem_new"
  by (simp add: genesis_state_def demo_genesis_def)

section \<open>The running node\<close>

lemma demo_start:
  obtains st where "cmd_run demo_node_ext demo_genesis None (Some demo_log) = Inr st"
    "chain_ok demo_node_ext st [demo_genesis_block]" "ns_bits st = 0x1f00ffff" "ns_minted_so_far st = 0"
    "cs_tip (ns_store st) = Some demo_genesis_block" "pool (ns_mempool st) = []" "length (ns_coinbase st) = 32"
    "ns_genesis_time_ms st = 1000" "ns_target_block_time_ms st = 600000" "ns_emission st = genesis_emission demo_genesis"
    "ns_bootstrap_asert_tau_ms st = default_bootstrap_asert_tau" "ns_asert_tau_ms st = default_asert_tau"
    "from_coinbase (ns_coinbase st) = replicate 20 0"
    "\<And>i. pubkey (load_or_default (node_ops demo_node_ext) (nx demo_node_ext) (ns_state st) i) = []"
proof -
  let ?N = demo_node_ext and ?g = demo_genesis and ?b = demo_genesis_block
  obtain store where s: "cs_inv (block_c ?N) store [?b]"
    "cmd_run ?N ?g None (Some demo_log) =
      (case replay ?N (genesis_emission ?g) (g_genesis_time_ms ?g) [?b] [?b] mem_new 0 None of
         Inl e \<Rightarrow> Inl e
       | Inr (mem, minted, prev) \<Rightarrow> Inr (node_start ?N ?g None store mem minted prev))"
    by (rule cmd_run_log [OF demo_codecs_ok(1) demo_log _ demo_genesis_state, of None]) simp_all
  have r: "current_reward_with_height (genesis_emission ?g) 1000 1000 (replay_parent_ts 1000 [?b] ?b) 0 0 None = Some 0"
    by (simp add: current_reward_with_height_def)
  have "unat (balance (load_or_default (node_ops ?N) (nx ?N) mem_new i)) + unat (0 :: u128) < 2 ^ 128" for i
    using genesis_state_ok(2) [OF demo_genesis_state] by (simp add: default_account_def)
  then obtain out mem where a: "apply_block (node_ops ?N) (nx ?N) mem_new ?b 0 = (Inr out, mem)"
    using empty_block_applies [OF demo_genesis_header(5), of "nx ?N" "node_ops ?N" mem_new 0] wire_cbor_ok(5) by auto
  have pk: "pubkey (load_or_default (node_ops ?N) (nx ?N) mem i) = []" for i
  proof -
    have K: "account_codec_ok (kx (nx ?N))" using wire_cbor_ok(1) by simp
    obtain fees staged B1 where "validate_all (node_ops ?N) (nx ?N) mem_new (witnesses (body ?b)) 0 (txs (body ?b)) 0 = Inr (fees, staged)"
      "ledger_run (load_or_default (node_ops ?N) (nx ?N) mem_new) staged = Some B1"
      "load_or_default (node_ops ?N) (nx ?N) mem =
        (let m = from_coinbase (coinbase (header ?b)) in B1(m := (B1 m)\<lparr>balance := balance (B1 m) + coinbase_minted_sat out\<rparr>))"
      by (rule mem.apply_block_ledger [OF K genesis_state_ok(1) [OF demo_genesis_state] a])
    then show ?thesis
      using genesis_state_ok(2) [OF demo_genesis_state] by (auto simp: demo_genesis_header Let_def default_account_def)
  qed
  have "replay ?N (genesis_emission ?g) (g_genesis_time_ms ?g) [?b] [?b] mem_new 0 None = Inr (mem, 0, Some 0)"
    using r a by (simp add: demo_genesis_header) (simp add: demo_genesis_def demo_genesis_header sat_add_def)
  then have c: "cmd_run ?N ?g None (Some demo_log) = Inr (node_start ?N ?g None store mem 0 (Some 0))"
    using s(2) by simp
  show thesis
  proof (rule that [OF c])
    show "chain_ok ?N (node_start ?N ?g None store mem 0 (Some 0)) [?b]"
      by (simp add: chain_ok_def demo_genesis_header node_start_def) (simp add: demo_genesis_def)
    show "length (ns_coinbase (node_start ?N ?g None store mem 0 (Some 0))) = 32"
      by (simp add: node_start_def node_coinbase_def Let_def length_headline)
    show "from_coinbase (ns_coinbase (node_start ?N ?g None store mem 0 (Some 0))) = replicate 20 0"
      by (simp add: node_start_def node_coinbase_def Let_def headline_bytes_def from_coinbase_def ACCOUNT_ID_LEN_def)
        (simp add: demo_genesis_def)
    show "pubkey (load_or_default (node_ops ?N) (nx ?N) (ns_state (node_start ?N ?g None store mem 0 (Some 0))) i) = []" for i
      using pk by (simp add: node_start_def)
    show "cs_tip (ns_store (node_start ?N ?g None store mem 0 (Some 0))) = Some ?b"
      using s(1) by (simp add: node_start_def cs_inv_def)
  qed (simp_all add: node_start_def mempool_new_def demo_genesis_def)
qed

text \<open>A block exactly on schedule keeps the bits.\<close>

lemma demo_next_bits: "next_bits_from_parent 0x1f00ffff 0 1000 601000 600000 2016 default_bootstrap_asert_tau default_asert_tau = Some 0x1f00ffff"
  by (rule next_bits_band [OF genesis_bits_ok genesis_bits_canonical, of 0 2016 default_bootstrap_asert_tau default_asert_tau 1000 601000 600000])
    (simp_all add: tau_for_def drift_ms_def default_bootstrap_asert_tau_def default_asert_tau_def)

lemma demo_expected_bits:
  assumes "ns_emission st = genesis_emission demo_genesis" "ns_target_block_time_ms st = 600000"
    "ns_bootstrap_asert_tau_ms st = default_bootstrap_asert_tau" "ns_asert_tau_ms st = default_asert_tau"
  shows "expected_bits st 0x1f00ffff 0 1000 601000 = Some 0x1f00ffff"
  using demo_next_bits assms
  by (simp add: expected_bits_def genesis_emission_def) (simp add: demo_genesis_def default_bootstrap_height_def)

lemma demo_candidate:
  assumes "cs_tip (ns_store st) = Some demo_genesis_block" "expected_bits st 0x1f00ffff 0 1000 601000 = Some 0x1f00ffff"
    "ns_genesis_time_ms st = 1000" "length (ns_coinbase st) = 32"
  obtains blk where "miner_candidate demo_node_ext 601000 601000 st = Some (Inr blk)" "bits (header blk) = 0x1f00ffff"
    "header_wf (header (with_nonce blk n))"
proof -
  have h: "length (hash_header demo_hash k) = 32" for k using demo_hash_ok by simp
  obtain blk where blk: "miner_candidate demo_node_ext 601000 601000 st = Some (Inr blk)"
    "header blk = template_from_parent_with_body demo_hash (hash_header demo_hash (header demo_genesis_block)) 0
       0x1f00ffff (ns_coinbase st) (ns_sig_algo st) (ns_hash_algo st) 601000 (pool_body demo_node_ext st)"
    using assms(1-3) by (simp add: miner_candidate_def demo_genesis_header Let_def)
  show thesis
    by (rule that [OF blk(1)])
      (simp_all add: with_nonce_def blk(2) template_from_parent_with_body_def header_wf_def tx_root_def witness_root_def vec_root_def
        demo_blake3_length assms(4) h)
qed

lemma demo_emission_bound:
  "unat (supply_cap_sat (genesis_emission demo_genesis)) + 99 * unat (initial_reward_sat (genesis_emission demo_genesis)) < 2 ^ 128"
  by (simp add: genesis_emission_def demo_genesis_def)

text \<open>The node after its miner has added one block.\<close>

lemma demo_mined:
  obtains st blk st' where "cmd_run demo_node_ext demo_genesis None (Some demo_log) = Inr st"
    "chain_ok demo_node_ext st [demo_genesis_block]"
    "try_apply_block demo_node_ext 601000 st blk = (Inr (), st')" "fits_log (block_c demo_node_ext) blk"
    "node_clean demo_node_ext st st'"
    "cs_load_all (block_c demo_node_ext) (ns_store st') = Inr [demo_genesis_block, blk]"
    "node_inv demo_node_ext st [demo_genesis_block]" "header_wf (header blk)" "body blk = \<lparr> txs = [], witnesses = [] \<rparr>"
proof -
  let ?N = demo_node_ext
  obtain st where st: "cmd_run ?N demo_genesis None (Some demo_log) = Inr st" "chain_ok ?N st [demo_genesis_block]"
    and f: "cs_tip (ns_store st) = Some demo_genesis_block" "pool (ns_mempool st) = []" "length (ns_coinbase st) = 32"
    "ns_genesis_time_ms st = 1000" "ns_target_block_time_ms st = 600000" "ns_emission st = genesis_emission demo_genesis"
    "ns_bootstrap_asert_tau_ms st = default_bootstrap_asert_tau" "ns_asert_tau_ms st = default_asert_tau"
    by (rule demo_start)
  obtain mem0 where m: "genesis_state ?N demo_genesis = Inr mem0" "node_inv ?N st [demo_genesis_block]"
    "replayed ?N mem0 st [demo_genesis_block]" by (rule start_inv [OF demo_codecs_ok(1) demo_log st])
  obtain blk where blk: "miner_candidate ?N 601000 601000 st = Some (Inr blk)" "bits (header blk) = 0x1f00ffff"
    "header_wf (header (with_nonce blk 0))"
    by (rule demo_candidate [OF f(1) demo_expected_bits [OF f(6,5,7,8)] f(4,3)])
  have bd: "body (with_nonce blk 0) = \<lparr> txs = [], witnesses = [] \<rparr>"
    using candidate_fields [OF blk(1)] f(2) by (simp add: pool_body_def pull_for_block_def)
  then have fits: "fits_log (block_c ?N) (with_nonce blk 0)"
    by (intro demo_fits [OF blk(3)]) simp_all
  have acc: "fst (try_apply_block ?N 601000 st (with_nonce blk 0)) = Inr ()"
    by (rule self_mined_accepted [OF _ _ m(1) _ m(2) _ m(3) f(2) blk(1) _ _ _ _ fits])
      (use f demo_emission_bound wire_cbor_ok demo_pow in
        \<open>simp_all add: blk(2) demo_genesis_header FUTURE_TIME_TOLERANCE_MS_def\<close>)
  let ?st = "snd (try_apply_block ?N 601000 st (with_nonce blk 0))"
  have t: "try_apply_block ?N 601000 st (with_nonce blk 0) = (Inr (), ?st)" using acc by (metis prod.collapse)
  have "node_clean ?N st ?st" by (rule clean_block [OF clean_start fits]) (simp add: acc)
  moreover have "cs_inv (block_c ?N) (ns_store ?st) [demo_genesis_block, with_nonce blk 0]"
    using try_apply_block_inv(1) [OF m(2) fits acc] by (simp add: node_inv_def)
  ultimately show thesis using cs_load_all_inv [OF demo_codecs_ok(1)] m(2) blk(3) bd by (intro that [OF st t fits]) simp_all
qed

text \<open>Two blocks on the same tip that can be applied one after the other.\<close>

lemma demo_pair:
  obtains st a b r oa sa ob sb where "node_inv demo_node_ext st [demo_genesis_block]"
    "check_block demo_node_ext 601000 st a = Inr ()" "next_reward st (header a) = Some r"
    "apply_block (node_ops demo_node_ext) (nx demo_node_ext) (ns_state st) a r = (Inr oa, sa)" "fits_log (block_c demo_node_ext) a"
    "check_block demo_node_ext 601000 st b = Inr ()" "next_reward st (header b) = Some r"
    "apply_block (node_ops demo_node_ext) (nx demo_node_ext) sa b r = (Inr ob, sb)" "fits_log (block_c demo_node_ext) b"
proof -
  let ?N = demo_node_ext
  obtain st where st: "cmd_run ?N demo_genesis None (Some demo_log) = Inr st" "chain_ok ?N st [demo_genesis_block]"
    and f: "cs_tip (ns_store st) = Some demo_genesis_block" "pool (ns_mempool st) = []" "length (ns_coinbase st) = 32"
    "ns_genesis_time_ms st = 1000" "ns_target_block_time_ms st = 600000" "ns_emission st = genesis_emission demo_genesis"
    "ns_bootstrap_asert_tau_ms st = default_bootstrap_asert_tau" "ns_asert_tau_ms st = default_asert_tau"
    "ns_minted_so_far st = 0"
    by (rule demo_start)
  obtain mem0 where m: "genesis_state ?N demo_genesis = Inr mem0" "node_inv ?N st [demo_genesis_block]"
    "replayed ?N mem0 st [demo_genesis_block]" by (rule start_inv [OF demo_codecs_ok(1) demo_log st])
  obtain blk where blk: "miner_candidate ?N 601000 601000 st = Some (Inr blk)" "bits (header blk) = 0x1f00ffff"
    "header_wf (header (with_nonce blk 0))"
    by (rule demo_candidate [OF f(1) demo_expected_bits [OF f(6,5,7,8)] f(4,3)])
  define B where "B n = with_nonce blk n" for n
  have wf: "header_wf (header (B n))" for n using blk(3) by (simp add: B_def with_nonce_def header_wf_def)
  have bd: "txs (body (B n)) = []" "witnesses (body (B n)) = []" for n
    using candidate_fields [OF blk(1), of n] f(2) by (simp_all add: B_def pool_body_def pull_for_block_def)
  have fits: "fits_log (block_c ?N) (B n)" for n by (rule demo_fits [OF wf bd])
  have chk: "check_block ?N 601000 st (B n) = Inr ()" for n
    unfolding B_def
    by (rule candidate_checks [OF blk(1) f(1)]) (use demo_pow in \<open>simp_all add: blk(2) f demo_genesis_header FUTURE_TIME_TOLERANCE_MS_def\<close>)
  obtain r where r: "next_reward st (header (B 0)) = Some r" unfolding next_reward_def Let_def by (rule reward_defined)
  have r1: "next_reward st (header (B 1)) = Some r" using r by (simp add: next_reward_def B_def with_nonce_def)
  have acc: "fst (try_apply_block ?N 601000 st (B 0)) = Inr ()"
    unfolding B_def
    by (rule self_mined_accepted [OF _ _ m(1) _ m(2) _ m(3) f(2) blk(1) _ _ _ _ fits [unfolded B_def]])
      (use f demo_emission_bound wire_cbor_ok demo_pow in
        \<open>simp_all add: blk(2) demo_genesis_header FUTURE_TIME_TOLERANCE_MS_def\<close>)
  obtain oa sa where a: "apply_block (node_ops ?N) (nx ?N) (ns_state st) (B 0) r = (Inr oa, sa)"
    using acc chk [of 0] r by (auto simp: try_apply_block_def split: prod.splits sum.splits)
  have small: "unat (balance (load_or_default (node_ops ?N) (nx ?N) sa i)) + unat r < 2 ^ 128" for i
  proof -
    have z: "sat_add 0 r = r" using unsigned_less [of r, where ?'a = nat] by (simp add: sat_add_def)
    define st1 where "st1 = snd (try_apply_block ?N 601000 st (B 0))"
    obtain cs where "cs_append (block_c ?N) (ns_store st) (B 0) = (Inr (), cs)"
      using cs_append_inv(1) [OF _ fits] m(2) unfolding node_inv_def by (metis prod.collapse)
    then have s1: "ns_state st1 = sa" "ns_minted_so_far st1 = r" "ns_emission st1 = ns_emission st"
      using chk [of 0] r a f(9) z by (simp_all add: st1_def try_apply_block_def commit_block_def Let_def)
    let ?A = "insert i (chain_accounts [demo_genesis_block, B 0])"
    have i1: "chain_ok ?N st1 [demo_genesis_block, B 0]"
      using try_apply_block_inv(1) [OF m(2) fits acc] by (simp add: st1_def node_inv_def)
    have "replayed ?N mem0 st1 [demo_genesis_block, B 0]"
      using replayed_accept [OF m(2,3) _ fits acc] by (simp add: st1_def)
    note rep = this [unfolded replayed_def s1 f(6)]
    have fin: "finite ?A" using bd(1) [of 0]
      by (simp add: chain_accounts_def block_accounts_def senders_def recipients_def demo_genesis_header)
    have K: "account_codec_ok (kx (nx ?N))" using wire_cbor_ok(1) by simp
    from replay_supply [OF K genesis_state_ok [OF m(1)] demo_emission_bound i1 _ fin subset_insertI rep]
    have t: "total ?A (load_or_default (node_ops ?N) (nx ?N) sa) = unat r"
      "\<exists>y t. emission_potential (genesis_emission demo_genesis) (unat r) y (unat (scheduled_supply_at t (genesis_emission demo_genesis)))"
      by auto
    have "unat r \<le> unat (supply_cap_sat (genesis_emission demo_genesis)) + 99 * unat (initial_reward_sat (genesis_emission demo_genesis))"
      using t(2) potential_bound(1) [OF _ scheduled_supply_cap] by metis
    also have "\<dots> < 2 ^ 127" by (simp add: genesis_emission_def demo_genesis_def)
    finally have "unat r < 2 ^ 127" .
    moreover have "unat (balance (load_or_default (node_ops ?N) (nx ?N) sa i)) \<le> unat r"
      using total_ge [OF fin, of i] t(1) by (metis insertI1)
    ultimately show ?thesis by simp
  qed
  obtain ob sb where b: "apply_block (node_ops ?N) (nx ?N) sa (B 1) r = (Inr ob, sb)"
    using empty_block_applies [OF bd(1) _ small] wire_cbor_ok(5) by force
  show thesis by (rule that [OF m(2) chk r a fits chk r1 b fits])
qed

section \<open>Requests over HTTP\<close>

definition demo_http :: http_ext where
  "demo_http = \<lparr> parse_rpc_req = (\<lambda>b. if b = [1] then Inr (''get_template'', JNull) else if b = [2] then Inr (''get_mempool'', JNull)
       else Inl ''expected value''),
     params_error = (\<lambda>m v. ''missing field''), error_text = (\<lambda>e. ''error''), explorer_html = ''<html>'', pkg_version = ''0.1.0'', git_sha = ''unknown'' \<rparr>"

definition demo_post :: "bytes \<Rightarrow> http_request" where
  "demo_post b = \<lparr> hr_method = HttpPost, hr_url = ''/rpc'', hr_body_length = None, hr_body = Inr b \<rparr>"

lemma demo_http_bounded: "http_bounded demo_http N"
  by (auto simp: http_bounded_def demo_http_def decode_call_def req_fits_def Let_def split: if_splits)

end
