(* ===== verification/Node_Race.thy ===== *)
theory Node_Race
  imports Node_Live
begin

text \<open>
  Two threads in \<open>try_apply_block\<close>: the RPC server and the self-miner share the node, and the
  function holds no lock from its checks to its append. An attempt is split at the points where
  a lock is released, into check, apply and commit; an uninterrupted attempt is
  \<open>try_apply_block\<close>, and a schedule interleaves the steps of two attempts.
\<close>

section \<open>Attempts\<close>

datatype stage =
    Waiting
  | Checked u128 u128
  | Applied u128 u128
  | Finished "node_error + unit"

record attempt =
  at_now :: u64
  at_block :: block
  at_stage :: stage

definition attempt_step :: "node_ext \<Rightarrow> node_state \<Rightarrow> attempt \<Rightarrow> node_state \<times> attempt" where
  "attempt_step N st x =
     (case at_stage x of
        Waiting \<Rightarrow>
          (case check_block N (at_now x) st (at_block x) of
             Inl e \<Rightarrow> (st, x\<lparr>at_stage := Finished (Inl e)\<rparr>)
           | Inr u \<Rightarrow>
               (case next_reward st (header (at_block x)) of
                  None \<Rightarrow> (st, x\<lparr>at_stage := Finished (Inl Panicked)\<rparr>)
                | Some reward \<Rightarrow> (st, x\<lparr>at_stage := Checked reward (ns_minted_so_far st)\<rparr>)))
      | Checked reward minted \<Rightarrow>
          (case apply_block (node_ops N) (nx N) (ns_state st) (at_block x) reward of
             (Inl e, s) \<Rightarrow> (st\<lparr>ns_state := s\<rparr>, x\<lparr>at_stage := Finished (Inl (ApplyFailed e))\<rparr>)
           | (Inr out, s) \<Rightarrow> (st\<lparr>ns_state := s\<rparr>, x\<lparr>at_stage := Applied reward minted\<rparr>))
      | Applied reward minted \<Rightarrow>
          (let (r, st') = commit_block N st (at_block x) minted reward in (st', x\<lparr>at_stage := Finished r\<rparr>))
      | Finished r \<Rightarrow> (st, x))"

definition new_attempt :: "u64 \<Rightarrow> block \<Rightarrow> attempt" where
  "new_attempt now blk = \<lparr> at_now = now, at_block = blk, at_stage = Waiting \<rparr>"

text \<open>A schedule of two threads: \<open>True\<close> lets the first one step.\<close>

fun race_run :: "node_ext \<Rightarrow> bool list \<Rightarrow> node_state \<Rightarrow> attempt \<Rightarrow> attempt \<Rightarrow> node_state \<times> attempt \<times> attempt" where
  "race_run N [] st x y = (st, x, y)"
| "race_run N (True # sched) st x y = (let (st, x) = attempt_step N st x in race_run N sched st x y)"
| "race_run N (False # sched) st x y = (let (st, y) = attempt_step N st y in race_run N sched st x y)"

section \<open>Uninterrupted attempts\<close>

lemma attempt_finished: "at_stage x = Finished r \<Longrightarrow> attempt_step N st x = (st, x)"
  by (simp add: attempt_step_def)

lemma attempt_alone:
  "race_run N [True, True, True] st (new_attempt now blk) y =
     (snd (try_apply_block N now st blk),
      \<lparr> at_now = now, at_block = blk, at_stage = Finished (fst (try_apply_block N now st blk)) \<rparr>, y)"
proof (cases "check_block N now st blk")
  case (Inl e)
  then show ?thesis by (simp add: new_attempt_def attempt_step_def try_apply_block_def)
next
  case (Inr u)
  show ?thesis
  proof (cases "next_reward st (header blk)")
    case None
    then show ?thesis using Inr by (simp add: new_attempt_def attempt_step_def try_apply_block_def)
  next
    case (Some r)
    obtain res s where a: "apply_block (node_ops N) (nx N) (ns_state st) blk r = (res, s)" by fastforce
    show ?thesis using Inr Some a
      by (cases res) (simp_all add: new_attempt_def attempt_step_def try_apply_block_def split_beta)
  qed
qed

section \<open>A race\<close>

lemma race_both_accepted:
  assumes inv: "node_inv N st bs"
    and a: "check_block N now st a = Inr ()" "next_reward st (header a) = Some ra"
      "apply_block (node_ops N) (nx N) (ns_state st) a ra = (Inr oa, sa)" "fits_log (block_c N) a"
    and b: "check_block N now' st b = Inr ()" "next_reward st (header b) = Some rb"
      "apply_block (node_ops N) (nx N) sa b rb = (Inr ob, sb)" "fits_log (block_c N) b"
  obtains st' where
    "race_run N [True, False, True, True, False, False] st (new_attempt now a) (new_attempt now' b) =
       (st', (new_attempt now a)\<lparr>at_stage := Finished (Inr ())\<rparr>, (new_attempt now' b)\<lparr>at_stage := Finished (Inr ())\<rparr>)"
    "cs_inv (block_c N) (ns_store st') (bs @ [a, b])" "ns_minted_so_far st' = sat_add (ns_minted_so_far st) rb"
    "ns_state st' = sb"
proof -
  have i: "cs_inv (block_c N) (ns_store st) bs" using inv by (simp add: node_inv_def)
  define c1 where "c1 = snd (cs_append (block_c N) (ns_store st) a)"
  have e1: "cs_append (block_c N) (ns_store st) a = (Inr (), c1)"
    using cs_append_inv(1) [OF i a(4)] unfolding c1_def by (metis prod.collapse)
  have i1: "cs_inv (block_c N) c1 (bs @ [a])" using cs_append_inv(2) [OF i a(4)] by (simp add: c1_def)
  define c2 where "c2 = snd (cs_append (block_c N) c1 b)"
  have e2: "cs_append (block_c N) c1 b = (Inr (), c2)"
    using cs_append_inv(1) [OF i1 b(4)] unfolding c2_def by (metis prod.collapse)
  have i2: "cs_inv (block_c N) c2 (bs @ [a, b])" using cs_append_inv(2) [OF i1 b(4)] by (simp add: c2_def)
  show thesis
    by (rule that [rotated, of "st\<lparr>ns_state := sb, ns_minted_so_far := sat_add (ns_minted_so_far st) rb, ns_prev_reward_sat := Some rb,
          ns_mempool := mempool_confirm (mempool_confirm (ns_mempool st) (map (body_hash (node_hash N)) (txs (body a))))
            (map (body_hash (node_hash N)) (txs (body b))), ns_store := c2\<rparr>"])
      (simp_all add: i2 new_attempt_def attempt_step_def a b commit_block_def e1 e2 Let_def)
qed

lemma same_tip_not_chain:
  assumes "check_block N now st a = Inr ()" "check_block N now' st b = Inr ()" "cs_tip (ns_store st) = Some t"
  shows "\<not> chain_ok N st' (bs @ [a, b])"
proof
  assume "chain_ok N st' (bs @ [a, b])"
  then have "chain_ok N st' ((bs @ [a]) @ [b])" by simp
  then have "child_ok N st' (last (bs @ [a])) b" by (subst (asm) chain_ok_snoc) simp_all
  then have "height (header b) = height (header a) + 1" by (simp add: child_ok_def)
  moreover have "height (header a) = height (header b)"
    using check_block_Inr(1) [OF assms(1,3)] check_block_Inr(1) [OF assms(2,3)] by (simp add: child_ok_def)
  ultimately show False by simp
qed

end
