(* ===== verification/Node_Main.thy ===== *)
theory Node_Main
  imports Node_Live
begin

text \<open>
  The program \<open>pygrove-node\<close> as it is started: \<open>Genesis::load\<close> of \<open>crates/node/src/genesis.rs\<close>, the
  clock of \<open>mining.rs\<close>, and the subcommands and \<open>main\<close> of \<open>main.rs\<close> with their files. The argument
  parser and the TOML parser are third-party code: a command is a value, the TOML parser a parameter.
\<close>

section \<open>The clock\<close>

text \<open>Milliseconds since the epoch, \<open>None\<close> for a clock before it; the count is truncated to 64 bits.\<close>

definition now_ms :: "nat option \<Rightarrow> u64" where
  "now_ms since_epoch = (case since_epoch of None \<Rightarrow> 0 | Some d \<Rightarrow> of_nat d)"

section \<open>Files and commands\<close>

text \<open>
  The file system as the node uses it: reading a text file, the parser for it, and the block log of
  a data directory (\<open>None\<close> when there is none).
\<close>

record node_files =
  nf_read_to_string :: "string \<Rightarrow> string + string"
  nf_toml :: "string \<Rightarrow> string + genesis"
  nf_log :: "string \<Rightarrow> bytes option"

definition genesis_load :: "node_files \<Rightarrow> string \<Rightarrow> string + genesis" where
  "genesis_load F path = (case nf_read_to_string F path of Inl e \<Rightarrow> Inl e | Inr s \<Rightarrow> nf_toml F s)"

datatype node_cmd =
    Init (cmd_genesis: string) (cmd_data_dir: string) (cmd_key: string)
  | Run (cmd_mine: bool) (cmd_mine_throttle_ms: u64) (cmd_data_dir: string) (cmd_genesis: string) (cmd_rpc_bind: string)
  | ShowEmission (cmd_data_dir: string) (cmd_genesis: string)
  | ShowReflect (cmd_data_dir: string)

text \<open>What is assumed for options that are not given.\<close>

definition default_init :: node_cmd where
  "default_init = Init ''genesis.toml'' ''./data'' ''miner.key''"

definition default_run :: node_cmd where
  "default_run = Run False 0 ''./data'' ''genesis.toml'' ''0.0.0.0:8545''"

datatype main_error = GenesisFailed string | NodeFailed node_error | LogFailed log_error

text \<open>
  What a command ends in: \<open>init\<close> with the log it wrote and a line on the terminal, \<open>run\<close> in the
  server loop on a state of the node, with the throttle of the self-miner if that runs, the show
  commands with a line.
\<close>

datatype main_result =
    Initialised chain_store string
  | Serving node_state "u64 option" string
  | Printed string

datatype outcome = Exits "main_error + main_result" | Aborts | Searching

definition init_line :: "node_ext \<Rightarrow> chain_store \<Rightarrow> string" where
  "init_line N cs =
     (case cs_tip cs of
        None \<Rightarrow> []
      | Some b \<Rightarrow> ''genesis: height=0 nonce='' @ show_nat (unat (nonce (header b))) @
                  '' hash='' @ hex_encode N (hash_header (node_hash N) (header b)))"

section \<open>The program\<close>

definition with_genesis :: "node_files \<Rightarrow> string \<Rightarrow> (genesis \<Rightarrow> outcome) \<Rightarrow> outcome" where
  "with_genesis F path k = (case genesis_load F path of Inl e \<Rightarrow> Exits (Inl (GenesisFailed e)) | Inr g \<Rightarrow> k g)"

fun node_main :: "node_ext \<Rightarrow> string option \<Rightarrow> node_files \<Rightarrow> node_cmd \<Rightarrow> outcome" where
  "node_main N treasury F (Init genesis data_dir key) =
     with_genesis F genesis (\<lambda>g.
       case cmd_init N g (nf_log F data_dir) of
         None \<Rightarrow> Searching
       | Some (Inl e) \<Rightarrow> Exits (Inl (NodeFailed e))
       | Some (Inr cs) \<Rightarrow> Exits (Inr (Initialised cs (init_line N cs))))"
| "node_main N treasury F (Run mine throttle data_dir genesis rpc_bind) =
     with_genesis F genesis (\<lambda>g.
       case cmd_run N g treasury (nf_log F data_dir) of
         Inl e \<Rightarrow> Exits (Inl (NodeFailed e))
       | Inr st \<Rightarrow> Exits (Inr (Serving st (if mine then Some throttle else None) rpc_bind)))"
| "node_main N treasury F (ShowEmission data_dir genesis) =
     with_genesis F genesis (\<lambda>g.
       case cmd_show_emission N g (nf_log F data_dir) of
         None \<Rightarrow> Aborts
       | Some (Inl e) \<Rightarrow> Exits (Inl (LogFailed e))
       | Some (Inr (h, hv, reward)) \<Rightarrow>
           Exits (Inr (Printed (''height='' @ show_nat (unat h) @ ''  halvings='' @ show_nat (unat hv) @
             ''  reward_sat='' @ show_nat (unat reward)))))"
| "node_main N treasury F (ShowReflect data_dir) =
     (case cmd_show_reflect N (nf_log F data_dir) of
        Inl e \<Rightarrow> Exits (Inl (LogFailed e))
      | Inr n \<Rightarrow> Exits (Inr (Printed (''block_count='' @ show_nat (unat n)))))"

section \<open>The first start\<close>

text \<open>The genesis block as \<open>init\<close> mines it.\<close>

lemma genesis_mined:
  assumes "mine_inline (node_hash N) (genesis_template N g) = Some blk"
  shows "height (header blk) = 0" "timestamp_ms (header blk) = g_genesis_time_ms g" "txs (body blk) = []"
    "coinbase (header blk) = headline_bytes N g"
    "meets_target (hash_header (node_hash N) (header blk)) (target_from_bits (g_initial_bits g))"
proof -
  obtain h where h: "mine_loop (node_hash N) (target_from_bits (bits (genesis_template N g))) (genesis_template N g) = Some h"
    "blk = \<lparr> header = h, body = empty_body \<rparr>"
    using assms by (auto simp: mine_inline_def)
  have "bits (genesis_template N g) = g_initial_bits g"
    by (simp add: genesis_template_def template_from_parent_def template_from_parent_with_body_def)
  with mine_loop_Some [OF h(1)] show "height (header blk) = 0" "timestamp_ms (header blk) = g_genesis_time_ms g" "txs (body blk) = []"
    "coinbase (header blk) = headline_bytes N g"
    "meets_target (hash_header (node_hash N) (header blk)) (target_from_bits (g_initial_bits g))"
    by (auto simp: h(2) empty_body_def genesis_template_def template_from_parent_def template_from_parent_with_body_def)
qed

lemma cmd_init_log:
  assumes "mine_inline (node_hash N) (genesis_template N g) = Some blk" "fits_log (block_c N) blk"
  obtains cs where "cmd_init N g None = Some (Inr cs)" "cs_inv (block_c N) cs [blk]"
proof -
  obtain cs0 where o: "cs_open (block_c N) None = Inr cs0" "cs_inv (block_c N) cs0 []" using cs_open_empty by blast
  then have "cs_tip cs0 = None" by (simp add: cs_inv_def)
  moreover have "\<not> 0 < cs_height cs0" using calculation by (simp add: cs_height_def)
  moreover obtain cs where "cs_append (block_c N) cs0 blk = (Inr (), cs)" "cs_inv (block_c N) cs [blk]"
    using cs_append_inv [OF o(2) assms(2)] by (cases "cs_append (block_c N) cs0 blk") auto
  ultimately show thesis using that [of cs] o(1) assms(1) by (simp add: cmd_init_def)
qed

text \<open>A log that holds just the genesis block replays.\<close>

lemma cmd_run_genesis:
  assumes K: "codec_ok (block_c N)" "codec_ok (reflection_c (kx (nx N)))" and log: "log_of (block_c N) [blk] = Some f"
    and g: "genesis_state N g = Inr mem0" and blk: "mine_inline (node_hash N) (genesis_template N g) = Some blk"
  obtains st where "cmd_run N g t (Some f) = Inr st" "cs_inv (block_c N) (ns_store st) [blk]" "chain_ok N st [blk]"
    "ns_minted_so_far st = 0" "ns_prev_reward_sat st = Some 0" "pool (ns_mempool st) = []"
proof -
  note b = genesis_mined [OF blk]
  obtain store where s: "cs_inv (block_c N) store [blk]"
    "cmd_run N g t (Some f) =
      (case replay N (genesis_emission g) (g_genesis_time_ms g) [blk] [blk] mem0 0 None of
         Inl e \<Rightarrow> Inl e
       | Inr (mem, minted, prev) \<Rightarrow> Inr (node_start N g t store mem minted prev))"
    by (rule cmd_run_log [OF K(1) log _ g]) simp_all
  have "unat (balance (load_or_default (node_ops N) (nx N) mem0 i)) + unat (0 :: u128) < 2 ^ 128" for i
    using genesis_state_ok(2) [OF g] by (simp add: default_account_def)
  then obtain out mem where a: "apply_block (node_ops N) (nx N) mem0 blk 0 = (Inr out, mem)"
    using empty_block_applies [OF b(3) K(2), of "node_ops N" mem0 0] by blast
  have "current_reward_with_height (genesis_emission g) (g_genesis_time_ms g) (g_genesis_time_ms g) pts 0 0 None = Some 0" for pts
    by (simp add: current_reward_with_height_def)
  then have "replay N (genesis_emission g) (g_genesis_time_ms g) [blk] [blk] mem0 0 None = Inr (mem, 0, Some 0)"
    using a by (simp add: b sat_add_def)
  then have "cmd_run N g t (Some f) = Inr (node_start N g t store mem 0 (Some 0))" using s(2) by simp
  then show thesis
    by (rule that) (use s(1) b in \<open>simp_all add: chain_ok_def node_start_def mempool_new_def\<close>)
qed

text \<open>Initialising and starting: the whole program on an empty directory.\<close>

lemma init_then_run:
  assumes K: "codec_ok (block_c N)" "codec_ok (reflection_c (kx (nx N)))"
    and F: "genesis_load F gp = Inr g" "nf_log F d = None" and g: "genesis_state N g = Inr mem0"
    and blk: "mine_inline (node_hash N) (genesis_template N g) = Some blk" "fits_log (block_c N) blk"
  obtains cs st F' where "node_main N t F (Init gp d key) = Exits (Inr (Initialised cs (init_line N cs)))"
    "F' = F\<lparr>nf_log := (nf_log F)(d := log_file cs)\<rparr>"
    "node_main N t F' (Run mine throttle d gp bind) = Exits (Inr (Serving st (if mine then Some throttle else None) bind))"
    "node_main N t F' (Init gp d key) = Exits (Inl (NodeFailed AlreadyInitialized))"
    "node_main N t F' (ShowReflect d) = Exits (Inr (Printed (''block_count='' @ show_nat 1)))"
    "cs_load_all (block_c N) (ns_store st) = Inr [blk]" "chain_ok N st [blk]" "ns_minted_so_far st = 0"
proof -
  obtain cs where cs: "cmd_init N g None = Some (Inr cs)" "cs_inv (block_c N) cs [blk]" by (rule cmd_init_log [OF blk])
  define F' where "F' = F\<lparr>nf_log := (nf_log F)(d := log_file cs)\<rparr>"
  have F': "genesis_load F' gp = Inr g" "nf_log F' d = log_file cs" using F(1) by (simp_all add: F'_def genesis_load_def split: sum.splits)
  obtain f where f: "log_file cs = Some f" "log_of (block_c N) [blk] = Some f"
    using cs(2) log_of_Nil [of "block_c N" "[blk]"] by (auto simp: cs_inv_def simp del: log_of.simps split: option.splits)
  obtain st where st: "cmd_run N g t (Some f) = Inr st" "cs_inv (block_c N) (ns_store st) [blk]" "chain_ok N st [blk]"
    "ns_minted_so_far st = 0"
    by (rule cmd_run_genesis [OF K f(2) g blk(1)])
  obtain cs' where cs': "cs_open (block_c N) (Some f) = Inr cs'" "cs_inv (block_c N) cs' [blk]"
    using cs_open_inv [OF K(1) f(2)] by blast
  have c1: "cs_tip cs' = Some blk" "cs_len cs' = 1" using cs'(2) by (simp_all add: cs_inv_def cs_len_def)
  show thesis
  proof (rule that [OF _ F'_def])
    show "node_main N t F (Init gp d key) = Exits (Inr (Initialised cs (init_line N cs)))"
      using F cs(1) by (simp add: with_genesis_def)
    show "node_main N t F' (Run mine throttle d gp bind) = Exits (Inr (Serving st (if mine then Some throttle else None) bind))"
      using F' f(1) st(1) by (simp add: with_genesis_def)
    show "node_main N t F' (Init gp d key) = Exits (Inl (NodeFailed AlreadyInitialized))"
      using F' f(1) cs'(1) c1 by (simp add: with_genesis_def cmd_init_def)
    show "node_main N t F' (ShowReflect d) = Exits (Inr (Printed (''block_count='' @ show_nat 1)))"
      using F' f(1) cs'(1) c1 by (simp add: cmd_show_reflect_def)
  qed (use st cs_load_all_inv [OF K(1) st(2)] in simp_all)
qed

end
