(* ===== verification/Claims_Node.thy ===== *)
theory Claims_Node
  imports Instance_Node Node_Race Node_Main Http
begin

text \<open>
  The properties of the node as a whole: the chain it keeps, restarts, issuance, mining and the
  RPC interface, each with a witness on the concrete node of \<open>Instance_Node\<close>.
\<close>

section \<open>The chain\<close>

text \<open>
  Claim C3. A node started on the log of a valid chain keeps a valid chain, whatever HTTP requests it
  serves and whatever the clock says: the log is always readable, it extends the one the node
  started from (no block is ever replaced), and every block after the first links to its parent by hash,
  has the next height, a timestamp not before its parent's, the prescribed bits, a hash that
  meets its target and roots that match its body; the pool stays within its capacity with every
  transaction under its own hash.
\<close>

theorem served_chain_valid:
  assumes "codec_ok (block_c N)" "log_of (block_c N) bs = Some f" "cmd_run N g t (Some f) = Inr st"
    and "chain_ok N st bs" "http_bounded X N"
  shows "\<exists>new. cs_load_all (block_c N) (ns_store (http_serve X N reqs st)) = Inr (bs @ new) \<and>
    chain_ok N (http_serve X N reqs st) (bs @ new) \<and> mempool_ok (node_hash N) (ns_mempool (http_serve X N reqs st))"
proof -
  have inv: "node_inv N st bs" using start_inv [OF assms(1-4)] by metis
  obtain new where "node_inv N (http_serve X N reqs st) (bs @ new)"
    using node_reach_inv [OF http_serve_reach [OF assms(5)] inv] by blast
  then show ?thesis using cs_load_all_inv [OF assms(1)] by (auto simp: node_inv_def)
qed

theorem served_chain_valid_witness:
  "\<exists>st new. cmd_run demo_node_ext demo_genesis None (Some demo_log) = Inr st \<and>
     cs_load_all (block_c demo_node_ext) (ns_store (http_serve demo_http demo_node_ext [(2000, demo_post [1]), (3000, demo_post [2])] st)) =
       Inr (demo_genesis_block # new)"
proof -
  obtain st where st: "cmd_run demo_node_ext demo_genesis None (Some demo_log) = Inr st"
    "chain_ok demo_node_ext st [demo_genesis_block]" by (rule demo_start)
  from served_chain_valid [OF demo_codecs_ok(1) demo_log st demo_http_bounded] st(1) show ?thesis by auto
qed

text \<open>
  Claim C27. What arrives over HTTP is well typed and small: one request appends at most one block,
  whose header has exactly the field lengths of the Rust type, and only a POST to \<open>/rpc\<close> with a body
  within the limit that parses can change anything; every other request leaves the node as it was.
\<close>

theorem http_requests_well_typed:
  assumes "http_bounded X N" "node_inv N st bs" "codec_ok (block_c N)"
  shows "(\<exists>new. cs_load_all (block_c N) (ns_store (snd (serve_request X N now req st))) = Inr (bs @ new) \<and> length new \<le> 1 \<and>
      (\<forall>b \<in> set new. header_wf (header b))) \<and>
    (snd (serve_request X N now req st) = st \<or>
     hr_method req = HttpPost \<and> hr_url req = ''/rpc'' \<and>
     (\<exists>b mv. hr_body req = Inr b \<and> length b \<le> 64 * 1024 \<and> parse_rpc_req X b = Inr mv))"
proof
  show "\<exists>new. cs_load_all (block_c N) (ns_store (snd (serve_request X N now req st))) = Inr (bs @ new) \<and> length new \<le> 1 \<and>
      (\<forall>b \<in> set new. header_wf (header b))"
    using serve_request_appends [OF assms(1,2)] cs_load_all_inv [OF assms(3)] by metis
  show "snd (serve_request X N now req st) = st \<or>
     hr_method req = HttpPost \<and> hr_url req = ''/rpc'' \<and>
     (\<exists>b mv. hr_body req = Inr b \<and> length b \<le> 64 * 1024 \<and> parse_rpc_req X b = Inr mv)"
    by (cases rule: serve_request_state [of X N now req st]) (auto simp: MAX_RPC_BODY_BYTES_def)
qed

theorem http_requests_well_typed_witness:
  "\<exists>(st :: node_state). snd (serve_request demo_http demo_node_ext 2000 (demo_post [7]) st) = st \<and>
     (\<exists>new. cs_load_all (block_c demo_node_ext) (ns_store (snd (serve_request demo_http demo_node_ext 2000 (demo_post [1]) st))) =
       Inr (demo_genesis_block # new) \<and> length new \<le> 1)"
proof (rule demo_mined)
  fix st :: node_state
  assume i: "node_inv demo_node_ext st [demo_genesis_block]"
  note t = http_requests_well_typed [OF demo_http_bounded i demo_codecs_ok(1), of 2000]
  have "snd (serve_request demo_http demo_node_ext 2000 (demo_post [7]) st) = st"
    using t [of "demo_post [7]"] by (simp add: demo_http_def demo_post_def)
  moreover have "\<exists>new. cs_load_all (block_c demo_node_ext) (ns_store (snd (serve_request demo_http demo_node_ext 2000 (demo_post [1]) st))) =
       Inr (demo_genesis_block # new) \<and> length new \<le> 1"
    using t [of "demo_post [1]"] by auto
  ultimately show ?thesis by blast
qed

text \<open>
  Claim C5. The first start works: with a readable genesis file and an empty data directory, \<open>init\<close>
  writes exactly the genesis block it mined, with the headline as coinbase and a hash that meets the
  initial target; after that \<open>run\<close> starts on a valid chain of that one block with nothing issued,
  \<open>show-reflect\<close> counts one block, and a second \<open>init\<close> is refused; \<open>run\<close> before \<open>init\<close> is refused too.
\<close>

theorem first_start:
  assumes "codec_ok (block_c N)" "codec_ok (reflection_c (kx (nx N)))"
    and "genesis_load F gp = Inr g" "nf_log F d = None" "genesis_state N g = Inr mem0"
    and "mine_inline (node_hash N) (genesis_template N g) = Some blk" "fits_log (block_c N) blk"
  shows "node_main N t F (Run mine throttle d gp addr) = Exits (Inl (NodeFailed EmptyDataDir)) \<and>
    (\<exists>cs st. node_main N t F (Init gp d key) = Exits (Inr (Initialised cs (init_line N cs))) \<and>
       (let F' = F\<lparr>nf_log := (nf_log F)(d := log_file cs)\<rparr> in
         node_main N t F' (Run mine throttle d gp addr) = Exits (Inr (Serving st (if mine then Some throttle else None) addr)) \<and>
         node_main N t F' (Init gp d key) = Exits (Inl (NodeFailed AlreadyInitialized)) \<and>
         node_main N t F' (ShowReflect d) = Exits (Inr (Printed (''block_count='' @ show_nat 1)))) \<and>
       cs_load_all (block_c N) (ns_store st) = Inr [blk] \<and> chain_ok N st [blk] \<and> ns_minted_so_far st = 0) \<and>
    coinbase (header blk) = headline_bytes N g \<and>
    meets_target (hash_header (node_hash N) (header blk)) (target_from_bits (g_initial_bits g))"
proof (intro conjI)
  obtain cs0 where "cs_open (block_c N) None = Inr cs0" "cs_tip cs0 = None"
    using cs_open_empty [of "block_c N"] by (auto simp: cs_inv_def)
  then show "node_main N t F (Run mine throttle d gp addr) = Exits (Inl (NodeFailed EmptyDataDir))"
    using assms(3,4) by (simp add: with_genesis_def cmd_run_def)
  show "\<exists>cs st. node_main N t F (Init gp d key) = Exits (Inr (Initialised cs (init_line N cs))) \<and>
       (let F' = F\<lparr>nf_log := (nf_log F)(d := log_file cs)\<rparr> in
         node_main N t F' (Run mine throttle d gp addr) = Exits (Inr (Serving st (if mine then Some throttle else None) addr)) \<and>
         node_main N t F' (Init gp d key) = Exits (Inl (NodeFailed AlreadyInitialized)) \<and>
         node_main N t F' (ShowReflect d) = Exits (Inr (Printed (''block_count='' @ show_nat 1)))) \<and>
       cs_load_all (block_c N) (ns_store st) = Inr [blk] \<and> chain_ok N st [blk] \<and> ns_minted_so_far st = 0"
    by (rule init_then_run [OF assms, of t key mine throttle addr]) (simp only: Let_def, blast)
qed (use genesis_mined [OF assms(6)] in simp_all)

definition demo_files :: node_files where
  "demo_files = \<lparr> nf_read_to_string = (\<lambda>p. if p = ''genesis.toml'' then Inr ''chain_id'' else Inl ''no such file''),
     nf_toml = (\<lambda>s. Inr demo_genesis), nf_log = (\<lambda>d. None) \<rparr>"

theorem first_start_witness:
  "\<exists>cs st. node_main demo_node_ext None demo_files default_init = Exits (Inr (Initialised cs (init_line demo_node_ext cs))) \<and>
     node_main demo_node_ext None (demo_files\<lparr>nf_log := (nf_log demo_files)(''./data'' := log_file cs)\<rparr>) default_run =
       Exits (Inr (Serving st None ''0.0.0.0:8545''))"
proof -
  have F: "genesis_load demo_files ''genesis.toml'' = Inr demo_genesis" "nf_log demo_files ''./data'' = None"
    by (simp_all add: genesis_load_def demo_files_def)
  have R: "codec_ok (reflection_c (kx (nx demo_node_ext)))" using wire_cbor_ok(5) by simp
  have M: "mine_inline (node_hash demo_node_ext) (genesis_template demo_node_ext demo_genesis) = Some demo_genesis_block"
    using demo_genesis_mined by simp
  from first_start [OF demo_codecs_ok(1) R F demo_genesis_state M demo_fits [OF demo_genesis_header(1,5,6)],
      of None False 0 "''0.0.0.0:8545''" "''miner.key''"]
  show ?thesis unfolding default_init_def default_run_def Let_def if_False by blast
qed

text \<open>
  Claim C4. A restart loses nothing but the pool: if no refused block has changed the store since
  the start, replaying the log gives back the state of the node exactly, balances, issued amount
  and last reward included, with an empty pool.
\<close>

theorem restart_restores_state:
  assumes "codec_ok (block_c N)" "log_of (block_c N) bs0 = Some f" "cmd_run N g t (Some f) = Inr st0" "chain_ok N st0 bs0"
    and "node_clean N st0 st"
    and "cs_load_all (block_c N) (ns_store st) = Inr bs" "length bs \<le> 2 ^ 64"
  shows "cmd_run N g t (log_file (ns_store st)) = Inr (st\<lparr>ns_mempool := mempool_new 10000\<rparr>)"
  using assms by (rule restart)

theorem restart_restores_state_witness:
  "\<exists>st. cmd_run demo_node_ext demo_genesis None (log_file (ns_store st)) = Inr (st\<lparr>ns_mempool := mempool_new 10000\<rparr>) \<and>
     (\<exists>blk. cs_load_all (block_c demo_node_ext) (ns_store st) = Inr [demo_genesis_block, blk])"
proof (rule demo_mined)
  fix st blk st'
  assume a: "cmd_run demo_node_ext demo_genesis None (Some demo_log) = Inr st" "chain_ok demo_node_ext st [demo_genesis_block]"
    and c: "node_clean demo_node_ext st st'"
    and l: "cs_load_all (block_c demo_node_ext) (ns_store st') = Inr [demo_genesis_block, blk]"
  from restart_restores_state [OF demo_codecs_ok(1) demo_log a c l] l show ?thesis by auto
qed

text \<open>
  Claim C6. Issuance: on such a node the balances of all accounts the chain mentions add up to
  exactly the issued amount, and the issued amount never exceeds the supply cap by more than the
  slew of the first reward (three initial rewards at the default 25 percent).
\<close>

theorem balances_equal_issued:
  assumes "codec_ok (block_c N)" "log_of (block_c N) bs0 = Some f" "cmd_run N g t (Some f) = Inr st0" "chain_ok N st0 bs0"
    and "node_clean N st0 st"
    and "cs_load_all (block_c N) (ns_store st) = Inr bs" "length bs \<le> 2 ^ 64"
    and "account_codec_ok (kx (nx N))"
    and "unat (supply_cap_sat (genesis_emission g)) + 99 * unat (initial_reward_sat (genesis_emission g)) < 2 ^ 128"
    and "finite A" "chain_accounts bs \<subseteq> A"
  shows "total A (load_or_default (node_ops N) (nx N) (ns_state st)) = unat (ns_minted_so_far st) \<and>
    slew_pct (genesis_emission g) * unat (ns_minted_so_far st) \<le>
      slew_pct (genesis_emission g) * unat (supply_cap_sat (genesis_emission g)) +
      (100 - slew_pct (genesis_emission g)) * unat (initial_reward_sat (genesis_emission g))"
proof -
  obtain mem0 where m: "genesis_state N g = Inr mem0" "node_inv N st bs" "replayed N mem0 st bs"
    "ns_emission st = genesis_emission g" by (rule clean_state [OF assms(1-7)])
  have ch: "chain_ok N st bs" using m(2) by (simp add: node_inv_def)
  note gs = genesis_state_ok [OF m(1)]
  from replay_supply [OF assms(8) gs assms(9) ch assms(7,10,11) m(3) [unfolded replayed_def m(4)]]
  show ?thesis using potential_bound(2) scheduled_supply_cap by blast
qed

theorem balances_equal_issued_witness:
  "\<exists>(st :: node_state) blk. cs_load_all (block_c demo_node_ext) (ns_store st) = Inr [demo_genesis_block, blk] \<and>
     total (chain_accounts [demo_genesis_block, blk]) (load_or_default (node_ops demo_node_ext) (nx demo_node_ext) (ns_state st)) =
       unat (ns_minted_so_far st)"
proof (rule demo_mined)
  fix st blk st'
  assume a: "cmd_run demo_node_ext demo_genesis None (Some demo_log) = Inr st" "chain_ok demo_node_ext st [demo_genesis_block]"
    and c: "node_clean demo_node_ext st st'"
    and l: "cs_load_all (block_c demo_node_ext) (ns_store st') = Inr [demo_genesis_block, blk]"
  have "finite {to. \<exists>a. x = Some (to :: account_id, a :: u128)}" for x by (cases x) auto
  then have "finite (chain_accounts [demo_genesis_block, blk])"
    by (auto simp: chain_accounts_def block_accounts_def senders_def recipients_def)
  from balances_equal_issued [OF demo_codecs_ok(1) demo_log a c l _ _ demo_emission_bound this subset_refl]
  have "total (chain_accounts [demo_genesis_block, blk]) (load_or_default (node_ops demo_node_ext) (nx demo_node_ext) (ns_state st')) =
      unat (ns_minted_so_far st')" using wire_cbor_ok(1) by simp
  with l show ?thesis by blast
qed

section \<open>Mining\<close>

lemma mine_inline_first:
  "(case mine_inline H hdr of
      None \<Rightarrow> \<forall>n. \<not> meets_target (hash_header H (hdr\<lparr>nonce := n\<rparr>)) (target_from_bits (bits hdr))
    | Some blk \<Rightarrow> \<exists>k. blk = \<lparr> header = hdr\<lparr>nonce := nonce hdr + of_nat k\<rparr>, body = empty_body \<rparr> \<and>
        meets_target (hash_header H (header blk)) (target_from_bits (bits hdr)) \<and>
        list_all (\<lambda>j. \<not> meets_target (hash_header H (hdr\<lparr>nonce := nonce hdr + of_nat j\<rparr>)) (target_from_bits (bits hdr))) [0..<k])"
proof (cases "\<exists>n. meets_target (hash_header H (hdr\<lparr>nonce := n\<rparr>)) (target_from_bits (bits hdr))")
  case True
  then obtain n where "meets_target (hash_header H (hdr\<lparr>nonce := n\<rparr>)) (target_from_bits (bits hdr))" by blast
  from mine_loop_finds [OF this] obtain k where
    "mine_loop H (target_from_bits (bits hdr)) hdr = Some (hdr\<lparr>nonce := nonce hdr + of_nat k\<rparr>)"
    "meets_target (hash_header H (hdr\<lparr>nonce := nonce hdr + of_nat k\<rparr>)) (target_from_bits (bits hdr))"
    "\<forall>j < k. \<not> meets_target (hash_header H (hdr\<lparr>nonce := nonce hdr + of_nat j\<rparr>)) (target_from_bits (bits hdr))" by blast
  then show ?thesis unfolding mine_inline_def by simp (rule exI [of _ k], simp add: list_all_iff)
next
  case False
  have "mine_loop H (target_from_bits (bits hdr)) hdr = None"
  proof (rule ccontr)
    assume "mine_loop H (target_from_bits (bits hdr)) hdr \<noteq> None"
    then obtain h where "mine_loop H (target_from_bits (bits hdr)) hdr = Some h" by blast
    from mine_loop_Some [OF this] False show False by blast
  qed
  then show ?thesis using False by (simp add: mine_inline_def)
qed

text \<open>
  Claim C32. Mining terminates exactly when some nonce meets the target: the inline miner then returns
  the given header with the first such nonce from the starting one and an empty body, and otherwise it
  never returns. The self-miner, as long as it sees no newer tip, finds the same header.
\<close>

theorem mining_terminates:
  assumes "not_newer seen th"
  shows "(case mine_inline H hdr of
      None \<Rightarrow> \<forall>n. \<not> meets_target (hash_header H (hdr\<lparr>nonce := n\<rparr>)) (target_from_bits (bits hdr))
    | Some blk \<Rightarrow> \<exists>k. blk = \<lparr> header = hdr\<lparr>nonce := nonce hdr + of_nat k\<rparr>, body = empty_body \<rparr> \<and>
        meets_target (hash_header H (header blk)) (target_from_bits (bits hdr)) \<and>
        list_all (\<lambda>j. \<not> meets_target (hash_header H (hdr\<lparr>nonce := nonce hdr + of_nat j\<rparr>)) (target_from_bits (bits hdr))) [0..<k]) \<and>
    self_mine_search H (target_from_bits (bits hdr)) th seen k hdr = map_option (\<lambda>b. Some (header b)) (mine_inline H hdr)"
  using mine_inline_first [of H hdr] self_mine_search_inline [OF assms, of H "target_from_bits (bits hdr)" k hdr]
  by (simp add: mine_inline_def option.map_comp comp_def)

theorem mining_terminates_witness:
  "self_mine_search demo_hash (target_from_bits 0x1f00ffff) 0 (\<lambda>k. Some 0) 0 (genesis_template demo_node_ext demo_genesis) =
     Some (Some (genesis_template demo_node_ext demo_genesis))"
  using mining_terminates [of "\<lambda>k. Some 0" 0 demo_hash "genesis_template demo_node_ext demo_genesis" 0]
  by (simp add: demo_genesis_mined demo_template_bits) (simp add: demo_genesis_block_def)

text \<open>
  Claim C12. Honest mining makes progress: on such a node with an empty pool, every block the
  self-miner builds whose hash meets the target is accepted and extends the log, provided the
  clock has not run backwards behind the tip and the block fits a log entry.
\<close>

theorem honest_miner_progress:
  assumes start: "codec_ok (block_c N)" "log_of (block_c N) bs0 = Some f" "cmd_run N g t (Some f) = Inr st0" "chain_ok N st0 bs0"
    "node_clean N st0 st" "cs_load_all (block_c N) (ns_store st) = Inr bs" "length bs \<le> 2 ^ 64"
    and codecs: "account_codec_ok (kx (nx N))" "codec_ok (reflection_c (kx (nx N)))"
    and cap: "unat (supply_cap_sat (genesis_emission g)) + 99 * unat (initial_reward_sat (genesis_emission g)) < 2 ^ 128"
    and "pool (ns_mempool st) = []" "miner_candidate N now ts st = Some (Inr blk)" "timestamp_ms (header (last bs)) \<le> ts"
    and "g_genesis_time_ms g \<le> now'" "ts \<le> now' + FUTURE_TIME_TOLERANCE_MS"
    and "meets_target (hash_header (node_hash N) (header (with_nonce blk n))) (target_from_bits (bits (header blk)))"
    and fits: "fits_log (block_c N) (with_nonce blk n)"
  shows "\<exists>st'. try_apply_block N now' st (with_nonce blk n) = (Inr (), st') \<and>
    cs_load_all (block_c N) (ns_store st') = Inr (bs @ [with_nonce blk n])"
proof -
  let ?b = "with_nonce blk n"
  obtain mem0 where m: "genesis_state N g = Inr mem0" "node_inv N st bs" "replayed N mem0 st bs"
    "ns_emission st = genesis_emission g" "ns_genesis_time_ms st = g_genesis_time_ms g" by (rule clean_state [OF start])
  have acc: "fst (try_apply_block N now' st ?b) = Inr ()"
    by (rule self_mined_accepted [OF codecs m(1) _ m(2) start(7) m(3) assms(11-13) _ assms(15-17)])
      (use cap assms(14) in \<open>simp_all only: m(4,5)\<close>)
  then have "try_apply_block N now' st ?b = (Inr (), snd (try_apply_block N now' st ?b))" by (metis prod.collapse)
  moreover have "cs_inv (block_c N) (ns_store (snd (try_apply_block N now' st ?b))) (bs @ [?b])"
    using try_apply_block_inv(1) [OF m(2) fits acc] by (simp add: node_inv_def)
  ultimately show ?thesis using cs_load_all_inv [OF start(1)] by blast
qed

theorem honest_miner_progress_witness:
  "\<exists>st st' blk. cmd_run demo_node_ext demo_genesis None (Some demo_log) = Inr st \<and>
     try_apply_block demo_node_ext 601000 st (with_nonce blk 0) = (Inr (), st') \<and>
     cs_load_all (block_c demo_node_ext) (ns_store st') = Inr [demo_genesis_block, with_nonce blk 0]"
proof -
  let ?N = demo_node_ext
  obtain st where st: "cmd_run ?N demo_genesis None (Some demo_log) = Inr st" "chain_ok ?N st [demo_genesis_block]"
    and f: "cs_tip (ns_store st) = Some demo_genesis_block" "pool (ns_mempool st) = []" "length (ns_coinbase st) = 32"
    "ns_genesis_time_ms st = 1000" "ns_target_block_time_ms st = 600000" "ns_emission st = genesis_emission demo_genesis"
    "ns_bootstrap_asert_tau_ms st = default_bootstrap_asert_tau" "ns_asert_tau_ms st = default_asert_tau"
    by (rule demo_start)
  have "node_inv ?N st [demo_genesis_block]" using start_inv [OF demo_codecs_ok(1) demo_log st] by metis
  then have l: "cs_load_all (block_c ?N) (ns_store st) = Inr [demo_genesis_block]"
    using cs_load_all_inv [OF demo_codecs_ok(1)] by (simp add: node_inv_def)
  obtain blk where blk: "miner_candidate ?N 601000 601000 st = Some (Inr blk)" "bits (header blk) = 0x1f00ffff"
    "header_wf (header (with_nonce blk 0))"
    by (rule demo_candidate [OF f(1) demo_expected_bits [OF f(6,5,7,8)] f(4,3)])
  have "body (with_nonce blk 0) = pool_body ?N st" using candidate_fields [OF blk(1)] by blast
  then have fits: "fits_log (block_c ?N) (with_nonce blk 0)"
    using f(2) by (intro demo_fits [OF blk(3)]) (simp_all add: pool_body_def pull_for_block_def)
  have "\<exists>st'. try_apply_block ?N 601000 st (with_nonce blk 0) = (Inr (), st') \<and>
      cs_load_all (block_c ?N) (ns_store st') = Inr ([demo_genesis_block] @ [with_nonce blk 0])"
    by (rule honest_miner_progress [OF demo_codecs_ok(1) demo_log st clean_start l _ _ _ demo_emission_bound f(2) blk(1) _ _ _ _ fits])
      (use wire_cbor_ok demo_pow in \<open>simp_all add: blk(2) demo_genesis_header FUTURE_TIME_TOLERANCE_MS_def demo_genesis_def\<close>)
  then show ?thesis using st(1) by auto
qed

text \<open>
  Claim C36. One transaction that block application does not support stops the miner: while it is
  in a pool of at most 256 transactions, every block the self-miner builds, whatever its nonce
  and whatever the clock, is refused, and the node (pool included) is left as it was.
\<close>

theorem unsupported_tx_stalls_miner:
  assumes "t \<in> set (map snd (pool (ns_mempool st)))" "mempool_len (ns_mempool st) \<le> 256"
    and "call_target (from_account (ptx_body t)) (call (ptx_body t)) = None"
    and "miner_candidate N now ts st = Some (Inr blk)"
  shows "\<exists>e. try_apply_block N now' st (with_nonce blk n) = (Inl e, st)"
proof -
  have "ptx_body t \<in> set (txs (body (with_nonce blk n)))"
    using pool_body_txs [OF assms(1,2)] candidate_fields [OF assms(4)] by simp
  moreover have "\<forall>i w. \<exists>e. validate_tx (node_ops N) (nx N) i (ns_state st) (ptx_body t) w = Inl e"
    by (simp add: unsupported_tx_bad [OF assms(3)])
  ultimately obtain err where "validate_all (node_ops N) (nx N) (ns_state st) (witnesses (body (with_nonce blk n))) 0
      (txs (body (with_nonce blk n))) 0 = Inl err" using validate_all_bad by metis
  then show ?thesis by (rule invalid_body_refused)
qed

definition demo_junk :: tx_body where
  "demo_junk = (demo_tx 0 10)\<lparr>call := DeployContract [] []\<rparr>"

theorem unsupported_tx_stalls_miner_witness:
  "\<exists>st blk e. pool (ns_mempool st) \<noteq> [] \<and> miner_candidate demo_node_ext 601000 601000 st = Some (Inr blk) \<and>
     try_apply_block demo_node_ext 601000 st (with_nonce blk 5) = (Inl e, st)"
proof (rule demo_start)
  fix st0 :: node_state
  assume f: "cs_tip (ns_store st0) = Some demo_genesis_block" "pool (ns_mempool st0) = []" "length (ns_coinbase st0) = 32"
    "ns_genesis_time_ms st0 = 1000" "ns_target_block_time_ms st0 = 600000" "ns_emission st0 = genesis_emission demo_genesis"
    "ns_bootstrap_asert_tau_ms st0 = default_bootstrap_asert_tau" "ns_asert_tau_ms st0 = default_asert_tau"
  define st where "st = st0\<lparr>ns_mempool := snd (mempool_submit demo_hash 2000 (ns_mempool st0) demo_junk demo_witness)\<rparr>"
  define t where "t = \<lparr> ptx_body = demo_junk, ptx_witness = demo_witness, ptx_received_ms = 2000 \<rparr>"
  have "witness_hash demo_junk = witness_digest demo_hash demo_witness" by (simp add: demo_junk_def demo_tx_def)
  then have p: "pool (ns_mempool st) = [(body_hash demo_hash demo_junk, t)]"
    using f(2) by (simp add: st_def t_def mempool_submit_def mempool_evict_def Let_def bt_get_def)
  have b: "expected_bits st 0x1f00ffff 0 1000 601000 = Some 0x1f00ffff"
    by (rule demo_expected_bits) (simp_all add: st_def f)
  obtain blk where blk: "miner_candidate demo_node_ext 601000 601000 st = Some (Inr blk)"
    by (rule demo_candidate [OF _ b]) (simp_all add: st_def f)
  have "\<exists>e. try_apply_block demo_node_ext 601000 st (with_nonce blk 5) = (Inl e, st)"
    by (rule unsupported_tx_stalls_miner [OF _ _ _ blk, of t]) (simp_all add: p mempool_len_def t_def demo_junk_def)
  moreover have "pool (ns_mempool st) \<noteq> []" by (simp add: p)
  ultimately show ?thesis using blk by blast
qed

section \<open>Two threads\<close>

text \<open>
  Claim C20. An uninterrupted attempt is \<open>try_apply_block\<close>, but two interleaved ones can break the
  chain: when the RPC server and the self-miner both pass the checks on the same tip before either
  appends, both report success, the log ends with two blocks of the same height and is no longer
  a valid chain, and of the two rewards paid out only the second one is counted as issued.
\<close>

theorem concurrent_blocks_break_chain:
  assumes "node_inv N st bs"
    and "check_block N now st a = Inr ()" "next_reward st (header a) = Some ra"
      "apply_block (node_ops N) (nx N) (ns_state st) a ra = (Inr oa, sa)" "fits_log (block_c N) a"
    and "check_block N now' st b = Inr ()" "next_reward st (header b) = Some rb"
      "apply_block (node_ops N) (nx N) sa b rb = (Inr ob, sb)" "fits_log (block_c N) b"
  shows "race_run N [True, True, True] st (new_attempt now a) y =
      (snd (try_apply_block N now st a), (new_attempt now a)\<lparr>at_stage := Finished (fst (try_apply_block N now st a))\<rparr>, y) \<and>
    (\<exists>st'. race_run N [True, False, True, True, False, False] st (new_attempt now a) (new_attempt now' b) =
       (st', (new_attempt now a)\<lparr>at_stage := Finished (Inr ())\<rparr>, (new_attempt now' b)\<lparr>at_stage := Finished (Inr ())\<rparr>) \<and>
     cs_inv (block_c N) (ns_store st') (bs @ [a, b]) \<and> \<not> chain_ok N st' (bs @ [a, b]) \<and>
     ns_state st' = sb \<and> ns_minted_so_far st' = sat_add (ns_minted_so_far st) rb)"
proof -
  have "cs_tip (ns_store st) = Some (last bs)" using assms(1) by (auto simp: node_inv_def cs_inv_def chain_ok_def)
  from same_tip_not_chain [OF assms(2,6) this] race_both_accepted [OF assms] attempt_alone [of N st now a y]
  show ?thesis by (metis (no_types, lifting) attempt.update_convs(3) new_attempt_def)
qed

theorem concurrent_blocks_break_chain_witness:
  "\<exists>st a b st' x y. node_inv demo_node_ext st [demo_genesis_block] \<and>
     race_run demo_node_ext [True, False, True, True, False, False] st (new_attempt 601000 a) (new_attempt 601000 b) = (st', x, y) \<and>
     at_stage x = Finished (Inr ()) \<and> at_stage y = Finished (Inr ()) \<and>
     \<not> chain_ok demo_node_ext st' [demo_genesis_block, a, b]"
proof (rule demo_pair)
  fix st a b r oa sa ob sb
  assume inv: "node_inv demo_node_ext st [demo_genesis_block]"
    and a: "check_block demo_node_ext 601000 st a = Inr ()" "next_reward st (header a) = Some r"
      "apply_block (node_ops demo_node_ext) (nx demo_node_ext) (ns_state st) a r = (Inr oa, sa)" "fits_log (block_c demo_node_ext) a"
    and b: "check_block demo_node_ext 601000 st b = Inr ()" "next_reward st (header b) = Some r"
      "apply_block (node_ops demo_node_ext) (nx demo_node_ext) sa b r = (Inr ob, sb)" "fits_log (block_c demo_node_ext) b"
  from concurrent_blocks_break_chain [OF inv a b] inv show ?thesis
    by (metis append_Cons append_Nil attempt.select_convs(3) attempt.update_convs(3) new_attempt_def)
qed

section \<open>The RPC interface\<close>

text \<open>
  Claim C14. A transfer request is taken as it was signed: when the node accepts one, the pool holds,
  under the hash it reports, exactly the transfer of the request (sender, recipient, amount, fee,
  nonce) with a valid signature under the given key, which derives the sender; nothing but the pool
  changes. If the nonce and the balance of the sender fit and the account has no other key, the
  transaction passes validation in the current state, at any position of a block.
\<close>

theorem transfer_request_sound:
  assumes "rpc_submit_transfer N now st req = (Inr txid, st')"
  shows "\<exists>src dst pk sg tx w. from_bech32 (node_hash N) (tq_from_address req) = Inr src \<and>
    from_bech32 (node_hash N) (tq_to_address req) = Inr dst \<and>
    hex_decode N (tq_pubkey_hex req) = Inr pk \<and> hex_decode N (tq_sig_hex req) = Inr sg \<and>
    from_pubkey (node_hash N) pk = src \<and> verify (cx (nx N)) 3 pk sg (signing_hash (node_hash N) tx) = Inr () \<and>
    tx = (transfer_tx req src dst)\<lparr>witness_hash := witness_digest (node_hash N) w\<rparr> \<and> wit_sig w = sg \<and>
    txid = hex_encode N (body_hash (node_hash N) tx) \<and> st' = st\<lparr>ns_mempool := ns_mempool st'\<rparr> \<and>
    bt_get (pool (ns_mempool st')) (body_hash (node_hash N) tx) = Some \<lparr> ptx_body = tx, ptx_witness = w, ptx_received_ms = now \<rparr> \<and>
    (let acct = load_or_default (node_ops N) (nx N) (ns_state st) src in
       tq_nonce req = acct_nonce acct \<and> unat (tq_amount_sat req) + unat (tq_fee_sat req) \<le> unat (balance acct) \<and>
       (pubkey acct = [] \<or> pubkey acct = pk \<and> acct_sig_algo acct = 3) \<longrightarrow>
       (\<exists>t. validate_tx (node_ops N) (nx N) i (ns_state st) tx w = Inr t))"
proof -
  obtain tx w where b: "build_transfer N st req = Inr (tx, w)" and p: "pool_add N now st tx w = (Inr txid, st')"
    using assms by (auto simp: rpc_submit_transfer_def split: sum.splits)
  have pool: "txid = hex_encode N (body_hash (node_hash N) tx)" "st' = st\<lparr>ns_mempool := ns_mempool st'\<rparr>"
    "bt_get (pool (ns_mempool st')) (body_hash (node_hash N) tx) = Some \<lparr> ptx_body = tx, ptx_witness = w, ptx_received_ms = now \<rparr>"
    using p by (auto simp: pool_add_def mempool_submit_def Let_def bt_get_insert split: if_splits)
  show ?thesis
  proof (rule build_transfer_Inr [OF b])
    fix src dst pk sg
    assume h: "from_bech32 (node_hash N) (tq_from_address req) = Inr src" "from_bech32 (node_hash N) (tq_to_address req) = Inr dst"
      "hex_decode N (tq_pubkey_hex req) = Inr pk" "hex_decode N (tq_sig_hex req) = Inr sg"
      "from_pubkey (node_hash N) pk = src" "verify (cx (nx N)) 3 pk sg (signing_hash (node_hash N) tx) = Inr ()"
      "w = \<lparr> wit_sig_algo = 3, wit_sig = sg,
         wit_pubkey = (if pubkey (load_or_default (node_ops N) (nx N) (ns_state st) src) = [] then Inline pk else Known src) \<rparr>"
      "tx = (transfer_tx req src dst)\<lparr>witness_hash := witness_digest (node_hash N) w\<rparr>"
    have src: "from_account tx = src" by (simp add: h(8) transfer_tx_def)
    show ?thesis
    proof (intro exI conjI)
      show "wit_sig w = sg" by (simp add: h(7))
      show "let acct = load_or_default (node_ops N) (nx N) (ns_state st) src in
        tq_nonce req = acct_nonce acct \<and> unat (tq_amount_sat req) + unat (tq_fee_sat req) \<le> unat (balance acct) \<and>
        (pubkey acct = [] \<or> pubkey acct = pk \<and> acct_sig_algo acct = 3) \<longrightarrow>
        (\<exists>t. validate_tx (node_ops N) (nx N) i (ns_state st) tx w = Inr t)"
        using build_transfer_valid [OF b h(3) refl, of i] by (simp add: Let_def src)
    qed (use h pool in blast)+
  qed
qed

definition demo_transfer :: transfer_req where
  "demo_transfer = \<lparr> tq_from_address = map (\<lambda>b. char_of (unat b)) alice, tq_to_address = map (\<lambda>b. char_of (unat b)) bob,
     tq_amount_sat = 10, tq_fee_sat = 1, tq_nonce = 0, tq_pubkey_hex = map (\<lambda>b. char_of (unat b)) alice_pk,
     tq_sig_hex = map (\<lambda>b. char_of (unat b)) (replicate 64 (0 :: u8)) \<rparr>"

theorem transfer_request_sound_witness:
  "\<exists>st txid st' h tx w t. rpc_submit_transfer demo_node_ext 7 (st :: node_state) demo_transfer = (Inr txid, st') \<and>
     bt_get (pool (ns_mempool st')) h = Some \<lparr> ptx_body = tx, ptx_witness = w, ptx_received_ms = 7 \<rparr> \<and>
     validate_tx (node_ops demo_node_ext) demo_ext 0 (ns_state st) tx w = Inr t"
proof -
  obtain st0 :: node_state where st0: "pool (ns_mempool st0) = []" by (rule demo_start)
  define st where "st = st0\<lparr>ns_state := demo_store\<rparr>"
  have dec: "map (\<lambda>c. of_nat (of_char c) :: u8) (map (\<lambda>b. char_of (unat b)) bs) = bs" for bs :: bytes
    using byte_lt by (induction bs) simp_all
  have a: "from_bech32 demo_hash (map (\<lambda>b. char_of (unat b)) i) = Inr i" if "length i = 20" for i :: bytes
    using that dec [of i] by (simp add: from_bech32_def demo_hash_def ADDRESS_HRP_def ACCOUNT_ID_LEN_def del: map_map)
  have x: "hex_decode demo_node_ext (map (\<lambda>b. char_of (unat b)) i) = Inr i" for i :: bytes
    using dec [of i] by (simp add: demo_node_ext_def del: map_map)
  obtain tx w where b: "build_transfer demo_node_ext st demo_transfer = Inr (tx, w)" "witness_hash tx = witness_digest demo_hash w"
    using demo_verify
    by (auto simp: build_transfer_def parse_address_def demo_transfer_def a x length_demo_ids bind_sum_def alice_def [symmetric] Let_def
        simp del: map_replicate map_map)
  then obtain txid st' where r: "rpc_submit_transfer demo_node_ext 7 st demo_transfer = (Inr txid, st')"
    by (auto simp: rpc_submit_transfer_def pool_add_def mempool_submit_def mempool_evict_def st_def st0 bt_get_def Let_def)
  from transfer_request_sound [OF r, of 0] obtain src pk tx w where
    src: "from_bech32 demo_hash (tq_from_address demo_transfer) = Inr src" and
    p: "bt_get (pool (ns_mempool st')) (body_hash demo_hash tx) = Some \<lparr> ptx_body = tx, ptx_witness = w, ptx_received_ms = 7 \<rparr>" and
    v: "let acct = load_or_default (mem_ops demo_hash) demo_ext (ns_state st) src in
       tq_nonce demo_transfer = acct_nonce acct \<and> unat (tq_amount_sat demo_transfer) + unat (tq_fee_sat demo_transfer) \<le> unat (balance acct) \<and>
       (pubkey acct = [] \<or> pubkey acct = pk \<and> acct_sig_algo acct = 3) \<longrightarrow>
       (\<exists>t. validate_tx (mem_ops demo_hash) demo_ext 0 (ns_state st) tx w = Inr t)"
    by auto
  have "src = alice" using src by (simp add: demo_transfer_def a length_demo_ids)
  then obtain t where "validate_tx (mem_ops demo_hash) demo_ext 0 (ns_state st) tx w = Inr t"
    using v by (auto simp: st_def demo_transfer_def demo_load default_account_def Let_def)
  then have "validate_tx (node_ops demo_node_ext) demo_ext 0 (ns_state st) tx w = Inr t" by simp
  with r p show ?thesis by blast
qed
text \<open>
  Claim C29. A block template survives the wire but may be stale: the node can always answer a template
  request, and whatever nonce a miner fills in, sending the template back as JSON decodes to exactly the
  block the node built, transactions and witnesses included. But the template carries the initial
  bits: once the bits prescribed for the next block differ from them, every such block is refused,
  whatever its nonce and however much work it carries.
\<close>

theorem template_roundtrip:
  assumes "hex_ok N" "codec_ok (tx_c N)" "codec_ok (wit_c N)" "hash_ok (node_hash N)" "length (ns_coinbase st) = 32"
  shows "\<exists>resp. rpc_template N now st = Inr resp \<and>
    (\<forall>n. let blk = \<lparr> header = (template_header N now st)\<lparr>nonce := n\<rparr>, body = pool_body N st \<rparr>;
             req = \<lparr> sr_header = (tr_header resp)\<lparr>hj_nonce := n\<rparr>, sr_txs_cbor_hex = tr_txs_cbor_hex resp,
               sr_witnesses_cbor_hex = tr_witnesses_cbor_hex resp \<rparr> in
       decode_call X ''submit_block'' (reparse (submit_value req)) = SubmitBlock req \<and> decode_submit N req = Inr blk \<and>
       (\<forall>tip eb now'. cs_tip (ns_store st) = Some tip \<and>
          expected_bits st (bits (header tip)) (height (header tip)) (timestamp_ms (header tip)) now = Some eb \<and>
          eb \<noteq> ns_bits st \<and> ns_genesis_time_ms st \<le> now' \<longrightarrow>
          try_apply_block N now' st blk =
            (Inl (WrongBits (ns_bits st) eb (bits (header tip)) (height (header tip)) (timestamp_ms (header tip))), st)))"
  using template_submit [OF assms, of now] stale_block_refused [of st] by (auto simp: Let_def submit_value_roundtrip)

theorem template_roundtrip_witness:
  "\<exists>st resp. cs_tip (ns_store st) = Some demo_genesis_block \<and> rpc_template demo_node_ext 601000 st = Inr resp \<and>
     decode_submit demo_node_ext \<lparr> sr_header = (tr_header resp)\<lparr>hj_nonce := 3\<rparr>, sr_txs_cbor_hex = tr_txs_cbor_hex resp,
       sr_witnesses_cbor_hex = tr_witnesses_cbor_hex resp \<rparr> =
     Inr \<lparr> header = (template_header demo_node_ext 601000 st)\<lparr>nonce := 3\<rparr>, body = pool_body demo_node_ext st \<rparr> \<and>
     try_apply_block demo_node_ext 601000 st \<lparr> header = (template_header demo_node_ext 601000 st)\<lparr>nonce := 3\<rparr>,
       body = pool_body demo_node_ext st \<rparr> = (Inl (WrongBits 0x1e00ffff 0x1f00ffff 0x1f00ffff 0 1000), st)"
proof (rule demo_start)
  fix st0 :: node_state
  assume f: "cs_tip (ns_store st0) = Some demo_genesis_block" "pool (ns_mempool st0) = []" "length (ns_coinbase st0) = 32"
    "ns_genesis_time_ms st0 = 1000" "ns_target_block_time_ms st0 = 600000" "ns_emission st0 = genesis_emission demo_genesis"
    "ns_bootstrap_asert_tau_ms st0 = default_bootstrap_asert_tau" "ns_asert_tau_ms st0 = default_asert_tau"
  define st where "st = st0\<lparr>ns_bits := 0x1e00ffff\<rparr>"
  have b: "expected_bits st 0x1f00ffff 0 1000 601000 = Some 0x1f00ffff"
    by (rule demo_expected_bits) (simp_all add: st_def f)
  have t: "cs_tip (ns_store st) = Some demo_genesis_block" by (simp add: st_def f)
  have n: "(0x1f00ffff :: u32) \<noteq> ns_bits st" "ns_genesis_time_ms st \<le> 601000" "ns_bits st = 0x1e00ffff" by (simp_all add: st_def f)
  have c: "length (ns_coinbase st) = 32" by (simp add: st_def f)
  have H: "hash_ok (node_hash demo_node_ext)" using demo_hash_ok by simp
  obtain resp where r: "rpc_template demo_node_ext 601000 st = Inr resp"
    "decode_submit demo_node_ext \<lparr> sr_header = (tr_header resp)\<lparr>hj_nonce := 3\<rparr>, sr_txs_cbor_hex = tr_txs_cbor_hex resp,
       sr_witnesses_cbor_hex = tr_witnesses_cbor_hex resp \<rparr> =
     Inr \<lparr> header = (template_header demo_node_ext 601000 st)\<lparr>nonce := 3\<rparr>, body = pool_body demo_node_ext st \<rparr>"
    "\<forall>tip eb now'. cs_tip (ns_store st) = Some tip \<and>
      expected_bits st (bits (header tip)) (height (header tip)) (timestamp_ms (header tip)) 601000 = Some eb \<and>
      eb \<noteq> ns_bits st \<and> ns_genesis_time_ms st \<le> now' \<longrightarrow>
      try_apply_block demo_node_ext now' st \<lparr> header = (template_header demo_node_ext 601000 st)\<lparr>nonce := 3\<rparr>, body = pool_body demo_node_ext st \<rparr> =
        (Inl (WrongBits (ns_bits st) eb (bits (header tip)) (height (header tip)) (timestamp_ms (header tip))), st)"
    using template_roundtrip [OF demo_hex_ok demo_codecs_ok(2,3) H c, of 601000] unfolding Let_def by blast
  have "try_apply_block demo_node_ext 601000 st \<lparr> header = (template_header demo_node_ext 601000 st)\<lparr>nonce := 3\<rparr>,
       body = pool_body demo_node_ext st \<rparr> = (Inl (WrongBits 0x1e00ffff 0x1f00ffff 0x1f00ffff 0 1000), st)"
    using r(3) [rule_format, of demo_genesis_block "0x1f00ffff" 601000] t b n by (simp add: demo_genesis_header)
  then show ?thesis using t r(1,2) by blast
qed

text \<open>
  Claim C30. The emission series agrees with the node's own accounts: on such a node it is never an
  error, and its last sample is the tip with exactly the issued amount the node tracks, whatever
  window and number of points are asked for.
\<close>

theorem emission_series_matches_node:
  assumes start: "codec_ok (block_c N)" "log_of (block_c N) bs0 = Some f" "cmd_run N g t (Some f) = Inr st0" "chain_ok N st0 bs0"
    "node_clean N st0 st" "cs_load_all (block_c N) (ns_store st) = Inr bs" "length bs \<le> 2 ^ 64"
  shows "\<exists>resp. rpc_emission_series N st req = Inr resp \<and> es_samples resp \<noteq> [] \<and>
    last (es_samples resp) = \<lparr> ep_height = height (header (last bs)), ep_timestamp_ms = timestamp_ms (header (last bs)),
      ep_minted_sat = ns_minted_so_far st \<rparr>"
proof -
  obtain mem0 where "node_inv N st bs" "replayed N mem0 st bs" by (rule clean_state [OF start])
  from emission_series_tip [OF start(1) this(1) start(7) this(2)] show ?thesis .
qed

theorem emission_series_matches_node_witness:
  "\<exists>(st :: node_state) blk resp. cs_load_all (block_c demo_node_ext) (ns_store st) = Inr [demo_genesis_block, blk] \<and>
     rpc_emission_series demo_node_ext st \<lparr> er_window_seconds = 3600, er_points = 10 \<rparr> = Inr resp \<and>
     ep_minted_sat (last (es_samples resp)) = ns_minted_so_far st"
proof (rule demo_mined)
  fix st blk st'
  assume a: "cmd_run demo_node_ext demo_genesis None (Some demo_log) = Inr st" "chain_ok demo_node_ext st [demo_genesis_block]"
    and c: "node_clean demo_node_ext st st'"
    and l: "cs_load_all (block_c demo_node_ext) (ns_store st') = Inr [demo_genesis_block, blk]"
  have "\<exists>resp. rpc_emission_series demo_node_ext st' \<lparr> er_window_seconds = 3600, er_points = 10 \<rparr> = Inr resp \<and>
      ep_minted_sat (last (es_samples resp)) = ns_minted_so_far st'"
    using emission_series_matches_node [OF demo_codecs_ok(1) demo_log a c l] by fastforce
  with l show ?thesis by blast
qed

end
