(* ===== verification/Gui.thy ===== *)
theory Gui
  imports Node_Live
begin

text \<open>
  The desktop client, \<open>crates/gui/src\<close>: the wallet of \<open>wallet.rs\<close>, the account query and
  transaction submission of \<open>rpc_client.rs\<close> and \<open>main.rs\<close>, and a mining thread of \<open>miner.rs\<close>. A
  request goes straight to \<open>rpc_dispatch\<close>: transport, JSON text and the user interface are left
  out. A wallet file is its parsed contents or one of the ways in which it has none, and what the
  operating system does to a read or a write is an argument, as are the bytes of the random source.
\<close>

section \<open>Wallet\<close>

definition WALLET_SIG_ALGO :: u8 where "WALLET_SIG_ALGO = 3"

record wallet_file =
  wf_version :: u32
  wf_sig_algo :: u8
  wf_secret_key_hex :: string
  wf_public_key_hex :: string
  wf_address :: string

record wallet =
  wal_sig_algo :: u8
  wal_secret_key :: bytes
  wal_public_key :: bytes
  wal_address :: account_id

text \<open>
  What there is at the wallet's path: no file, bytes that are not text, a text that is no wallet,
  the proper prefix (perhaps empty) of a wallet's text that an interrupted write leaves, which is no JSON object
  and so does not parse, or a wallet.
\<close>

datatype disk_file = NoFile | NotUtf8 | OtherText | Truncated | Contents wallet_file

text \<open>
  Where file access can fail: reading, creating the directory, opening the file for writing (it is
  as before), or writing to it (\<open>std::fs::write\<close> has emptied it before it writes).
\<close>

datatype io_fault = ReadFails | DirFails | OpenFails | WriteFails

datatype gui_error =
    WalletRead
  | WalletParse
  | WalletDir
  | WalletWrite
  | UnknownWalletVersion u32
  | WalletBadHex string
  | WalletBadAddress address_error
  | WalletSign crypto_error
  | BadRecipient address_error
  | BadAmount
  | BadFee
  | BadCoding
  | NodeRejected node_error
  | NoResult
  | TemplateBadHex string
  | BadTargetLength
  | NoWalletLoaded
  | GuiPanicked

definition wallet_generate :: "node_ext \<Rightarrow> bytes \<Rightarrow> wallet" where
  "wallet_generate N rng =
     (let (sk, pk) = ed25519_keypair (cx (nx N)) rng in
      \<lparr> wal_sig_algo = WALLET_SIG_ALGO, wal_secret_key = sk, wal_public_key = pk,
        wal_address = from_pubkey (node_hash N) pk \<rparr>)"

definition wallet_of_file :: "node_ext \<Rightarrow> wallet_file \<Rightarrow> gui_error + wallet" where
  "wallet_of_file N f =
     (if wf_version f \<noteq> 1 then Inl (UnknownWalletVersion (wf_version f))
      else
        bind_sum (map_sum WalletBadHex id (hex_decode N (wf_secret_key_hex f))) (\<lambda>sk.
        bind_sum (map_sum WalletBadHex id (hex_decode N (wf_public_key_hex f))) (\<lambda>pk.
        bind_sum (map_sum WalletBadAddress id (from_bech32 (node_hash N) (wf_address f))) (\<lambda>addr.
          Inr \<lparr> wal_sig_algo = wf_sig_algo f, wal_secret_key = sk, wal_public_key = pk, wal_address = addr \<rparr>))))"

definition wallet_load :: "node_ext \<Rightarrow> io_fault option \<Rightarrow> disk_file \<Rightarrow> gui_error + wallet" where
  "wallet_load N io d =
     (if io = Some ReadFails then Inl WalletRead
      else
        (case d of
           NoFile \<Rightarrow> Inl WalletRead
         | NotUtf8 \<Rightarrow> Inl WalletRead
         | OtherText \<Rightarrow> Inl WalletParse
         | Truncated \<Rightarrow> Inl WalletParse
         | Contents f \<Rightarrow> wallet_of_file N f))"

text \<open>The answer of a save and the file after it.\<close>

definition wallet_save :: "node_ext \<Rightarrow> io_fault option \<Rightarrow> wallet \<Rightarrow> disk_file \<Rightarrow> (gui_error + unit) \<times> disk_file" where
  "wallet_save N io w d =
     (if io = Some DirFails then (Inl WalletDir, d)
      else
        (case to_bech32 (node_hash N) (wal_address w) of
           None \<Rightarrow> (Inl GuiPanicked, d)
         | Some addr \<Rightarrow>
             let f = \<lparr> wf_version = 1, wf_sig_algo = wal_sig_algo w, wf_secret_key_hex = hex_encode N (wal_secret_key w),
                       wf_public_key_hex = hex_encode N (wal_public_key w), wf_address = addr \<rparr> in
             if io = Some OpenFails then (Inl WalletWrite, d)
             else if io = Some WriteFails then (Inl WalletWrite, Truncated)
             else (Inr (), Contents f)))"

text \<open>First launch: a missing file is created from a fresh key pair.\<close>

definition load_or_create :: "node_ext \<Rightarrow> bytes \<Rightarrow> io_fault option \<Rightarrow> disk_file \<Rightarrow> (gui_error + wallet) \<times> disk_file" where
  "load_or_create N rng io d =
     (if d \<noteq> NoFile then (wallet_load N io d, d)
      else
        let w = wallet_generate N rng in
        (case wallet_save N io w d of
           (Inl e, d) \<Rightarrow> (Inl e, d)
         | (Inr u, d) \<Rightarrow> (Inr w, d)))"

definition wallet_sign :: "node_ext \<Rightarrow> bytes \<Rightarrow> wallet \<Rightarrow> bytes \<Rightarrow> gui_error + bytes" where
  "wallet_sign N rng w msg = map_sum WalletSign id (sign (cx (nx N)) rng (wal_sig_algo w) (wal_secret_key w) msg)"

section \<open>Requests\<close>

record account_info =
  ai_balance_sat :: u128
  ai_nonce :: u64
  ai_has_pubkey :: bool

text \<open>\<open>as_u64().unwrap_or(0)\<close>: a balance beyond 64 bits reads as zero.\<close>

definition client_get_account :: "node_ext \<Rightarrow> u64 \<Rightarrow> node_state \<Rightarrow> account_id \<Rightarrow> gui_error + account_info" where
  "client_get_account N now st addr =
     (case to_bech32 (node_hash N) addr of
        None \<Rightarrow> Inl GuiPanicked
      | Some s \<Rightarrow>
          (case fst (rpc_dispatch N now (GetAccount s) st) of
             (_, AccountR r) \<Rightarrow>
               Inr \<lparr> ai_balance_sat = (if unat (ac_balance_sat r) < 2 ^ 64 then ac_balance_sat r else 0),
                     ai_nonce = ac_nonce r, ai_has_pubkey = ac_has_pubkey r \<rparr>
           | (_, ErrorR e) \<Rightarrow> Inl (NodeRejected e)
           | _ \<Rightarrow> Inl NoResult))"

definition client_submit_tx :: "node_ext \<Rightarrow> u64 \<Rightarrow> node_state \<Rightarrow> string \<Rightarrow> string \<Rightarrow> (gui_error + string) \<times> node_state" where
  "client_submit_tx N now st tx_hex wit_hex =
     (case rpc_dispatch N now (SubmitTx tx_hex wit_hex) st of
        ((_, TxR h), st) \<Rightarrow> (Inr h, st)
      | ((_, ErrorR e), st) \<Rightarrow> (Inl (NodeRejected e), st)
      | (_, st) \<Rightarrow> (Inl NoResult, st))"

record node_info =
  ni_chain_id :: string
  ni_tip_hash :: string
  ni_height :: u64
  ni_target_hex :: string

definition client_get_info :: "node_ext \<Rightarrow> u64 \<Rightarrow> node_state \<Rightarrow> gui_error + node_info" where
  "client_get_info N now st =
     (case fst (rpc_dispatch N now GetInfo st) of
        (_, InfoR r) \<Rightarrow>
          Inr \<lparr> ni_chain_id = ir_chain_id r, ni_tip_hash = ir_tip_hash r, ni_height = ir_height r, ni_target_hex = ir_target r \<rparr>
      | (_, ErrorR e) \<Rightarrow> Inl (NodeRejected e)
      | _ \<Rightarrow> Inl NoResult)"

section \<open>Input fields\<close>

definition is_space :: "char \<Rightarrow> bool" where
  "is_space c \<longleftrightarrow> c \<in> set [CHR '' '', CHR 0x09, CHR 0x0A, CHR 0x0B, CHR 0x0C, CHR 0x0D]"

definition trim :: "string \<Rightarrow> string" where
  "trim s = rev (dropWhile is_space (rev (dropWhile is_space s)))"

fun parse_digits :: "nat \<Rightarrow> string \<Rightarrow> nat option" where
  "parse_digits acc [] = Some acc"
| "parse_digits acc (c # cs) =
     (let d = of_char c :: nat in
      if 48 \<le> d \<and> d \<le> 57 then parse_digits (10 * acc + (d - 48)) cs else None)"

definition parse_word :: "string \<Rightarrow> 'a::len word option" where
  "parse_word s =
     (let ds = (case s of c # cs \<Rightarrow> if c = CHR ''+'' then cs else s | [] \<Rightarrow> []) in
      if ds = [] then None
      else
        (case parse_digits 0 ds of
           None \<Rightarrow> None
         | Some n \<Rightarrow> if n < 2 ^ LENGTH('a) then Some (of_nat n) else None))"

section \<open>Sending a payment\<close>

definition payment_body :: "wallet \<Rightarrow> account_info \<Rightarrow> account_id \<Rightarrow> u128 \<Rightarrow> u64 \<Rightarrow> tx_body" where
  "payment_body w info to amount fee =
     \<lparr> tx_nonce = ai_nonce info, from_account = wal_address w, call = Transfer to amount, fee_sat = fee,
       gas_limit = 21000, witness_hash = replicate 32 0 \<rparr>"

definition sign_payment ::
    "node_ext \<Rightarrow> bytes \<Rightarrow> wallet \<Rightarrow> account_info \<Rightarrow> account_id \<Rightarrow> u128 \<Rightarrow> u64 \<Rightarrow> gui_error + (tx_body \<times> witness)" where
  "sign_payment N rng w info to amount fee =
     (let tx = payment_body w info to amount fee;
          key = (if ai_has_pubkey info then Known (wal_address w) else Inline (wal_public_key w)) in
      bind_sum (wallet_sign N rng w (signing_hash (node_hash N) tx)) (\<lambda>sg.
        let wit = \<lparr> wit_sig_algo = wal_sig_algo w, wit_sig = sg, wit_pubkey = key \<rparr> in
        Inr (tx\<lparr>witness_hash := witness_digest (node_hash N) wit\<rparr>, wit)))"

definition build_and_submit_tx ::
    "node_ext \<Rightarrow> bytes \<Rightarrow> u64 \<Rightarrow> node_state \<Rightarrow> wallet \<Rightarrow> string \<Rightarrow> string \<Rightarrow> string \<Rightarrow> (gui_error + string) \<times> node_state" where
  "build_and_submit_tx N rng now st w to_str amount_str fee_str =
     (case bind_sum (map_sum BadRecipient id (from_bech32 (node_hash N) (trim to_str))) (\<lambda>to.
           case parse_word (trim amount_str) of
             None \<Rightarrow> Inl BadAmount
           | Some amount \<Rightarrow>
               (case parse_word (trim fee_str) of
                  None \<Rightarrow> Inl BadFee
                | Some fee \<Rightarrow>
                    bind_sum (client_get_account N now st (wal_address w)) (\<lambda>info.
                    bind_sum (sign_payment N rng w info to amount fee) (\<lambda>(tx, wit).
                      case (enc (tx_c N) tx, enc (wit_c N) wit) of
                        (Some tb, Some wb) \<Rightarrow> Inr (hex_encode N tb, hex_encode N wb)
                      | _ \<Rightarrow> Inl BadCoding)))) of
        Inl e \<Rightarrow> (Inl e, st)
      | Inr (tx_hex, wit_hex) \<Rightarrow> client_submit_tx N now st tx_hex wit_hex)"

section \<open>A mining thread\<close>

text \<open>\<open>available_parallelism\<close>, one where the system does not tell.\<close>

definition num_cpus :: "nat option \<Rightarrow> nat" where
  "num_cpus available = (case available of None \<Rightarrow> 1 | Some n \<Rightarrow> n)"

text \<open>
  The miner has its own copy of the header conversion, with its own errors; it succeeds on the same
  texts as the node's and gives the same header.
\<close>

definition h32 :: "node_ext \<Rightarrow> string \<Rightarrow> string + bytes" where
  "h32 N s =
     (case hex_decode N s of
        Inl e \<Rightarrow> Inl e
      | Inr v \<Rightarrow> if length v \<noteq> 32 then Inl (''expected 32 bytes, got '' @ show_nat (length v)) else Inr v)"

definition miner_try_from :: "node_ext \<Rightarrow> header_json \<Rightarrow> string + block_header" where
  "miner_try_from N j =
     bind_sum (h32 N (hj_parent j)) (\<lambda>p.
     bind_sum (h32 N (hj_tx_root j)) (\<lambda>tr.
     bind_sum (h32 N (hj_witness_root j)) (\<lambda>wr.
     bind_sum (h32 N (hj_state_root j)) (\<lambda>sr.
     bind_sum (h32 N (hj_reflect_root j)) (\<lambda>rr.
     bind_sum (h32 N (hj_coinbase j)) (\<lambda>cb.
       Inr \<lparr> version = hj_version j, height = hj_height j, parent = p, timestamp_ms = hj_timestamp_ms j,
             bits = hj_bits j, nonce = hj_nonce j, hdr_tx_root = tr, hdr_witness_root = wr, state_root = sr,
             reflect_root = rr, coinbase = cb, hdr_sig_algo = hj_sig_algo j, hdr_hash_algo = hj_hash_algo j \<rparr>))))))"

lemma h32_hex32: "h32 N s = Inr v \<longleftrightarrow> hex32 N s = Inr v"
  by (auto simp: h32_def hex32_def split: sum.splits)

lemma miner_try_from_iff [simp]: "miner_try_from N j = Inr hdr \<longleftrightarrow> header_from_json N j = Inr hdr"
  by (simp add: miner_try_from_def header_from_json_def bind_sum_def h32_hex32 split: sum.splits) (auto simp: h32_hex32 [symmetric])

record miner_template =
  mt_header :: header_json
  mt_target :: bytes
  mt_txs_cbor_hex :: "string list"
  mt_witnesses_cbor_hex :: "string list"

record worker =
  wk_tmpl :: header_json
  wk_target :: bytes
  wk_txs :: "string list"
  wk_wits :: "string list"
  wk_hashes :: u64
  wk_accepted :: u64
  wk_rejected :: u64

definition client_get_template :: "node_ext \<Rightarrow> u64 \<Rightarrow> node_state \<Rightarrow> gui_error + miner_template" where
  "client_get_template N now st =
     (case fst (rpc_dispatch N now GetTemplate st) of
        (_, TemplateR r) \<Rightarrow>
          bind_sum (map_sum TemplateBadHex id (hex_decode N (tr_target r))) (\<lambda>target.
            if length target \<noteq> 32 then Inl BadTargetLength
            else Inr \<lparr> mt_header = tr_header r, mt_target = target, mt_txs_cbor_hex = tr_txs_cbor_hex r,
                       mt_witnesses_cbor_hex = tr_witnesses_cbor_hex r \<rparr>)
      | (_, ErrorR e) \<Rightarrow> Inl (NodeRejected e)
      | _ \<Rightarrow> Inl NoResult)"

definition worker_start :: "node_ext \<Rightarrow> u64 \<Rightarrow> node_state \<Rightarrow> u64 \<Rightarrow> bytes \<Rightarrow> worker \<Rightarrow> worker option" where
  "worker_start N now st thread_id cb wk =
     (case client_get_template N now st of
        Inl e \<Rightarrow> None
      | Inr t \<Rightarrow>
          Some (wk\<lparr>wk_tmpl := (mt_header t)\<lparr>hj_coinbase := hex_encode N cb, hj_nonce := thread_id\<rparr>,
                  wk_target := mt_target t, wk_txs := mt_txs_cbor_hex t, wk_wits := mt_witnesses_cbor_hex t\<rparr>))"

text \<open>One round of the inner loop: no header from the template, a hit, or a miss, after which the nonce advances.\<close>

datatype nonce_attempt = NoHeader | Hit | Miss

definition try_nonce :: "node_ext \<Rightarrow> u64 \<Rightarrow> worker \<Rightarrow> worker \<times> nonce_attempt" where
  "try_nonce N stride wk =
     (case miner_try_from N (wk_tmpl wk) of
        Inl e \<Rightarrow> (wk, NoHeader)
      | Inr hdr \<Rightarrow>
          let wk = wk\<lparr>wk_hashes := wk_hashes wk + 1\<rparr> in
          if meets_target (hash_header (node_hash N) hdr) (wk_target wk) then (wk, Hit)
          else (wk\<lparr>wk_tmpl := (wk_tmpl wk)\<lparr>hj_nonce := hj_nonce (wk_tmpl wk) + stride\<rparr>\<rparr>, Miss))"

text \<open>The inner loop over at most \<open>k\<close> nonces: the worker after it, and whether it has a hit.\<close>

fun worker_burst :: "node_ext \<Rightarrow> u64 \<Rightarrow> nat \<Rightarrow> worker \<Rightarrow> worker \<times> bool" where
  "worker_burst N stride 0 wk = (wk, False)"
| "worker_burst N stride (Suc k) wk =
     (case miner_try_from N (wk_tmpl wk) of
        Inl e \<Rightarrow> (wk, False)
      | Inr hdr \<Rightarrow>
          let wk = wk\<lparr>wk_hashes := wk_hashes wk + 1\<rparr> in
          if meets_target (hash_header (node_hash N) hdr) (wk_target wk) then (wk, True)
          else worker_burst N stride k (wk\<lparr>wk_tmpl := (wk_tmpl wk)\<lparr>hj_nonce := hj_nonce (wk_tmpl wk) + stride\<rparr>\<rparr>))"

lemma worker_burst_Suc [simp]:
  "worker_burst N stride (Suc k) wk =
     (case header_from_json N (wk_tmpl wk) of
        Inl e \<Rightarrow> (wk, False)
      | Inr hdr \<Rightarrow>
          let wk = wk\<lparr>wk_hashes := wk_hashes wk + 1\<rparr> in
          if meets_target (hash_header (node_hash N) hdr) (wk_target wk) then (wk, True)
          else worker_burst N stride k (wk\<lparr>wk_tmpl := (wk_tmpl wk)\<lparr>hj_nonce := hj_nonce (wk_tmpl wk) + stride\<rparr>\<rparr>))"
proof (cases "header_from_json N (wk_tmpl wk)")
  case (Inl e)
  then have "miner_try_from N (wk_tmpl wk) \<noteq> Inr h" for h by simp
  then obtain e' where "miner_try_from N (wk_tmpl wk) = Inl e'" by (cases "miner_try_from N (wk_tmpl wk)") blast+
  with Inl show ?thesis by simp
next
  case (Inr hdr)
  then have "miner_try_from N (wk_tmpl wk) = Inr hdr" by simp
  with Inr show ?thesis by (simp del: miner_try_from_iff)
qed

declare worker_burst.simps(2) [simp del]

lemma worker_burst_try:
  "worker_burst N stride (Suc k) wk =
     (case try_nonce N stride wk of
        (wk', NoHeader) \<Rightarrow> (wk', False)
      | (wk', Hit) \<Rightarrow> (wk', True)
      | (wk', Miss) \<Rightarrow> worker_burst N stride k wk')"
  by (cases "miner_try_from N (wk_tmpl wk)")
    (simp_all add: worker_burst.simps(2) try_nonce_def Let_def del: miner_try_from_iff worker_burst_Suc)

definition worker_request :: "worker \<Rightarrow> rpc_req" where
  "worker_request wk =
     SubmitBlock \<lparr> sr_header = wk_tmpl wk, sr_txs_cbor_hex = wk_txs wk, sr_witnesses_cbor_hex = wk_wits wk \<rparr>"

definition worker_submit :: "node_ext \<Rightarrow> u64 \<Rightarrow> worker \<Rightarrow> node_state \<Rightarrow> worker \<times> node_state" where
  "worker_submit N now wk st =
     (case rpc_dispatch N now (worker_request wk) st of
        ((_, SubmitR h s), st) \<Rightarrow> (wk\<lparr>wk_accepted := wk_accepted wk + 1\<rparr>, st)
      | (_, st) \<Rightarrow> (wk\<lparr>wk_rejected := wk_rejected wk + 1\<rparr>, st))"

text \<open>One pass of the loop between two looks at the clock.\<close>

definition worker_pass :: "node_ext \<Rightarrow> u64 \<Rightarrow> u64 \<Rightarrow> worker \<Rightarrow> node_state \<Rightarrow> worker \<times> node_state" where
  "worker_pass N now stride wk st =
     (case worker_burst N stride 4096 wk of
        (wk, True) \<Rightarrow> worker_submit N now wk st
      | (wk, False) \<Rightarrow> (wk, st))"

section \<open>Wallet files\<close>

lemma wallet_roundtrip:
  assumes "hex_ok N" "bech32_ok (node_hash N)" "length (wal_address w) = 20"
  shows "\<exists>d'. wallet_save N None w d = (Inr (), d') \<and> wallet_load N None d' = Inr w"
proof -
  obtain s where "to_bech32 (node_hash N) (wal_address w) = Some s" "from_bech32 (node_hash N) s = Inr (wal_address w)"
    by (rule bech32_roundtrip [OF assms(2,3)])
  then show ?thesis using assms(1) by (simp add: wallet_save_def wallet_load_def wallet_of_file_def bind_sum_def hex_ok_def Let_def)
qed

text \<open>A save that fails has left the file as it was, or truncated.\<close>

lemma wallet_save_cases:
  assumes "wallet_save N io w d = (r, d')"
  obtains (saved) "r = Inr ()" "wallet_save N None w d = (Inr (), d')"
  | (kept) e where "r = Inl e" "d' = d" "io \<noteq> Some WriteFails \<or> e = GuiPanicked"
  | (torn) e where "r = Inl e" "d' = Truncated" "io = Some WriteFails"
  using assms by (auto simp: wallet_save_def Let_def split: if_splits option.splits)

section \<open>Payments are valid\<close>

text \<open>
  The wallet's keys belong together, and if the chain knows a key of its account, it is this one.
\<close>

definition wallet_ready :: "node_ext \<Rightarrow> node_state \<Rightarrow> wallet \<Rightarrow> bool" where
  "wallet_ready N st w \<longleftrightarrow>
     wal_address w = from_pubkey (node_hash N) (wal_public_key w) \<and>
     wal_public_key w = pk_for (cx (nx N)) (wal_sig_algo w) (wal_secret_key w) \<and>
     (let a = load_or_default (node_ops N) (nx N) (ns_state st) (wal_address w) in
      pubkey a \<noteq> [] \<longrightarrow> pubkey a = wal_public_key w \<and> acct_sig_algo a = wal_sig_algo w)"

text \<open>A fresh wallet is ready on every chain that has no key for its address.\<close>

lemma fresh_wallet_ready:
  assumes "pubkey (load_or_default (node_ops N) (nx N) (ns_state st) (wal_address (wallet_generate N rng))) = []"
  shows "wallet_ready N st (wallet_generate N rng)"
  using assms
  by (simp add: wallet_ready_def wallet_generate_def ed25519_keypair_def pk_for_def WALLET_SIG_ALGO_def Let_def)

abbreviation wallet_account :: "node_ext \<Rightarrow> node_state \<Rightarrow> wallet \<Rightarrow> account" where
  "wallet_account N st w \<equiv> load_or_default (node_ops N) (nx N) (ns_state st) (wal_address w)"

lemma client_get_account_ok:
  assumes "hash_ok (node_hash N)" "bech32_ok (node_hash N)" "wallet_ready N st w"
  shows "\<exists>b. client_get_account N now st (wal_address w) =
    Inr \<lparr> ai_balance_sat = b, ai_nonce = acct_nonce (wallet_account N st w), ai_has_pubkey = (pubkey (wallet_account N st w) \<noteq> []) \<rparr>"
proof -
  have "length (wal_address w) = 20" using assms(1,3) by (simp add: wallet_ready_def length_from_pubkey)
  then obtain s where "to_bech32 (node_hash N) (wal_address w) = Some s" "from_bech32 (node_hash N) s = Inr (wal_address w)"
    by (rule bech32_roundtrip [OF assms(2)])
  then show ?thesis
    by (simp add: client_get_account_def rpc_get_account_def parse_address_def bind_sum_def reply_def Let_def)
qed

lemma known_key_load:
  assumes "pubkey (load_or_default ops X s i) \<noteq> []"
  shows "load ops X s i = Some (load_or_default ops X s i)"
  using assms by (auto simp: load_or_default_def default_account_def split: option.splits)

lemma payment_valid:
  assumes "crypto_ok (cx (nx N))" "wallet_ready N st w"
    and "ai_nonce info = acct_nonce (wallet_account N st w)" "ai_has_pubkey info = (pubkey (wallet_account N st w) \<noteq> [])"
    and "unat amount + unat fee \<le> unat (balance (wallet_account N st w))"
    and "sign_payment N rng w info to amount fee = Inr (tx, wit)"
  shows "validate_tx (node_ops N) (nx N) i (ns_state st) tx wit =
      Inr \<lparr> stx_idx = i, stx_from_account = wal_address w, stx_expected_nonce = acct_nonce (wallet_account N st w),
            stx_to = to, stx_amount = amount, stx_fee_sat = fee, stx_pubkey_bytes = wal_public_key w,
            stx_sig_algo = wal_sig_algo w \<rparr>"
    and "witness_hash tx = witness_digest (node_hash N) wit" "call tx = Transfer to amount" "fee_sat tx = fee" "from_account tx = wal_address w"
proof -
  let ?tx = "payment_body w info to amount fee" and ?a = "wallet_account N st w"
  obtain sg where sg: "sign (cx (nx N)) rng (wal_sig_algo w) (wal_secret_key w) (signing_hash (node_hash N) ?tx) = Inr sg"
    and wit: "wit = \<lparr> wit_sig_algo = wal_sig_algo w, wit_sig = sg,
      wit_pubkey = (if ai_has_pubkey info then Known (wal_address w) else Inline (wal_public_key w)) \<rparr>"
    and tx: "tx = ?tx\<lparr>witness_hash := witness_digest (node_hash N) wit\<rparr>"
    using assms(6)
    by (cases "sign (cx (nx N)) rng (wal_sig_algo w) (wal_secret_key w) (signing_hash (node_hash N) ?tx)")
      (auto simp: sign_payment_def wallet_sign_def bind_sum_def Let_def)
  show "witness_hash tx = witness_digest (node_hash N) wit" "call tx = Transfer to amount" "fee_sat tx = fee" "from_account tx = wal_address w"
    by (simp_all add: tx payment_body_def)
  have f: "from_account tx = wal_address w" "call tx = Transfer to amount" "tx_nonce tx = acct_nonce ?a" "fee_sat tx = fee"
    by (simp_all add: tx payment_body_def assms(3))
  have h: "signing_hash (node_hash N) tx = signing_hash (node_hash N) ?tx" by (simp add: tx signing_hash_def signing_bytes_def)
  have "verify (cx (nx N)) (wal_sig_algo w) (wal_public_key w) sg (signing_hash (node_hash N) ?tx) = Inr ()"
    using sign_verify [OF assms(1) sg] assms(2) by (simp add: wallet_ready_def)
  moreover have "witness_pubkey (node_ops N) (nx N) (ns_state st) i tx wit = Inr (wal_public_key w)"
  proof (cases "pubkey ?a = []")
    case True
    then show ?thesis using assms(2,4) by (simp add: witness_pubkey_def wit f wallet_ready_def)
  next
    case False
    then have "pubkey ?a = wal_public_key w" "acct_sig_algo ?a = wal_sig_algo w" "ai_has_pubkey info"
      using assms(2,4) unfolding wallet_ready_def Let_def by blast+
    then show ?thesis using False known_key_load [OF False] by (simp add: witness_pubkey_def wit f)
  qed
  moreover have "checked_add amount (ucast fee) = Some (amount + ucast fee)" "\<not> balance ?a < amount + ucast fee"
    using assms(5) unsigned_less [of "balance ?a", where ?'a = nat]
    by (simp_all add: checked_add_def unat_u64_to_u128 word_less_nat_alt unat_word_ariths)
  ultimately show "validate_tx (node_ops N) (nx N) i (ns_state st) tx wit =
      Inr \<lparr> stx_idx = i, stx_from_account = wal_address w, stx_expected_nonce = acct_nonce ?a,
            stx_to = to, stx_amount = amount, stx_fee_sat = fee, stx_pubkey_bytes = wal_public_key w,
            stx_sig_algo = wal_sig_algo w \<rparr>"
    by (simp add: validate_tx_def f h wit Let_def)
qed

lemma payment_submitted:
  assumes N: "hash_ok (node_hash N)" "bech32_ok (node_hash N)" "hex_ok N" "codec_ok (tx_c N)" "codec_ok (wit_c N)" "crypto_ok (cx (nx N))"
    and w: "wallet_ready N st w" "\<forall>msg. \<exists>sg. sign (cx (nx N)) rng (wal_sig_algo w) (wal_secret_key w) msg = Inr sg"
    and inp: "from_bech32 (node_hash N) (trim to_str) = Inr to" "parse_word (trim amount_str) = Some amount" "parse_word (trim fee_str) = Some fee"
    and funds: "unat amount + unat fee \<le> unat (balance (wallet_account N st w))"
    and pool: "pool (ns_mempool st) = []"
  obtains tx wit where
    "build_and_submit_tx N rng now st w to_str amount_str fee_str = (Inr (hex_encode N (body_hash (node_hash N) tx)),
       st\<lparr>ns_mempool := snd (mempool_submit (node_hash N) now (ns_mempool st) tx wit)\<rparr>)"
    "pool (snd (mempool_submit (node_hash N) now (ns_mempool st) tx wit)) =
       [(body_hash (node_hash N) tx, \<lparr> ptx_body = tx, ptx_witness = wit, ptx_received_ms = now \<rparr>)]"
    "validate_tx (node_ops N) (nx N) 0 (ns_state st) tx wit =
      Inr \<lparr> stx_idx = 0, stx_from_account = wal_address w, stx_expected_nonce = acct_nonce (wallet_account N st w),
            stx_to = to, stx_amount = amount, stx_fee_sat = fee, stx_pubkey_bytes = wal_public_key w, stx_sig_algo = wal_sig_algo w \<rparr>"
    "witness_hash tx = witness_digest (node_hash N) wit" "call tx = Transfer to amount"
    "\<exists>info. sign_payment N rng w info to amount fee = Inr (tx, wit)"
proof -
  obtain b where info: "client_get_account N now st (wal_address w) =
      Inr \<lparr> ai_balance_sat = b, ai_nonce = acct_nonce (wallet_account N st w), ai_has_pubkey = (pubkey (wallet_account N st w) \<noteq> []) \<rparr>"
    (is "_ = Inr ?info") using client_get_account_ok [OF N(1,2) w(1)] by blast
  obtain sg where "sign (cx (nx N)) rng (wal_sig_algo w) (wal_secret_key w)
      (signing_hash (node_hash N) (payment_body w ?info to amount fee)) = Inr sg" using w(2) by blast
  then obtain tx wit where s: "sign_payment N rng w ?info to amount fee = Inr (tx, wit)"
    by (simp add: sign_payment_def wallet_sign_def bind_sum_def Let_def)
  note v = payment_valid [OF N(6) w(1) _ _ funds s, simplified]
  obtain tb wb where e: "enc (tx_c N) tx = Some tb" "dec (tx_c N) tb = Inr tx" "enc (wit_c N) wit = Some wb" "dec (wit_c N) wb = Inr wit"
    using N(4,5) unfolding codec_ok_def by blast
  have sub: "mempool_submit (node_hash N) now (ns_mempool st) tx wit =
      (Inr (body_hash (node_hash N) tx), (ns_mempool st)\<lparr>pool := [(body_hash (node_hash N) tx, \<lparr> ptx_body = tx, ptx_witness = wit, ptx_received_ms = now \<rparr>)]\<rparr>)"
    using v(2) pool by (simp add: mempool_submit_def mempool_evict_def Let_def bt_get_def)
  then have "build_and_submit_tx N rng now st w to_str amount_str fee_str = (Inr (hex_encode N (body_hash (node_hash N) tx)),
       st\<lparr>ns_mempool := snd (mempool_submit (node_hash N) now (ns_mempool st) tx wit)\<rparr>)"
    using inp info s e N(3)
    by (simp add: build_and_submit_tx_def bind_sum_def client_submit_tx_def rpc_submit_tx_def pool_add_def reply_def hex_ok_def)
  then show thesis using v sub s by (intro that) auto
qed

section \<open>Confirmation\<close>

text \<open>A block with one valid transfer is applied, if the issued amount leaves room for the reward.\<close>

lemma transfer_block_applies:
  assumes K: "account_codec_ok (kx X)" "codec_ok (reflection_c (kx X))" and s: "mem_inv s"
    and body: "txs (body blk) = [tx]" "witnesses (body blk) = [wit]" "call tx = Transfer to amount"
      "witness_digest (hx X) wit = witness_hash tx"
    and v: "validate_tx (mem_ops H) X 0 s tx wit = Inr t"
    and A: "finite A" "stx_from_account t \<in> A" "stx_to t \<in> A" "from_coinbase (coinbase (header blk)) \<in> A"
      "total A (load_or_default (mem_ops H) X s) + unat reward < 2 ^ 128"
  obtains out s' m where "apply_block (mem_ops H) X s blk reward = (Inr out, s')"
    "load_or_default (mem_ops H) X s' =
      (let B = transfer (load_or_default (mem_ops H) X s) t; c = from_coinbase (coinbase (header blk)) in
       B(c := (B c)\<lparr>balance := balance (B c) + m\<rparr>))"
proof -
  let ?ops = "mem_ops H" and ?c = "from_coinbase (coinbase (header blk))"
  let ?B = "load_or_default ?ops X s"
  have req: "required t < 2 ^ 128" "required t \<le> unat (balance (?B (from_account tx)))" "stx_from_account t = from_account tx"
    "acct_nonce (?B (from_account tx)) = stx_expected_nonce t"
    using validate_tx_Inr [OF v] by simp_all
  then have ok: "transfer_ok ?B t" by (simp add: transfer_ok_def)
  obtain s1 where s1: "apply_staged ?ops X s t = Inr s1" using apply_staged_ok [OF ok] by blast
  note l = mem.apply_staged_ledger [OF K(1) s s1]
  have tot: "total A (transfer ?B t) + unat (stx_fee_sat t) = total A ?B"
    using A by (intro transfer_total [OF A(1-3) ok]) simp
  have bal: "unat (balance (transfer ?B t ?c)) \<le> total A (transfer ?B t)" by (rule total_ge [OF A(1,4)])
  have fee: "unat (ucast (stx_fee_sat t) :: u128) = unat (stx_fee_sat t)" by (rule unat_u64_to_u128)
  have fees: "checked_add (0 :: u128) (ucast (stx_fee_sat t)) = Some (ucast (stx_fee_sat t))"
    using unsigned_less [of "ucast (stx_fee_sat t) :: u128", where ?'a = nat] by (simp add: checked_add_def)
  obtain m where m: "checked_add reward (ucast (stx_fee_sat t)) = Some m" "unat m = unat reward + unat (stx_fee_sat t)"
    using A(5) tot fee by (auto simp: checked_add_def unat_word_ariths)
  have "\<exists>b. checked_add (balance (transfer ?B t ?c)) m = Some b"
    using A(5) tot bal m(2) by (simp add: checked_add_def)
  then obtain s2 where p: "pay_coinbase ?ops X (header blk) reward (ucast (stx_fee_sat t)) s1 = Inr (m, s2)"
    using m(1) l by (auto simp: pay_coinbase_def Let_def)
  obtain buf where "enc (reflection_c (kx X)) (block_reflection blk (ucast (stx_fee_sat t)) m) = Some buf"
    using K(2) by (auto simp: codec_ok_def)
  then have "\<exists>out s'. apply_block ?ops X s blk reward = (Inr out, s')"
    using body v s1 fees p by (simp add: apply_block_def Let_def split_beta)
  then obtain out s' where a: "apply_block ?ops X s blk reward = (Inr out, s')" by blast
  obtain fees' staged B1 where b: "validate_all ?ops X s (witnesses (body blk)) 0 (txs (body blk)) 0 = Inr (fees', staged)"
    "ledger_run ?B staged = Some B1"
    "load_or_default ?ops X s' = (let m = ?c in B1(m := (B1 m)\<lparr>balance := balance (B1 m) + coinbase_minted_sat out\<rparr>))"
    by (rule mem.apply_block_ledger [OF K(1) s a])
  have "staged = [t]" using b(1) body v fees by simp
  then have "B1 = transfer ?B t" using b(2) ok by simp
  then show thesis using a b(3) by (intro that) (simp_all add: Let_def)
qed

lemma block_body_of_pool:
  assumes "pool (ns_mempool st) = [(h, t)]"
  shows "txs (pool_body N st) = [ptx_body t]" "witnesses (pool_body N st) = [ptx_witness t]"
  using assms by (simp_all add: pool_body_def pull_for_block_def)

lemma payment_confirmed:
  assumes K: "account_codec_ok (kx (nx N))" "codec_ok (reflection_c (kx (nx N)))" and mem0: "genesis_state N g = Inr mem0"
    and cap: "unat (supply_cap_sat (ns_emission st)) + 99 * unat (initial_reward_sat (ns_emission st)) < 2 ^ 128"
    and inv: "node_inv N st bs" "length bs \<le> 2 ^ 64" and rep: "replayed N mem0 st bs"
    and pool: "pool (ns_mempool st) = [(body_hash (node_hash N) tx, \<lparr> ptx_body = tx, ptx_witness = wit, ptx_received_ms = ms \<rparr>)]"
    and tx: "call tx = Transfer to amount" "witness_hash tx = witness_digest (node_hash N) wit"
      "validate_tx (node_ops N) (nx N) 0 (ns_state st) tx wit = Inr t"
    and c: "miner_candidate N now ts st = Some (Inr blk)" "timestamp_ms (header (last bs)) \<le> ts"
    and now': "ns_genesis_time_ms st \<le> now'" "ts \<le> now' + FUTURE_TIME_TOLERANCE_MS"
    and pow: "meets_target (hash_header (node_hash N) (header (with_nonce blk n))) (target_from_bits (bits (header blk)))"
    and fits: "fits_log (block_c N) (with_nonce blk n)"
  obtains st' m where "try_apply_block N now' st (with_nonce blk n) = (Inr (), st')" "pool (ns_mempool st') = []"
    "load_or_default (node_ops N) (nx N) (ns_state st') =
      (let B = transfer (load_or_default (node_ops N) (nx N) (ns_state st)) t; i = from_coinbase (ns_coinbase st) in
       B(i := (B i)\<lparr>balance := balance (B i) + m\<rparr>))"
    "stx_from_account t \<noteq> stx_to t \<longrightarrow>
      unat (balance (load_or_default (node_ops N) (nx N) (ns_state st) (stx_from_account t))) +
      unat (balance (load_or_default (node_ops N) (nx N) (ns_state st) (stx_to t))) < 2 ^ 128"
proof -
  let ?b = "with_nonce blk n" and ?L = "load_or_default (node_ops N) (nx N)"
  have i: "cs_inv (block_c N) (ns_store st) bs" "chain_ok N st bs" "mem_inv (ns_state st)"
    using inv(1) by (simp_all add: node_inv_def)
  have ne: "bs \<noteq> []" using i(2) by (simp add: chain_ok_def)
  have tip: "cs_tip (ns_store st) = Some (last bs)" using i(1) ne by (simp add: cs_inv_def)
  have chk: "check_block N now' st ?b = Inr ()" by (rule candidate_checks [OF c(1) tip c(2) now' pow])
  have b: "body ?b = pool_body N st" "timestamp_ms (header ?b) = ts" using candidate_fields [OF c(1)] by blast+
  have cb: "coinbase (header ?b) = ns_coinbase st"
    using c(1) by (auto simp: miner_candidate_def Let_def template_from_parent_with_body_def with_nonce_def split: if_splits option.splits)
  note bd = block_body_of_pool [OF pool, of N]
  obtain r where r: "next_reward st (header ?b) = Some r"
    unfolding next_reward_def Let_def by (rule reward_defined)
  then have r': "current_reward_with_height (ns_emission st) (ns_genesis_time_ms st) ts (timestamp_ms (header (last bs)))
      (ns_minted_so_far st) (height (header ?b)) (ns_prev_reward_sat st) = Some r"
    using tip b(2) by (simp add: next_reward_def)
  let ?A = "insert (stx_from_account t) (insert (stx_to t) (insert (from_coinbase (coinbase (header ?b))) (chain_accounts bs)))"
  note ir = issued_room [OF K(1) mem0 cap i(2) inv(2) rep c(2) r']
  have fin: "finite ?A" using ir(1) by simp
  have room: "total ?A (?L (ns_state st)) + unat r < 2 ^ 128" by (rule ir(2) [OF fin]) blast
  obtain out s' m where a: "apply_block (node_ops N) (nx N) (ns_state st) ?b r = (Inr out, s')"
    "?L s' = (let B = transfer (?L (ns_state st)) t; i = from_coinbase (coinbase (header ?b)) in
       B(i := (B i)\<lparr>balance := balance (B i) + m\<rparr>))"
    by (rule transfer_block_applies [OF K i(3) _ _ tx(1) _ tx(3) fin _ _ _ room, of ?b])
      (simp_all add: b(1) bd tx(2))
  obtain cs where "cs_append (block_c N) (ns_store st) ?b = (Inr (), cs)"
    using cs_append_inv(1) [OF i(1) fits] by (metis prod.collapse)
  then have t: "try_apply_block N now' st ?b = (Inr (), st\<lparr>ns_state := s', ns_minted_so_far := sat_add (ns_minted_so_far st) r,
      ns_prev_reward_sat := Some r, ns_mempool := mempool_confirm (ns_mempool st) [body_hash (node_hash N) tx], ns_store := cs\<rparr>)"
    by (simp add: try_apply_block_def commit_block_def Let_def chk r a(1) b(1) bd)
  have pair: "unat (balance (?L (ns_state st) (stx_from_account t))) + unat (balance (?L (ns_state st) (stx_to t))) < 2 ^ 128"
    if "stx_from_account t \<noteq> stx_to t"
  proof -
    have "total {stx_from_account t, stx_to t} (?L (ns_state st)) \<le> total ?A (?L (ns_state st))"
      unfolding total_def by (rule sum_mono2 [OF fin]) auto
    then show ?thesis using room that by (simp add: total_def)
  qed
  show thesis
    by (rule that [OF t _ _ impI [OF pair]]) (use a(2) in \<open>simp_all add: mempool_confirm_def pool bt_remove_def cb\<close>)
qed

text \<open>What a transfer and a coinbase payment to a third account do to sender and recipient.\<close>

lemma transfer_balances:
  fixes b :: u128
  assumes "transfer_ok B t" "stx_from_account t \<noteq> stx_to t" "c \<noteq> stx_from_account t" "c \<noteq> stx_to t"
    and "unat (balance (B (stx_to t))) + unat (stx_amount t) < 2 ^ 128"
  defines "C \<equiv> (transfer B t)(c := (transfer B t c)\<lparr>balance := b\<rparr>)"
  shows "unat (balance (C (stx_from_account t))) + required t = unat (balance (B (stx_from_account t)))"
    "unat (balance (C (stx_to t))) = unat (balance (B (stx_to t))) + unat (stx_amount t)"
    "acct_nonce (C (stx_from_account t)) = sat_add (acct_nonce (B (stx_from_account t))) 1"
proof -
  have r: "unat (stx_amount t + ucast (stx_fee_sat t)) = required t"
    using assms(1) by (simp add: transfer_ok_def required_def unat_word_ariths unat_u64_to_u128)
  then have "stx_amount t + ucast (stx_fee_sat t) \<le> balance (B (stx_from_account t))"
    using assms(1) by (simp add: transfer_ok_def word_le_nat_alt)
  from unat_sub_le [OF this] show "unat (balance (C (stx_from_account t))) + required t = unat (balance (B (stx_from_account t)))"
    using assms(1-4) r by (simp add: C_def transfer_def Let_def debit_def transfer_ok_def)
  show "unat (balance (C (stx_to t))) = unat (balance (B (stx_to t))) + unat (stx_amount t)"
    using assms(2-5) by (simp add: C_def transfer_def Let_def unat_sat_add)
  show "acct_nonce (C (stx_from_account t)) = sat_add (acct_nonce (B (stx_from_account t))) 1"
    using assms(2-4) by (simp add: C_def transfer_def Let_def debit_def)
qed

section \<open>The mining thread repeats a hit\<close>

lemma burst_hit:
  assumes "worker_burst N stride k wk = (wk', True)"
  shows "\<exists>hdr. header_from_json N (wk_tmpl wk') = Inr hdr \<and> meets_target (hash_header (node_hash N) hdr) (wk_target wk')"
  using assms
proof (induction N stride k wk rule: worker_burst.induct)
  case (2 N stride k wk)
  then show ?case by (auto simp: Let_def split: sum.splits if_splits)
qed simp

lemma burst_again:
  assumes "header_from_json N (wk_tmpl wk) = Inr hdr" "meets_target (hash_header (node_hash N) hdr) (wk_target wk)"
  shows "worker_burst N stride (Suc k) wk = (wk\<lparr>wk_hashes := wk_hashes wk + 1\<rparr>, True)"
  using assms by (simp add: Let_def)

lemma burst_counters:
  assumes "worker_burst N stride k wk = (wk', hit)"
  shows "wk_accepted wk' = wk_accepted wk"
  using assms
proof (induction k arbitrary: wk)
  case (Suc k)
  show ?case
  proof (cases "header_from_json N (wk_tmpl wk)")
    case (Inr hdr)
    then show ?thesis
      using Suc.prems Suc.IH [of "wk\<lparr>wk_hashes := wk_hashes wk + 1, wk_tmpl := (wk_tmpl wk)\<lparr>hj_nonce := hj_nonce (wk_tmpl wk) + stride\<rparr>\<rparr>"]
      by (cases "meets_target (hash_header (node_hash N) hdr) (wk_target wk)") (auto simp: Let_def)
  qed (use Suc.prems in simp)
qed simp

lemma pass_accepted:
  assumes "worker_pass N now stride wk st = (wk1, st1)" "wk_accepted wk1 = wk_accepted wk + 1"
  shows "\<exists>wk2. worker_burst N stride 4096 wk = (wk2, True) \<and> worker_submit N now wk2 st = (wk1, st1)"
proof -
  obtain wk2 hit where b: "worker_burst N stride 4096 wk = (wk2, hit)" by (metis prod.collapse)
  show ?thesis
  proof (cases hit)
    case False
    then have "wk1 = wk2" using assms(1) b by (simp add: worker_pass_def)
    then show ?thesis using assms(2) burst_counters [OF b] by simp
  qed (use assms(1) b in \<open>simp add: worker_pass_def\<close>)
qed

abbreviation worker_decode :: "node_ext \<Rightarrow> worker \<Rightarrow> node_error + block" where
  "worker_decode N wk \<equiv> decode_submit N \<lparr> sr_header = wk_tmpl wk, sr_txs_cbor_hex = wk_txs wk, sr_witnesses_cbor_hex = wk_wits wk \<rparr>"

lemma submit_accepted:
  assumes "worker_submit N now wk st = (wk1, st1)" "wk_accepted wk1 = wk_accepted wk + 1"
  shows "wk1 = wk\<lparr>wk_accepted := wk_accepted wk + 1\<rparr> \<and>
    (\<exists>blk. worker_decode N wk = Inr blk \<and> try_apply_block N now st blk = (Inr (), st1))"
proof (cases "worker_decode N wk")
  case (Inl e)
  then show ?thesis using assms by (auto simp: worker_submit_def worker_request_def rpc_submit_def reply_def)
next
  case (Inr blk)
  obtain r st2 where "try_apply_block N now st blk = (r, st2)" by (metis prod.collapse)
  then show ?thesis using assms Inr
    by (cases r) (auto simp: worker_submit_def worker_request_def rpc_submit_def reply_def)
qed

text \<open>A block that was just accepted does not fit on top of itself.\<close>

lemma accepted_block_refused_again:
  assumes "try_apply_block N now st blk = (Inr (), st')" "fits_log (block_c N) blk" "cs_inv (block_c N) (ns_store st) bs"
  shows "\<exists>e. try_apply_block N now' st' blk = (Inl e, st')"
proof -
  have "cs_tip (ns_store st') = Some blk"
    using assms(3,2)
  proof (cases rule: try_apply_block_cases [where now = now])
    case (accepted out s r cs)
    then have "cs_inv (block_c N) cs (bs @ [blk])" using cs_append_inv(2) [OF assms(3,2)] by simp
    then show ?thesis using accepted(5) assms(1) by (auto simp: cs_inv_def)
  qed (use assms(1) in simp_all)
  then have "\<exists>e. check_block N now' st' blk = Inl e" by (simp add: check_block_def tip_context_def Let_def)
  then show ?thesis by (auto simp: try_apply_block_def)
qed

end
