(* ===== verification/Gui_App.thy ===== *)
theory Gui_App
  imports Gui Http
begin

text \<open>
  The desktop application, \<open>main\<close> of \<open>crates/gui/src/main.rs\<close>, as a state machine: the fields of
  the window that the program reads or writes, the wallet in memory and its file, and the mining threads of
  \<open>miner.rs\<close>, with one function per callback. Drawing, the layout of the window and the initial contents of its
  fields belong to the user-interface library (the initial window is an argument). A callback
  runs to its end before the next, while the mining threads interleave with the callbacks and with each other, a thread
  moving by one look at the stop flag or the clock, one hash or one request to the node at a time. Starting a thread is taken to succeed. \<open>None\<close> is a panic. The displayed hash rate is
  kept as hashes and milliseconds, before the floating-point division. Texts of errors come from
  third-party code: \<open>err_text\<close>.
\<close>

section \<open>Where the wallet file is\<close>

datatype platform = Windows | MacOs | OtherPlatform

text \<open>A path is the list of what is joined; \<open>env\<close> is the environment.\<close>

definition dirs_path :: "platform \<Rightarrow> (string \<Rightarrow> string option) \<Rightarrow> string list option" where
  "dirs_path os env =
     (case os of
        Windows \<Rightarrow> map_option (\<lambda>p. [p, ''PyGrove'']) (env ''APPDATA'')
      | MacOs \<Rightarrow> map_option (\<lambda>h. [h, ''Library/Application Support/PyGrove'']) (env ''HOME'')
      | OtherPlatform \<Rightarrow>
          map_option (\<lambda>p. p @ [''pygrove''])
            (case env ''XDG_CONFIG_HOME'' of
               Some p \<Rightarrow> Some [p]
             | None \<Rightarrow> map_option (\<lambda>h. [h, ''.config'']) (env ''HOME'')))"

definition default_path :: "platform \<Rightarrow> (string \<Rightarrow> string option) \<Rightarrow> string list" where
  "default_path os env =
     (case dirs_path os env of Some base \<Rightarrow> base @ [''wallet.json''] | None \<Rightarrow> [''pygrove-wallet.json''])"

section \<open>Mining threads\<close>

text \<open>
  Where a thread is: at the test of the outer loop, waiting for the template it has asked for, and,
  with a template in hand, at the test inside, with at most \<open>k\<close> nonces of a burst of 4096 to go, submitting a hit, or
  at the look at the clock.
\<close>

datatype thread_pc =
    AtHead
  | Fetching
  | AtCheck worker
  | Hashing nat worker
  | Submitting worker
  | AtClock worker
  | Ended

fun pc_work :: "thread_pc \<Rightarrow> worker option" where
  "pc_work (AtCheck wk) = Some wk"
| "pc_work (Hashing k wk) = Some wk"
| "pc_work (Submitting wk) = Some wk"
| "pc_work (AtClock wk) = Some wk"
| "pc_work pc = None"

text \<open>A thread: what it was started with, and where it is.\<close>

record miner_thread =
  th_id :: u64
  th_stride :: u64
  th_coinbase :: bytes
  th_pc :: thread_pc

text \<open>The flag and the counters that a miner's threads share, and the threads.\<close>

record miner_handle =
  mh_stop :: bool
  mh_hashes :: u64
  mh_accepted :: u64
  mh_rejected :: u64
  mh_threads :: "miner_thread list"

definition miner_start :: "nat \<Rightarrow> bytes \<Rightarrow> miner_handle" where
  "miner_start threads cb =
     (let n = max threads 1 in
      \<lparr> mh_stop = False, mh_hashes = 0, mh_accepted = 0, mh_rejected = 0,
        mh_threads = map (\<lambda>t. \<lparr> th_id = of_nat t, th_stride = of_nat n, th_coinbase = cb, th_pc = AtHead \<rparr>) [0..<n] \<rparr>)"

text \<open>A thread works on the current values of the counters.\<close>

definition load_counters :: "miner_handle \<Rightarrow> worker \<Rightarrow> worker" where
  "load_counters h wk = wk\<lparr>wk_hashes := mh_hashes h, wk_accepted := mh_accepted h, wk_rejected := mh_rejected h\<rparr>"

definition store_counters :: "worker \<Rightarrow> miner_handle \<Rightarrow> miner_handle" where
  "store_counters wk h = h\<lparr>mh_hashes := wk_hashes wk, mh_accepted := wk_accepted wk, mh_rejected := wk_rejected wk\<rparr>"

definition set_pc :: "nat \<Rightarrow> thread_pc \<Rightarrow> miner_handle \<Rightarrow> miner_handle" where
  "set_pc i pc h = h\<lparr>mh_threads := (mh_threads h)[i := (mh_threads h ! i)\<lparr>th_pc := pc\<rparr>]\<rparr>"

definition fresh_worker :: worker where
  "fresh_worker = \<lparr> wk_tmpl = \<lparr> hj_version = 0, hj_height = 0, hj_parent = [], hj_timestamp_ms = 0, hj_bits = 0, hj_nonce = 0,
     hj_tx_root = [], hj_witness_root = [], hj_state_root = [], hj_reflect_root = [], hj_coinbase = [], hj_sig_algo = 0,
     hj_hash_algo = 0 \<rparr>, wk_target = [], wk_txs = [], wk_wits = [], wk_hashes = 0, wk_accepted = 0, wk_rejected = 0 \<rparr>"

text \<open>A round of the burst; it ends early with a hit, or when the template gives no header.\<close>

definition after_attempt :: "nat \<Rightarrow> worker \<times> nonce_attempt \<Rightarrow> thread_pc" where
  "after_attempt k r =
     (case snd r of NoHeader \<Rightarrow> AtClock (fst r) | Hit \<Rightarrow> Submitting (fst r) | Miss \<Rightarrow> Hashing k (fst r))"

text \<open>
  One step of thread \<open>i\<close>. The stop flag is read at the two tests only: a thread that has passed
  one finishes its request, or its burst and the submission of a hit. Without a template it waits
  and tries again; \<open>expired\<close> is what the clock says of the ten seconds of a template.
\<close>

definition thread_step ::
    "node_ext \<Rightarrow> u64 \<Rightarrow> bool \<Rightarrow> nat \<Rightarrow> miner_handle \<Rightarrow> node_state \<Rightarrow> miner_handle \<times> node_state" where
  "thread_step N now expired i h st =
     (if length (mh_threads h) \<le> i then (h, st)
      else
        let th = mh_threads h ! i in
        (case th_pc th of
           AtHead \<Rightarrow> (set_pc i (if mh_stop h then Ended else Fetching) h, st)
         | Fetching \<Rightarrow>
             (case worker_start N now st (th_id th) (th_coinbase th) (load_counters h fresh_worker) of
                None \<Rightarrow> (set_pc i AtHead h, st)
              | Some wk \<Rightarrow> (set_pc i (AtCheck wk) h, st))
         | AtCheck wk \<Rightarrow> (set_pc i (if mh_stop h then Ended else Hashing 4096 wk) h, st)
         | Hashing k wk \<Rightarrow>
             (case k of
                0 \<Rightarrow> (set_pc i (AtClock wk) h, st)
              | Suc k \<Rightarrow>
                  let r = try_nonce N (th_stride th) (load_counters h wk) in
                  (set_pc i (after_attempt k r) (store_counters (fst r) h), st))
         | Submitting wk \<Rightarrow>
             (case worker_submit N now (load_counters h wk) st of
                (wk, st) \<Rightarrow> (set_pc i (AtClock wk) (store_counters wk h), st))
         | AtClock wk \<Rightarrow> (set_pc i (if expired then AtHead else AtCheck wk) h, st)
         | Ended \<Rightarrow> (h, st)))"

section \<open>The application\<close>

record ui =
  ui_wallet_address :: string
  ui_wallet_pubkey :: string
  ui_balance_sat :: string
  ui_wallet_nonce :: string
  ui_send_to :: string
  ui_send_amount :: string
  ui_send_fee :: string
  ui_send_status :: string
  ui_block_height :: string
  ui_regime :: string
  ui_halving_progress :: string
  ui_reward_sat :: string
  ui_mine_status :: string
  ui_hashrate :: "u64 \<times> nat"
  ui_accepted :: string
  ui_rejected :: string
  ui_current_target :: string
  ui_node_tip_hash :: string
  ui_node_chain_id :: string
  ui_mining_on :: bool
  ui_device_index :: int
  ui_intensity :: nat
  ui_cpu_cores :: nat

text \<open>
  The miner in the window's slot is the one that runs; a miner that was told to stop is out of the slot, but its threads go on
  until they see the flag.
\<close>

record app =
  app_ui :: ui
  app_wallet :: "wallet option"
  app_path :: "string list"
  app_file :: disk_file
  app_miner :: "miner_handle option"
  app_stopped :: "miner_handle list"
  app_sample :: "nat \<times> u64"
  app_clipboard :: "string option"

record app_ext =
  err_text :: "gui_error \<Rightarrow> string"
  path_text :: "string list \<Rightarrow> string"

definition arrow :: string where "arrow = [CHR 0xE2, CHR 0x86, CHR 0x92]"

abbreviation set_ui :: "(ui \<Rightarrow> ui) \<Rightarrow> app \<Rightarrow> app" where
  "set_ui f a \<equiv> a\<lparr>app_ui := f (app_ui a)\<rparr>"

text \<open>Showing a wallet needs its address as text, which a panic prevents if the encoder fails.\<close>

definition show_wallet :: "node_ext \<Rightarrow> wallet \<Rightarrow> ui \<Rightarrow> (string \<times> ui) option" where
  "show_wallet N w u =
     map_option (\<lambda>s. (s, u\<lparr>ui_wallet_address := s, ui_wallet_pubkey := hex_encode N (wal_public_key w)\<rparr>))
       (to_bech32 (node_hash N) (wal_address w))"

text \<open>Start-up: \<open>u0\<close> is the window as the library creates it, \<open>d\<close> what is at the wallet's path, \<open>io\<close> how file access fails if it does, \<open>rng\<close> what the random source would give.\<close>

definition app_start ::
    "node_ext \<Rightarrow> app_ext \<Rightarrow> platform \<Rightarrow> (string \<Rightarrow> string option) \<Rightarrow> nat \<Rightarrow> nat \<Rightarrow> bytes \<Rightarrow> ui \<Rightarrow> io_fault option \<Rightarrow> disk_file \<Rightarrow> app option" where
  "app_start N A os env cores time rng u0 io d =
     (let u = u0\<lparr>ui_balance_sat := ''0'', ui_block_height := ''0'', ui_regime := ''equilibrium'', ui_halving_progress := ''0 / 210000'',
            ui_reward_sat := ''5000000000'', ui_cpu_cores := cores, ui_intensity := max (cores div 2) 1\<rparr>;
          path = default_path os env;
          (r, d) = load_or_create N rng io d;
          a = \<lparr> app_ui = u, app_wallet = None, app_path = path, app_file = d, app_miner = None, app_stopped = [],
                app_sample = (time, 0), app_clipboard = None \<rparr> in
      (case r of
         Inr w \<Rightarrow>
           map_option (\<lambda>(s, u). a\<lparr>app_ui := u\<lparr>ui_send_status := ''wallet: '' @ path_text A path\<rparr>, app_wallet := Some w\<rparr>)
             (show_wallet N w u)
       | Inl GuiPanicked \<Rightarrow> None
       | Inl e \<Rightarrow> Some (set_ui (\<lambda>u. u\<lparr>ui_wallet_address := ''(no wallet)'', ui_send_status := ''wallet load failed: '' @ err_text A e\<rparr>) a)))"

definition on_connect :: "node_ext \<Rightarrow> app_ext \<Rightarrow> u64 \<Rightarrow> node_state \<Rightarrow> app \<Rightarrow> app" where
  "on_connect N A now st a =
     (case client_get_info N now st of
        Inr info \<Rightarrow>
          set_ui (\<lambda>u. u\<lparr>ui_node_chain_id := ni_chain_id info, ui_node_tip_hash := ni_tip_hash info,
            ui_block_height := show_nat (unat (ni_height info)), ui_current_target := ni_target_hex info, ui_mine_status := ''connected''\<rparr>) a
      | Inl e \<Rightarrow> set_ui (\<lambda>u. u\<lparr>ui_mine_status := ''err: '' @ err_text A e\<rparr>) a)"

text \<open>Stopping sets the flag and gives up the handle; the threads end when they see the flag.\<close>

definition on_mine_toggle :: "app \<Rightarrow> app" where
  "on_mine_toggle a =
     (case app_miner a of
        Some h \<Rightarrow> set_ui (\<lambda>u. u\<lparr>ui_mining_on := False, ui_mine_status := ''stopped''\<rparr>) (a\<lparr>app_miner := None, app_stopped := app_stopped a @ [h\<lparr>mh_stop := True\<rparr>]\<rparr>)
      | None \<Rightarrow>
          if ui_device_index (app_ui a) \<noteq> 0 then set_ui (\<lambda>u. u\<lparr>ui_mine_status := ''GPU mining lands in v0.2''\<rparr>) a
          else
            let threads = max (ui_intensity (app_ui a)) 1;
                cb = (case app_wallet a of None \<Rightarrow> replicate 32 0 | Some w \<Rightarrow> pad_to_32 (wal_address w)) in
            set_ui (\<lambda>u. u\<lparr>ui_mining_on := True, ui_mine_status := ''mining ('' @ show_nat threads @ '' threads) '' @ arrow @ '' wallet''\<rparr>)
              (a\<lparr>app_miner := Some (miner_start threads cb)\<rparr>))"

text \<open>\<open>cb_err\<close> is the clipboard's error, if any.\<close>

definition on_copy_address :: "node_ext \<Rightarrow> string option \<Rightarrow> app \<Rightarrow> app option" where
  "on_copy_address N cb_err a =
     (case app_wallet a of
        None \<Rightarrow> Some (set_ui (\<lambda>u. u\<lparr>ui_send_status := ''no wallet loaded''\<rparr>) a)
      | Some w \<Rightarrow>
          map_option (\<lambda>addr.
            case cb_err of
              None \<Rightarrow> set_ui (\<lambda>u. u\<lparr>ui_send_status := ''copied: '' @ addr\<rparr>) (a\<lparr>app_clipboard := Some addr\<rparr>)
            | Some e \<Rightarrow> set_ui (\<lambda>u. u\<lparr>ui_send_status := ''copy failed: '' @ e\<rparr>) a)
            (to_bech32 (node_hash N) (wal_address w)))"

text \<open>\<open>io\<close> is how writing the file fails, if it does.\<close>

definition on_regenerate_wallet :: "node_ext \<Rightarrow> app_ext \<Rightarrow> bytes \<Rightarrow> io_fault option \<Rightarrow> app \<Rightarrow> app option" where
  "on_regenerate_wallet N A rng io a =
     (let new = wallet_generate N rng;
          (r, d) = wallet_save N io new (app_file a) in
      (case r of
         Inl GuiPanicked \<Rightarrow> None
       | Inl e \<Rightarrow> Some (set_ui (\<lambda>u. u\<lparr>ui_send_status := ''regenerate failed: '' @ err_text A e\<rparr>) (a\<lparr>app_file := d\<rparr>))
       | Inr _ \<Rightarrow>
           map_option (\<lambda>(s, u).
             a\<lparr>app_ui := u\<lparr>ui_balance_sat := ''0'', ui_wallet_nonce := ''0'', ui_send_status := ''regenerated '' @ arrow @ '' '' @ s\<rparr>,
               app_wallet := Some new, app_file := d\<rparr>)
             (show_wallet N new (app_ui a))))"

definition on_send_clicked ::
    "node_ext \<Rightarrow> app_ext \<Rightarrow> bytes \<Rightarrow> u64 \<Rightarrow> app \<Rightarrow> node_state \<Rightarrow> (app \<times> node_state) option" where
  "on_send_clicked N A rng now a st =
     (let u = app_ui a;
          (r, st) = (case app_wallet a of
              Some w \<Rightarrow> build_and_submit_tx N rng now st w (ui_send_to u) (ui_send_amount u) (ui_send_fee u)
            | None \<Rightarrow> (Inl NoWalletLoaded, st)) in
      (case r of
         Inr h \<Rightarrow> Some (set_ui (\<lambda>u. u\<lparr>ui_send_status := ''submitted: '' @ h, ui_send_amount := [], ui_send_to := []\<rparr>) a, st)
       | Inl GuiPanicked \<Rightarrow> None
       | Inl e \<Rightarrow> Some (set_ui (\<lambda>u. u\<lparr>ui_send_status := ''error: '' @ err_text A e\<rparr>) a, st)))"

text \<open>The counters, four times a second; \<open>time\<close> is in milliseconds and the interval at least one.\<close>

definition on_tick :: "nat \<Rightarrow> app \<Rightarrow> app" where
  "on_tick time a =
     (case app_miner a of
        None \<Rightarrow> a
      | Some h \<Rightarrow>
          let (prev_t, prev_h) = app_sample a in
          set_ui (\<lambda>u. u\<lparr>ui_hashrate := (sat_sub (mh_hashes h) prev_h, max (time - prev_t) 1),
            ui_accepted := show_nat (unat (mh_accepted h)), ui_rejected := show_nat (unat (mh_rejected h))\<rparr>)
            (a\<lparr>app_sample := (time, mh_hashes h)\<rparr>))"

definition on_balance_tick :: "node_ext \<Rightarrow> u64 \<Rightarrow> node_state \<Rightarrow> app \<Rightarrow> app option" where
  "on_balance_tick N now st a =
     (case app_wallet a of
        None \<Rightarrow> Some a
      | Some w \<Rightarrow>
          (case client_get_account N now st (wal_address w) of
             Inl GuiPanicked \<Rightarrow> None
           | Inl e \<Rightarrow> Some a
           | Inr info \<Rightarrow>
               Some (set_ui (\<lambda>u. u\<lparr>ui_balance_sat := show_nat (unat (ai_balance_sat info)),
                 ui_wallet_nonce := show_nat (unat (ai_nonce info))\<rparr>) a)))"

section \<open>Runs\<close>

text \<open>The user edits the input fields, presses the buttons, the timers fire, the threads work and the node moves on.\<close>

definition edit_ui :: "string \<Rightarrow> string \<Rightarrow> string \<Rightarrow> int \<Rightarrow> nat \<Rightarrow> ui \<Rightarrow> ui" where
  "edit_ui to amount fee device intensity u =
     u\<lparr>ui_send_to := to, ui_send_amount := amount, ui_send_fee := fee, ui_device_index := device, ui_intensity := intensity\<rparr>"

inductive app_step :: "node_ext \<Rightarrow> app_ext \<Rightarrow> app \<times> node_state \<Rightarrow> app \<times> node_state \<Rightarrow> bool" for N A where
  step_edit: "app_step N A (a, st) (set_ui (edit_ui to amount fee device intensity) a, st)"
| step_connect: "app_step N A (a, st) (on_connect N A now st a, st)"
| step_toggle: "app_step N A (a, st) (on_mine_toggle a, st)"
| step_copy: "on_copy_address N cb_err a = Some a' \<Longrightarrow> app_step N A (a, st) (a', st)"
| step_regenerate: "on_regenerate_wallet N A rng io a = Some a' \<Longrightarrow> app_step N A (a, st) (a', st)"
| step_send: "on_send_clicked N A rng now a st = Some (a', st') \<Longrightarrow> app_step N A (a, st) (a', st')"
| step_tick: "app_step N A (a, st) (on_tick time a, st)"
| step_balance: "on_balance_tick N now st a = Some a' \<Longrightarrow> app_step N A (a, st) (a', st)"
| step_thread:
    "app_miner a = Some h \<Longrightarrow> thread_step N now expired i h st = (h', st') \<Longrightarrow>
     app_step N A (a, st) (a\<lparr>app_miner := Some h'\<rparr>, st')"
| step_stopped:
    "j < length (app_stopped a) \<Longrightarrow> thread_step N now expired i (app_stopped a ! j) st = (h', st') \<Longrightarrow>
     app_step N A (a, st) (a\<lparr>app_stopped := (app_stopped a)[j := h']\<rparr>, st')"
| step_node: "node_step N st st' \<Longrightarrow> app_step N A (a, st) (a, st')"

section \<open>What a thread step keeps\<close>

lemma handle_updates [simp]:
  "mh_stop (set_pc i pc h) = mh_stop h"
  "mh_stop (store_counters wk h) = mh_stop h"
  "mh_threads (store_counters wk h) = mh_threads h"
  "mh_threads (set_pc i pc h) = (mh_threads h)[i := (mh_threads h ! i)\<lparr>th_pc := pc\<rparr>]"
  "wk_tmpl (load_counters h wk) = wk_tmpl wk"
  by (simp_all add: set_pc_def store_counters_def load_counters_def)

abbreviation pc_of :: "nat \<Rightarrow> miner_handle \<Rightarrow> thread_pc" where
  "pc_of i h \<equiv> th_pc (mh_threads h ! i)"

text \<open>Only the place where thread \<open>i\<close> is changes among the threads, and the node only through a submission.\<close>

lemma thread_step_frame:
  assumes "thread_step N now x i h st = (h', st')"
  shows "mh_stop h' = mh_stop h"
    and "i < length (mh_threads h) \<Longrightarrow> \<exists>pc. mh_threads h' = (mh_threads h)[i := (mh_threads h ! i)\<lparr>th_pc := pc\<rparr>]"
    and "st' \<noteq> st \<Longrightarrow> i < length (mh_threads h) \<and> (\<exists>wk. pc_of i h = Submitting wk)"
proof -
  have same: "(mh_threads h)[i := (mh_threads h ! i)\<lparr>th_pc := pc_of i h\<rparr>] = mh_threads h" by simp
  show "mh_stop h' = mh_stop h"
    using assms by (auto simp: thread_step_def Let_def split: if_splits thread_pc.splits option.splits prod.splits nat.splits)
  show "\<exists>pc. mh_threads h' = (mh_threads h)[i := (mh_threads h ! i)\<lparr>th_pc := pc\<rparr>]" if "i < length (mh_threads h)"
  proof (cases "pc_of i h = Ended")
    case True
    then have "h' = h" using assms that by (simp add: thread_step_def)
    then show ?thesis using same by metis
  next
    case False
    then show ?thesis
      using assms that by (auto simp: thread_step_def Let_def split: if_splits thread_pc.splits option.splits prod.splits nat.splits)
  qed
  show "i < length (mh_threads h) \<and> (\<exists>wk. pc_of i h = Submitting wk)" if "st' \<noteq> st"
    using assms that by (auto simp: thread_step_def Let_def split: if_splits thread_pc.splits option.splits prod.splits nat.splits)
qed

lemma thread_step_lists:
  assumes "thread_step N now x i h st = (h', st')"
  shows "length (mh_threads h') = length (mh_threads h)" "map th_coinbase (mh_threads h') = map th_coinbase (mh_threads h)"
proof -
  have h: "mh_threads h' = mh_threads h" if "\<not> i < length (mh_threads h)" using assms that by (simp add: thread_step_def)
  show l: "length (mh_threads h') = length (mh_threads h)" using thread_step_frame(2) [OF assms] h by (metis length_list_update)
  show "map th_coinbase (mh_threads h') = map th_coinbase (mh_threads h)"
  proof (cases "i < length (mh_threads h)")
    case True
    then obtain pc where "mh_threads h' = (mh_threads h)[i := (mh_threads h ! i)\<lparr>th_pc := pc\<rparr>]" using thread_step_frame(2) [OF assms] by blast
    then show ?thesis by (simp add: map_update list_update_same_conv True)
  qed (simp add: h)
qed

text \<open>
  How long a thread goes on once it is told to stop: its burst, a submission and the looks at the
  clock and at the flag.
\<close>

fun stop_rank :: "thread_pc \<Rightarrow> nat" where
  "stop_rank Ended = 0"
| "stop_rank AtHead = 1"
| "stop_rank (AtCheck wk) = 1"
| "stop_rank Fetching = 2"
| "stop_rank (AtClock wk) = 2"
| "stop_rank (Submitting wk) = 3"
| "stop_rank (Hashing k wk) = 4 + k"

lemma stop_rank_step:
  assumes "thread_step N now x i h st = (h', st')" "mh_stop h" "i < length (mh_threads h)"
  shows "stop_rank (pc_of i h') \<le> stop_rank (pc_of i h) - 1"
  using assms
  by (auto simp: thread_step_def after_attempt_def Let_def split: thread_pc.splits option.splits prod.splits nat.splits nonce_attempt.splits)

lemma stop_rank_0 [simp]: "stop_rank pc = 0 \<longleftrightarrow> pc = Ended"
  by (cases pc) simp_all

text \<open>Undisturbed, the steps of a thread are the passes of \<open>worker_pass\<close>.\<close>

lemma handle_overwrite [simp]:
  "i < length (mh_threads h) \<Longrightarrow> set_pc i pc (store_counters w (set_pc i pc' (store_counters w' h))) = set_pc i pc (store_counters w h)"
  "load_counters (set_pc i pc (store_counters w h)) w = w"
  "store_counters (load_counters h w) h = h"
  by (simp_all add: set_pc_def store_counters_def load_counters_def)

abbreviation thread_steps :: "node_ext \<Rightarrow> u64 \<Rightarrow> bool \<Rightarrow> nat \<Rightarrow> nat \<Rightarrow> miner_handle \<times> node_state \<Rightarrow> miner_handle \<times> node_state" where
  "thread_steps N now x i c \<equiv> (\<lambda>(h, st). thread_step N now x i h st) ^^ c"

lemma thread_burst:
  assumes "i < length (mh_threads h)" "pc_of i h = Hashing k wk" "load_counters h wk = wk"
    "worker_burst N (th_stride (mh_threads h ! i)) k wk = (wk', hit)"
  shows "\<exists>c. thread_steps N now x i c (h, st) = (set_pc i (if hit then Submitting wk' else AtClock wk') (store_counters wk' h), st)"
  using assms
proof (induction k arbitrary: h wk)
  case 0
  have "store_counters wk h = h" using 0(3) handle_overwrite(3) by metis
  then show ?case using 0 by (intro exI [of _ 1]) (simp add: thread_step_def)
next
  case (Suc k)
  obtain w r where r: "try_nonce N (th_stride (mh_threads h ! i)) wk = (w, r)" by fastforce
  let ?h = "set_pc i (after_attempt k (w, r)) (store_counters w h)"
  have step: "thread_step N now x i h st = (?h, st)" using Suc.prems r by (simp add: thread_step_def Let_def)
  show ?case
  proof (cases "r = Miss")
    case True
    then obtain c where "thread_steps N now x i c (?h, st) = (set_pc i (if hit then Submitting wk' else AtClock wk') (store_counters wk' ?h), st)"
      using Suc.IH [of ?h w] Suc.prems r by (auto simp: after_attempt_def worker_burst_try simp del: worker_burst_Suc)
    then have "thread_steps N now x i (Suc c) (h, st) = (set_pc i (if hit then Submitting wk' else AtClock wk') (store_counters wk' h), st)"
      using step Suc.prems(1) by (simp add: funpow_swap1)
    then show ?thesis by blast
  next
    case False
    then show ?thesis using Suc.prems r step
      by (intro exI [of _ 1]) (auto simp: after_attempt_def worker_burst_try simp del: worker_burst_Suc split: nonce_attempt.splits)
  qed
qed

lemma thread_pass:
  assumes "i < length (mh_threads h)" "pc_of i h = AtCheck wk" "load_counters h wk = wk" "\<not> mh_stop h"
    "worker_pass N now (th_stride (mh_threads h ! i)) wk st = (wk', st')"
  shows "\<exists>c. thread_steps N now x i c (h, st) = (set_pc i (AtClock wk') (store_counters wk' h), st')"
proof -
  let ?h = "set_pc i (Hashing 4096 wk) h"
  obtain w hit where b: "worker_burst N (th_stride (mh_threads h ! i)) 4096 wk = (w, hit)" by fastforce
  have s1: "thread_step N now x i h st = (?h, st)" using assms by (simp add: thread_step_def)
  have ov: "set_pc i pc (store_counters v ?h) = set_pc i pc (store_counters v h)" for pc v
    using assms(1) by (simp add: set_pc_def store_counters_def)
  have lc: "load_counters ?h wk = wk" using assms(3) by (simp add: set_pc_def load_counters_def)
  obtain c where "thread_steps N now x i c (?h, st) = (set_pc i (if hit then Submitting w else AtClock w) (store_counters w ?h), st)"
    using thread_burst [of i ?h 4096 wk N w hit now x st] assms(1) lc b by auto
  then have c: "thread_steps N now x i (Suc c) (h, st) = (set_pc i (if hit then Submitting w else AtClock w) (store_counters w h), st)"
    using s1 ov by (simp add: funpow_swap1)
  show ?thesis
  proof (cases hit)
    case True
    then have "thread_step N now x i (set_pc i (Submitting w) (store_counters w h)) st = (set_pc i (AtClock wk') (store_counters wk' h), st')"
      using assms(1,5) b by (simp add: thread_step_def worker_pass_def)
    then show ?thesis using c True by (intro exI [of _ "Suc (Suc c)"]) simp
  next
    case False
    then show ?thesis using c assms(5) b by (intro exI [of _ "Suc c"]) (simp add: worker_pass_def)
  qed
qed

section \<open>Invariants\<close>

text \<open>
  After at most \<open>m\<close> steps, thread \<open>i\<close> of \<open>n\<close> is at nonce \<open>i + k n\<close>, with \<open>k \<le> m\<close>, of a
  template that pays the common coinbase.
\<close>

definition thread_ok :: "node_ext \<Rightarrow> nat \<Rightarrow> nat \<Rightarrow> bytes \<Rightarrow> nat \<Rightarrow> miner_thread \<Rightarrow> bool" where
  "thread_ok N m n cb i th \<longleftrightarrow>
     th_id th = of_nat i \<and> th_stride th = of_nat n \<and> th_coinbase th = cb \<and> stop_rank (th_pc th) \<le> 4100 \<and>
     (\<forall>wk. pc_work (th_pc th) = Some wk \<longrightarrow>
        hj_coinbase (wk_tmpl wk) = hex_encode N cb \<and> (\<exists>k \<le> m. hj_nonce (wk_tmpl wk) = of_nat (i + k * n)))"

definition miner_ok :: "node_ext \<Rightarrow> nat \<Rightarrow> miner_handle \<Rightarrow> bool" where
  "miner_ok N m h \<longleftrightarrow>
     (\<exists>cb. \<forall>i < length (mh_threads h). thread_ok N m (length (mh_threads h)) cb i (mh_threads h ! i))"

text \<open>Without a wrap-around the nonce tells the thread.\<close>

lemma thread_ok_nonce:
  assumes "thread_ok N m n cb i th" "pc_work (th_pc th) = Some wk" "i < n" "n * Suc m \<le> 2 ^ 64"
  shows "unat (hj_nonce (wk_tmpl wk)) mod n = i"
proof -
  obtain k where k: "k \<le> m" "hj_nonce (wk_tmpl wk) = of_nat (i + k * n)" using assms(1,2) by (auto simp: thread_ok_def)
  have "i + k * n < n + m * n" using assms(3) k(1) by (intro add_less_le_mono) simp_all
  then have "i + k * n < 2 ^ 64" using assms(4) by (simp add: algebra_simps)
  then have "unat (of_nat (i + k * n) :: u64) = i + k * n" by (simp only: unat_of_nat take_bit_nat_eq_self len_bit0 len_num1) (simp add: take_bit_nat_eq_self)
  then have "unat (hj_nonce (wk_tmpl wk)) = i + k * n" using k(2) by simp
  then show ?thesis using assms(3) by simp
qed

lemma thread_ok_mono:
  assumes "thread_ok N m n cb i th" "m \<le> m'"
  shows "thread_ok N m' n cb i th"
  using assms unfolding thread_ok_def by (meson le_trans)

lemma miner_ok_mono: "miner_ok N m h \<Longrightarrow> m \<le> m' \<Longrightarrow> miner_ok N m' h"
  unfolding miner_ok_def using thread_ok_mono by blast

lemma thread_ok_idle: "thread_ok N m n cb i th \<Longrightarrow> pc_work pc = None \<Longrightarrow> stop_rank pc \<le> 4100 \<Longrightarrow> thread_ok N m n cb i (th\<lparr>th_pc := pc\<rparr>)"
  by (simp add: thread_ok_def)

lemma thread_ok_work:
  assumes "thread_ok N m n cb i th" "pc_work pc = Some wk" "stop_rank pc \<le> 4100"
    and "hj_coinbase (wk_tmpl wk) = hex_encode N cb" "hj_nonce (wk_tmpl wk) = of_nat (i + k * n)" "k \<le> m"
  shows "thread_ok N m n cb i (th\<lparr>th_pc := pc\<rparr>)"
  using assms unfolding thread_ok_def by (intro conjI allI impI exI [of _ k]) simp_all

lemma try_nonce_tmpl:
  assumes "try_nonce N stride wk = (wk', r)"
  shows "hj_coinbase (wk_tmpl wk') = hj_coinbase (wk_tmpl wk)"
    "hj_nonce (wk_tmpl wk') = hj_nonce (wk_tmpl wk) + (if r = Miss then stride else 0)"
  using assms by (auto simp: try_nonce_def Let_def split: sum.splits if_splits)

lemma worker_submit_tmpl: "worker_submit N now wk st = (wk', st') \<Longrightarrow> wk_tmpl wk' = wk_tmpl wk"
  by (auto simp: worker_submit_def split: prod.splits rpc_result.splits)

lemma worker_start_tmpl:
  "worker_start N now st tid cb wk = Some wk' \<Longrightarrow> hj_coinbase (wk_tmpl wk') = hex_encode N cb \<and> hj_nonce (wk_tmpl wk') = tid"
  by (auto simp: worker_start_def split: sum.splits)

lemma after_attempt_work: "pc_work (after_attempt k r) = Some (fst r)" "stop_rank (after_attempt k r) \<le> 4 + k"
  by (simp_all add: after_attempt_def split: nonce_attempt.split)

lemma thread_ok_keep:
  assumes "thread_ok N m n cb i th" "pc_work (th_pc th) = Some wk" "pc_work pc = Some wk'" "wk_tmpl wk' = wk_tmpl wk" "stop_rank pc \<le> 4100"
  shows "thread_ok N (Suc m) n cb i (th\<lparr>th_pc := pc\<rparr>)"
proof -
  obtain k where "k \<le> m" "hj_nonce (wk_tmpl wk) = of_nat (i + k * n)" using assms(1,2) by (auto simp: thread_ok_def)
  moreover have "hj_coinbase (wk_tmpl wk) = hex_encode N cb" using assms(1,2) by (simp add: thread_ok_def)
  ultimately show ?thesis
    using assms(4) by (intro thread_ok_work [OF thread_ok_mono [OF assms(1)] assms(3,5), of _ k]) simp_all
qed

lemma thread_ok_hash:
  assumes o: "thread_ok N m n cb i th" "th_pc th = Hashing (Suc k) wk" and r: "try_nonce N (th_stride th) (load_counters h wk) = (wk', r)"
  shows "thread_ok N (Suc m) n cb i (th\<lparr>th_pc := after_attempt k (wk', r)\<rparr>)"
proof -
  obtain q where q: "q \<le> m" "hj_nonce (wk_tmpl wk) = of_nat (i + q * n)" "hj_coinbase (wk_tmpl wk) = hex_encode N cb"
    using o by (auto simp: thread_ok_def)
  have k: "k \<le> 4095" "th_stride th = of_nat n" using o by (simp_all add: thread_ok_def)
  show ?thesis
  proof (rule thread_ok_work [OF thread_ok_mono [OF o(1)], of _ _ wk' "if r = Miss then Suc q else q"])
    show "pc_work (after_attempt k (wk', r)) = Some wk'" by (simp add: after_attempt_work)
    show "stop_rank (after_attempt k (wk', r)) \<le> 4100" using after_attempt_work(2) [of k "(wk', r)"] k(1) by simp
    show "hj_nonce (wk_tmpl wk') = of_nat (i + (if r = Miss then Suc q else q) * n)"
      using try_nonce_tmpl(2) [OF r] q(2) k(2) by (simp add: algebra_simps)
  qed (use try_nonce_tmpl(1) [OF r] q in simp_all)
qed

lemma thread_ok_step:
  assumes s: "thread_step N now x i h st = (h', st')" "i < length (mh_threads h)"
    and o: "thread_ok N m n cb i (mh_threads h ! i)"
  shows "thread_ok N (Suc m) n cb i (mh_threads h' ! i)"
proof -
  let ?th = "mh_threads h ! i"
  have o': "thread_ok N (Suc m) n cb i ?th" using thread_ok_mono [OF o] by simp
  note simps = thread_step_def Let_def and keep = thread_ok_keep [OF o] and idle = thread_ok_idle [OF o']
  show ?thesis
  proof (cases "th_pc ?th")
    case AtHead
    then show ?thesis using s idle [of "if mh_stop h then Ended else Fetching"] by (auto simp: simps)
  next
    case Fetching
    show ?thesis
    proof (cases "worker_start N now st (th_id ?th) (th_coinbase ?th) (load_counters h fresh_worker)")
      case None
      then show ?thesis using s Fetching idle [of AtHead] by (auto simp: simps)
    next
      case (Some wk)
      have "thread_ok N (Suc m) n cb i (?th\<lparr>th_pc := AtCheck wk\<rparr>)"
        using worker_start_tmpl [OF Some] o by (intro thread_ok_work [OF o', of _ wk 0]) (simp_all add: thread_ok_def)
      then show ?thesis using s Fetching Some by (auto simp: simps)
    qed
  next
    case (AtCheck wk)
    then show ?thesis using s keep [of wk "Hashing 4096 wk" wk] idle [of Ended] by (auto simp: simps)
  next
    case (Hashing k wk)
    then show ?thesis
      using s keep [of wk "AtClock wk" wk] thread_ok_hash [OF o, where h = h]
      by (cases k; cases "try_nonce N (th_stride ?th) (load_counters h wk)") (auto simp: simps)
  next
    case (Submitting wk)
    then obtain wk' where wk': "worker_submit N now (load_counters h wk) st = (wk', st')" "h' = set_pc i (AtClock wk') (store_counters wk' h)"
      using s by (auto simp: simps split: prod.splits)
    then show ?thesis using s(2) Submitting keep [of wk "AtClock wk'" wk'] worker_submit_tmpl [OF wk'(1)] by simp
  next
    case (AtClock wk)
    then show ?thesis using s keep [of wk "AtCheck wk" wk] idle [of AtHead] by (auto simp: simps)
  next
    case Ended
    then show ?thesis using s o' by (auto simp: simps)
  qed
qed

lemma miner_ok_step:
  assumes "thread_step N now x i h st = (h', st')" "miner_ok N m h"
  shows "miner_ok N (Suc m) h'"
proof (cases "i < length (mh_threads h)")
  case True
  obtain cb where cb: "\<forall>j < length (mh_threads h). thread_ok N m (length (mh_threads h)) cb j (mh_threads h ! j)"
    using assms(2) by (auto simp: miner_ok_def)
  obtain pc where pc: "mh_threads h' = (mh_threads h)[i := (mh_threads h ! i)\<lparr>th_pc := pc\<rparr>]"
    using thread_step_frame(2) [OF assms(1) True] by blast
  have "thread_ok N (Suc m) (length (mh_threads h)) cb j (mh_threads h' ! j)" if "j < length (mh_threads h)" for j
    using thread_ok_step [OF assms(1) True] thread_ok_mono [of N m _ cb j "mh_threads h ! j" "Suc m"] cb that pc
    by (cases "j = i") (simp_all add: True)
  then show ?thesis unfolding miner_ok_def thread_step_lists(1) [OF assms(1)] by blast
next
  case False
  then show ?thesis using assms by (auto simp: thread_step_def intro: miner_ok_mono)
qed

lemma miner_ok_start: "miner_ok N m (miner_start n cb)"
  unfolding miner_ok_def by (auto simp: miner_start_def Let_def thread_ok_def intro: exI [of _ cb])

text \<open>
  The wallet in memory is the one its file holds, if no write of the file has been interrupted; \<open>d\<close> is what start-up found at the path.
\<close>

definition wallet_shown :: "node_ext \<Rightarrow> disk_file \<Rightarrow> app \<Rightarrow> bool" where
  "wallet_shown N d a \<longleftrightarrow>
     (case app_wallet a of
        None \<Rightarrow> app_file a \<in> {d, Truncated} \<and> ui_wallet_address (app_ui a) = ''(no wallet)''
      | Some w \<Rightarrow>
          (wallet_load N None (app_file a) = Inr w \<or> app_file a = Truncated) \<and>
          to_bech32 (node_hash N) (wal_address w) = Some (ui_wallet_address (app_ui a)) \<and>
          ui_wallet_pubkey (app_ui a) = hex_encode N (wal_public_key w))"

definition app_ok :: "node_ext \<Rightarrow> disk_file \<Rightarrow> nat \<Rightarrow> app \<Rightarrow> bool" where
  "app_ok N d m a \<longleftrightarrow>
     wallet_shown N d a \<and> (ui_mining_on (app_ui a) \<longleftrightarrow> app_miner a \<noteq> None) \<and>
     (\<forall>h. app_miner a = Some h \<longrightarrow> \<not> mh_stop h \<and> miner_ok N m h) \<and>
     (\<forall>h \<in> set (app_stopped a). mh_stop h \<and> miner_ok N m h)"

text \<open>Most callbacks touch neither wallet nor miner nor the fields that show them.\<close>

definition same_core :: "app \<Rightarrow> app \<Rightarrow> bool" where
  "same_core a b \<longleftrightarrow>
     app_wallet b = app_wallet a \<and> app_file b = app_file a \<and> app_miner b = app_miner a \<and> app_stopped b = app_stopped a \<and>
     ui_wallet_address (app_ui b) = ui_wallet_address (app_ui a) \<and> ui_wallet_pubkey (app_ui b) = ui_wallet_pubkey (app_ui a) \<and>
     ui_mining_on (app_ui b) = ui_mining_on (app_ui a)"

lemma app_ok_mono: "app_ok N d m a \<Longrightarrow> m \<le> m' \<Longrightarrow> app_ok N d m' a"
  unfolding app_ok_def using miner_ok_mono by blast

lemma same_core_ok: "same_core a b \<Longrightarrow> app_ok N d m a \<Longrightarrow> app_ok N d (Suc m) b"
  using app_ok_mono [of N d m a "Suc m"] by (simp add: same_core_def app_ok_def wallet_shown_def split: option.splits)

lemma callbacks_same_core:
  "same_core a a"
  "same_core a (set_ui (edit_ui to amount fee device intensity) a)"
  "same_core a (on_connect N A now st a)"
  "same_core a (on_tick time a)"
  "on_copy_address N cb_err a = Some a' \<Longrightarrow> same_core a a'"
  "on_send_clicked N A rng now a st = Some (a', st') \<Longrightarrow> same_core a a'"
  "on_balance_tick N now st a = Some a' \<Longrightarrow> same_core a a'"
  by (auto simp: same_core_def edit_ui_def on_connect_def on_tick_def on_copy_address_def on_send_clicked_def on_balance_tick_def
      Let_def split: sum.splits option.splits prod.splits gui_error.splits)

lemmas callbacks_ok = callbacks_same_core [THEN same_core_ok]

lemma show_wallet_Some:
  "show_wallet N w u = Some (s, u') \<longleftrightarrow>
     to_bech32 (node_hash N) (wal_address w) = Some s \<and> u' = u\<lparr>ui_wallet_address := s, ui_wallet_pubkey := hex_encode N (wal_public_key w)\<rparr>"
  by (auto simp: show_wallet_def)

lemma saved_loads:
  assumes "hash_ok (node_hash N)" "bech32_ok (node_hash N)" "hex_ok N" "wallet_save N None (wallet_generate N rng) d = (Inr (), d')"
  shows "wallet_load N None d' = Inr (wallet_generate N rng)"
  using wallet_roundtrip [OF assms(3,2), of "wallet_generate N rng" d] assms(1,4)
  by (auto simp: wallet_generate_def ed25519_keypair_def Let_def length_from_pubkey)

lemma wallet_load_fault: "wallet_load N io d = Inr w \<Longrightarrow> wallet_load N None d = Inr w"
  by (simp add: wallet_load_def split: if_splits)

text \<open>What start-up reads or creates is on disk; if it fails, the file is as found or truncated.\<close>

lemma load_or_create_file:
  assumes N: "hash_ok (node_hash N)" "bech32_ok (node_hash N)" "hex_ok N" and l: "load_or_create N rng io d = (r, d')"
  shows "case r of Inl e \<Rightarrow> d' \<in> {d, Truncated} | Inr w \<Rightarrow> wallet_load N None d' = Inr w"
proof (cases "d = NoFile")
  case True
  obtain r' d'' where s: "wallet_save N io (wallet_generate N rng) d = (r', d'')" by (rule prod.exhaust)
  then have l': "r = (case r' of Inl e \<Rightarrow> Inl e | Inr u \<Rightarrow> Inr (wallet_generate N rng))" "d' = d''"
    using l True by (simp_all add: load_or_create_def Let_def split: sum.splits)
  from s show ?thesis
  proof (cases rule: wallet_save_cases)
    case saved
    then show ?thesis using l' saved_loads [OF N saved(2)] by simp
  qed (use l' in simp_all)
next
  case False
  then show ?thesis using l wallet_load_fault by (auto simp: load_or_create_def split: sum.splits)
qed

lemma app_ok_start:
  assumes N: "hash_ok (node_hash N)" "bech32_ok (node_hash N)" "hex_ok N"
    and s: "app_start N A os env cores time rng u0 io d = Some a" "\<not> ui_mining_on u0"
  shows "app_ok N d m a"
proof -
  obtain r d' where l: "load_or_create N rng io d = (r, d')" by fastforce
  note f = load_or_create_file [OF N l]
  show ?thesis
  proof (cases r)
    case (Inl e)
    then show ?thesis using s l f by (cases e) (auto simp: app_start_def Let_def app_ok_def wallet_shown_def)
  next
    case (Inr w)
    then show ?thesis using s l f by (auto simp: app_start_def Let_def app_ok_def wallet_shown_def show_wallet_Some)
  qed
qed

lemma app_ok_toggle:
  assumes "app_ok N d m a"
  shows "app_ok N d m (on_mine_toggle a)"
proof (cases "app_miner a")
  case None
  then show ?thesis using assms miner_ok_start
    by (auto simp: on_mine_toggle_def app_ok_def wallet_shown_def miner_start_def Let_def split: option.splits)
next
  case (Some h)
  have "miner_ok N m (h\<lparr>mh_stop := True\<rparr>)" using assms Some by (simp add: app_ok_def miner_ok_def)
  then show ?thesis using assms Some by (auto simp: on_mine_toggle_def app_ok_def wallet_shown_def split: option.splits)
qed

text \<open>Regenerating the wallet, by what becomes of the write.\<close>

lemma regenerate_cases:
  assumes N: "hash_ok (node_hash N)" "bech32_ok (node_hash N)" "hex_ok N" and g: "on_regenerate_wallet N A rng io a = Some a'"
  obtains (replaced) s u' where "io \<notin> {Some DirFails, Some OpenFails, Some WriteFails}" "show_wallet N (wallet_generate N rng) (app_ui a) = Some (s, u')"
      "a' = a\<lparr>app_ui := u'\<lparr>ui_balance_sat := ''0'', ui_wallet_nonce := ''0'', ui_send_status := ''regenerated '' @ arrow @ '' '' @ s\<rparr>,
         app_wallet := Some (wallet_generate N rng), app_file := app_file a'\<rparr>"
      "wallet_load N None (app_file a') = Inr (wallet_generate N rng)"
  | (failed) t where "io \<in> {Some DirFails, Some OpenFails, Some WriteFails}"
      "a' = set_ui (\<lambda>u. u\<lparr>ui_send_status := t\<rparr>) (a\<lparr>app_file := (if io = Some WriteFails then Truncated else app_file a)\<rparr>)"
proof -
  let ?w = "wallet_generate N rng"
  have l: "length (wal_address ?w) = 20" using N(1) by (simp add: wallet_generate_def ed25519_keypair_def Let_def length_from_pubkey)
  obtain b where b: "to_bech32 (node_hash N) (wal_address ?w) = Some b" by (rule bech32_roundtrip [OF N(2) l])
  obtain r d' where s: "wallet_save N io ?w (app_file a) = (r, d')" by (rule prod.exhaust)
  show thesis
  proof (cases "io \<in> {Some DirFails, Some OpenFails, Some WriteFails}")
    case True
    then obtain e where "r = Inl e" "e \<noteq> GuiPanicked" "d' = (if io = Some WriteFails then Truncated else app_file a)"
      using s b by (auto simp: wallet_save_def Let_def)
    then have "a' = set_ui (\<lambda>u. u\<lparr>ui_send_status := ''regenerate failed: '' @ err_text A e\<rparr>)
        (a\<lparr>app_file := (if io = Some WriteFails then Truncated else app_file a)\<rparr>)"
      using g s by (cases e) (simp_all add: on_regenerate_wallet_def Let_def)
    then show thesis by (rule failed [OF True])
  next
    case False
    then have d: "r = Inr ()" "wallet_save N None ?w (app_file a) = (Inr (), d')"
      using s b by (simp_all add: wallet_save_def Let_def)
    from g obtain t u' where u: "show_wallet N ?w (app_ui a) = Some (t, u')"
      "a' = a\<lparr>app_ui := u'\<lparr>ui_balance_sat := ''0'', ui_wallet_nonce := ''0'', ui_send_status := ''regenerated '' @ arrow @ '' '' @ t\<rparr>,
         app_wallet := Some ?w, app_file := d'\<rparr>"
      by (auto simp: on_regenerate_wallet_def Let_def s d(1))
    moreover have "app_file a' = d'" by (simp add: u(2))
    ultimately show thesis using False saved_loads [OF N d(2)] by (intro replaced) simp_all
  qed
qed

lemma app_ok_regenerate:
  assumes N: "hash_ok (node_hash N)" "bech32_ok (node_hash N)" "hex_ok N"
    and o: "app_ok N d m a" and g: "on_regenerate_wallet N A rng io a = Some a'"
  shows "app_ok N d m a'"
  using N g
proof (cases rule: regenerate_cases)
  case (replaced s u')
  have "app_wallet a' = Some (wallet_generate N rng)" "app_miner a' = app_miner a" "app_stopped a' = app_stopped a"
    "app_ui a' = u'\<lparr>ui_balance_sat := ''0'', ui_wallet_nonce := ''0'', ui_send_status := ''regenerated '' @ arrow @ '' '' @ s\<rparr>"
    by (subst replaced(3), simp)+
  then show ?thesis using o replaced(2,4) by (auto simp: app_ok_def wallet_shown_def show_wallet_Some)
next
  case (failed t)
  then show ?thesis using o by (auto simp: app_ok_def wallet_shown_def split: option.splits)
qed

lemma app_ok_step:
  assumes N: "hash_ok (node_hash N)" "bech32_ok (node_hash N)" "hex_ok N"
    and "app_step N A p q" "app_ok N d m (fst p)"
  shows "app_ok N d (Suc m) (fst q)"
proof -
  have o: "app_ok N d (Suc m) (fst p)" using app_ok_mono [OF assms(5)] by simp
  show ?thesis
    using assms(4)
  proof cases
    case (step_thread a h now expired i st h' st')
    then have "\<not> mh_stop h" "miner_ok N m h" using assms(5) by (simp_all add: app_ok_def)
    then show ?thesis using step_thread o miner_ok_step [OF step_thread(4)] thread_step_frame(1) [OF step_thread(4)]
      by (simp add: app_ok_def wallet_shown_def split: option.splits)
  next
    case (step_stopped j a now expired i st h' st')
    then have "mh_stop (app_stopped a ! j)" "miner_ok N m (app_stopped a ! j)" using assms(5) by (simp_all add: app_ok_def)
    then have "mh_stop h'" "miner_ok N (Suc m) h'" using miner_ok_step [OF step_stopped(4)] thread_step_frame(1) [OF step_stopped(4)] by simp_all
    then show ?thesis using step_stopped o set_update_subset_insert [of "app_stopped a" j h']
      by (auto simp: app_ok_def wallet_shown_def split: option.splits)
  qed (use assms(5) o in \<open>auto intro: callbacks_ok app_ok_toggle app_ok_regenerate [OF N]\<close>)
qed

lemma app_ok_run:
  assumes N: "hash_ok (node_hash N)" "bech32_ok (node_hash N)" "hex_ok N"
    and "(app_step N A ^^ m) p q" "app_ok N d 0 (fst p)"
  shows "app_ok N d m (fst q)"
  using assms(4)
proof (induction m arbitrary: q)
  case (Suc m)
  then obtain r where "(app_step N A ^^ m) p r" "app_step N A r q" by auto
  then show ?case using Suc.IH app_ok_step [OF N] by blast
qed (use assms(5) in simp)

section \<open>Consequences\<close>

text \<open>A failed write that had begun leaves no wallet to start from.\<close>

lemma start_truncated: "app_start N A os env cores time rng u0 io Truncated = Some a \<Longrightarrow> app_wallet a = None"
  by (auto simp: app_start_def load_or_create_def wallet_load_def Let_def split: if_splits)

lemma regenerate_result:
  assumes N: "hash_ok (node_hash N)" "bech32_ok (node_hash N)" "hex_ok N" and g: "on_regenerate_wallet N A ks io a = Some a'"
  shows "app_miner a' = app_miner a \<and> app_stopped a' = app_stopped a \<and>
    (if io \<in> {Some DirFails, Some OpenFails, Some WriteFails}
     then app_wallet a' = app_wallet a \<and> app_file a' = (if io = Some WriteFails then Truncated else app_file a)
     else app_wallet a' = Some (wallet_generate N ks) \<and> wallet_load N None (app_file a') = Inr (wallet_generate N ks))"
  using N g
proof (cases rule: regenerate_cases)
  case (replaced s u')
  have "app_wallet a' = Some (wallet_generate N ks)" "app_miner a' = app_miner a" "app_stopped a' = app_stopped a"
    by (subst replaced(3), simp)+
  then show ?thesis using replaced(1,4) by simp
qed simp

lemma stopped_thread_ends:
  assumes "mh_stop h" "i < length (mh_threads h)" "thread_step N now x i h s = (h', s')"
  shows "stop_rank (pc_of i h') \<le> stop_rank (pc_of i h) - 1 \<and> (\<forall>j. j \<noteq> i \<longrightarrow> pc_of j h' = pc_of j h) \<and>
    (s' \<noteq> s \<longrightarrow> (\<exists>wk. pc_of i h = Submitting wk))"
  using stop_rank_step [OF assms(3,1,2)] thread_step_frame(2,3) [OF assms(3)] assms(2) by auto

lemma miner_ok_split:
  assumes "miner_ok N m h"
  shows "\<exists>cb. \<forall>i < length (mh_threads h). th_coinbase (mh_threads h ! i) = cb \<and> stop_rank (pc_of i h) \<le> 4100 \<and>
    (\<forall>wk. pc_work (pc_of i h) = Some wk \<longrightarrow>
       hj_coinbase (wk_tmpl wk) = hex_encode N cb \<and>
       (length (mh_threads h) * Suc m \<le> 2 ^ 64 \<longrightarrow> unat (hj_nonce (wk_tmpl wk)) mod length (mh_threads h) = i))"
proof -
  obtain cb where cb: "\<forall>i < length (mh_threads h). thread_ok N m (length (mh_threads h)) cb i (mh_threads h ! i)"
    using assms by (auto simp: miner_ok_def)
  show ?thesis
    by (intro exI [of _ cb] allI impI) (use cb thread_ok_nonce in \<open>fastforce simp: thread_ok_def\<close>)
qed

lemma toggle_starts:
  assumes "app_miner a = None" "ui_device_index (app_ui a) = 0"
  shows "\<exists>h. app_miner (on_mine_toggle a) = Some h \<and> length (mh_threads h) = max (ui_intensity (app_ui a)) 1 \<and>
    (\<forall>th \<in> set (mh_threads h). th_coinbase th = (case app_wallet a of None \<Rightarrow> replicate 32 0 | Some w \<Rightarrow> pad_to_32 (wal_address w)))"
  using assms by (auto simp: on_mine_toggle_def Let_def miner_start_def)

end
