(* ===== verification/Vm.thy ===== *)
theory Vm
  imports Core_Hash
begin

text \<open>
  The contract VM: \<open>crates/vm/src/lib.rs\<close> and \<open>wasmtime_backend.rs\<close>. The wasmtime engine is
  third-party code, a record of what the backend calls; the backend's own part is modelled: the
  host function that lets a contract read reflection records, and the conversion of arguments and
  results. Linear memory is a byte list, machine pointers are 32-bit words.
\<close>

section \<open>Errors and backends\<close>

datatype vm_error =
    NotEnabled
  | CompileFailed string
  | InstantiateFailed string
  | Trap string
  | OutOfGas
  | HostRejected string
  | MethodNotFound string
  | BadArgs

type_synonym reflection_view = "bytes \<Rightarrow> bytes option"

definition no_reflection :: reflection_view where
  "no_reflection key = None"

definition rejecting_compile :: "bytes \<Rightarrow> vm_error + unit" where
  "rejecting_compile wasm_bytes = Inl NotEnabled"

definition rejecting_run :: "unit \<Rightarrow> string \<Rightarrow> bytes \<Rightarrow> u64 \<Rightarrow> reflection_view \<Rightarrow> vm_error + bytes" where
  "rejecting_run handle meth args gas_limit reflect = Inl NotEnabled"

text \<open>The same backend in a build with the feature \<open>wasm\<close>, for the handles of that build.\<close>

definition rejecting_compile_wasm :: "bytes \<Rightarrow> vm_error + 'h" where
  "rejecting_compile_wasm wasm_bytes = Inl NotEnabled"

definition rejecting_run_wasm :: "'h \<Rightarrow> string \<Rightarrow> bytes \<Rightarrow> u64 \<Rightarrow> reflection_view \<Rightarrow> vm_error + bytes" where
  "rejecting_run_wasm handle meth args gas_limit reflect = Inl NotEnabled"

section \<open>The host function\<close>

text \<open>\<open>data.get(start..end)\<close> with \<open>end\<close> a saturating sum of \<open>usize\<close> values.\<close>

definition slice_end :: "nat \<Rightarrow> nat \<Rightarrow> nat" where
  "slice_end start len = min (start + len) (2 ^ 64 - 1)"

definition get_slice :: "bytes \<Rightarrow> nat \<Rightarrow> nat \<Rightarrow> bytes option" where
  "get_slice data start stop =
     (if start \<le> stop \<and> stop \<le> length data then Some (take (stop - start) (drop start data)) else None)"

definition put_slice :: "bytes \<Rightarrow> nat \<Rightarrow> bytes \<Rightarrow> bytes" where
  "put_slice data start v = take start data @ v @ drop (start + length v) data"

definition chain_reflect_get ::
    "reflection_view \<Rightarrow> bytes option \<Rightarrow> u32 \<Rightarrow> u32 \<Rightarrow> u32 \<Rightarrow> u32 \<Rightarrow> u32 \<times> bytes option" where
  "chain_reflect_get reflect mem key_ptr key_len out_ptr out_max_len =
     (case mem of
        None \<Rightarrow> (- 3, None)
      | Some data \<Rightarrow>
          if sint key_ptr < 0 \<or> sint key_len < 0 \<or> sint out_ptr < 0 \<or> sint out_max_len < 0 then (- 3, Some data)
          else
            let kp = unat key_ptr; kl = unat key_len; op = unat out_ptr; ol = unat out_max_len in
            (case get_slice data kp (slice_end kp kl) of
               None \<Rightarrow> (- 3, Some data)
             | Some key \<Rightarrow>
                 (case reflect key of
                    None \<Rightarrow> (- 1, Some data)
                  | Some v \<Rightarrow>
                      if length v > ol then (- 2, Some data)
                      else if get_slice data op (slice_end op (length v)) = None then (- 3, Some data)
                      else (of_nat (length v), Some (put_slice data op v)))))"

section \<open>The wasmtime backend\<close>

datatype wasm_val = I64 u64 | OtherVal

text \<open>A failed call: whether the error is the out-of-fuel trap, and its text.\<close>

datatype call_result = Returned "wasm_val list" | CallFailed bool string

record ('m, 's, 'i) engine =
  module_new :: "bytes \<Rightarrow> string + 'm"
  store_with_fuel :: "u64 \<Rightarrow> string + 's"
  link_error :: "string option"
  instantiate :: "(bytes option \<Rightarrow> u32 \<Rightarrow> u32 \<Rightarrow> u32 \<Rightarrow> u32 \<Rightarrow> u32 \<times> bytes option) \<Rightarrow> 's \<Rightarrow> 'm \<Rightarrow> string + 'i"
  get_func :: "'i \<Rightarrow> string \<Rightarrow> nat option"
  call_func :: "'i \<Rightarrow> string \<Rightarrow> u64 list \<Rightarrow> call_result"

record 'm contract_handle =
  ch_module :: 'm
  ch_code_hash :: bytes

definition hex_short :: "bytes \<Rightarrow> string" where
  "hex_short bs = concat (map hex_byte (take 6 bs)) @ ellipsis"

text \<open>The \<open>Debug\<close> text of a handle: only the first bytes of the hash.\<close>

definition handle_debug :: "'m contract_handle \<Rightarrow> string" where
  "handle_debug h = ''ContractHandle { code_hash: '' @ [CHR 0x22] @ hex_short (ch_code_hash h) @ [CHR 0x22] @ '' }''"

text \<open>The configuration of the engine: metered, without the vector instructions.\<close>

record engine_config =
  ec_consume_fuel :: bool
  ec_wasm_simd :: bool
  ec_wasm_relaxed_simd :: bool
  ec_wasm_bulk_memory :: bool

definition wasmtime_new :: "(engine_config \<Rightarrow> string + ('m, 's, 'i) engine) \<Rightarrow> vm_error + ('m, 's, 'i) engine" where
  "wasmtime_new engine_new =
     (case engine_new \<lparr> ec_consume_fuel = True, ec_wasm_simd = False, ec_wasm_relaxed_simd = False, ec_wasm_bulk_memory = True \<rparr> of
        Inl e \<Rightarrow> Inl (CompileFailed e)
      | Inr E \<Rightarrow> Inr E)"

text \<open>\<open>Default\<close> panics (\<open>None\<close>) where \<open>new\<close> fails.\<close>

definition wasmtime_default :: "(engine_config \<Rightarrow> string + ('m, 's, 'i) engine) \<Rightarrow> ('m, 's, 'i) engine option" where
  "wasmtime_default engine_new = (case wasmtime_new engine_new of Inl e \<Rightarrow> None | Inr E \<Rightarrow> Some E)"

definition wasmtime_compile :: "hash_ext \<Rightarrow> ('m, 's, 'i) engine \<Rightarrow> bytes \<Rightarrow> vm_error + 'm contract_handle" where
  "wasmtime_compile H E wasm_bytes =
     (case module_new E wasm_bytes of
        Inl e \<Rightarrow> Inl (CompileFailed e)
      | Inr m \<Rightarrow> Inr \<lparr> ch_module = m, ch_code_hash = blake3 H wasm_bytes \<rparr>)"

text \<open>\<open>chunks_exact(8)\<close>: a shorter rest is left out.\<close>

function arg_lanes :: "bytes \<Rightarrow> u64 list" where
  "arg_lanes bs = (if length bs < 8 then [] else from_be (take 8 bs) # arg_lanes (drop 8 bs))"
  by pat_completeness auto
termination by (relation "measure length") auto

declare arg_lanes.simps [simp del]

fun pack_results :: "wasm_val list \<Rightarrow> vm_error + bytes" where
  "pack_results [] = Inr []"
| "pack_results (I64 v # rs) = map_sum id (\<lambda>out. to_be v @ out) (pack_results rs)"
| "pack_results (OtherVal # rs) = Inl (Trap ''non-i64 result not supported in v0.4 ABI'')"

fun str_contains :: "string \<Rightarrow> string \<Rightarrow> bool" where
  "str_contains p [] = (p = [])"
| "str_contains p (c # cs) = (take (length p) (c # cs) = p \<or> str_contains p cs)"

definition call_error :: "bool \<Rightarrow> string \<Rightarrow> vm_error" where
  "call_error out_of_fuel s =
     (if out_of_fuel then OutOfGas
      else if str_contains ''all fuel consumed'' s \<or> str_contains ''out of fuel'' s then OutOfGas
      else Trap s)"

definition wasmtime_run ::
    "('m, 's, 'i) engine \<Rightarrow> 'm contract_handle \<Rightarrow> string \<Rightarrow> bytes \<Rightarrow> u64 \<Rightarrow> reflection_view \<Rightarrow> vm_error + bytes" where
  "wasmtime_run E handle meth args gas_limit reflect =
     bind_sum (map_sum Trap id (store_with_fuel E gas_limit)) (\<lambda>store.
       case link_error E of
         Some e \<Rightarrow> Inl (InstantiateFailed e)
       | None \<Rightarrow>
           bind_sum (map_sum InstantiateFailed id (instantiate E (chain_reflect_get reflect) store (ch_module handle))) (\<lambda>inst.
             case get_func E inst meth of
               None \<Rightarrow> Inl (MethodNotFound meth)
             | Some n_params \<Rightarrow>
                 if length args \<noteq> 8 * n_params then Inl BadArgs
                 else
                   (case call_func E inst meth (arg_lanes args) of
                      Returned results \<Rightarrow> pack_results results
                    | CallFailed out_of_fuel s \<Rightarrow> Inl (call_error out_of_fuel s))))"

section \<open>Memory safety of the host function\<close>

lemma length_put_slice: "start + length v \<le> length data \<Longrightarrow> length (put_slice data start v) = length data"
  by (simp add: put_slice_def)

lemma nth_put_slice:
  assumes "start + length v \<le> length data" "i < length data"
  shows "put_slice data start v ! i = (if start \<le> i \<and> i < start + length v then v ! (i - start) else data ! i)"
  using assms by (auto simp: put_slice_def nth_append)

lemma sint_small: "n < 2 ^ 31 \<Longrightarrow> sint (of_nat n :: u32) = int n"
  by (simp add: sint_uint uint_nat unat_of_nat signed_take_bit_int_eq_self)

lemma uint_less_exp: "uint w < 2 ^ n \<Longrightarrow> unat w < 2 ^ n"
  by (metis of_nat_less_iff of_nat_numeral of_nat_power uint_nat)

lemma nonneg_unat:
  assumes "0 \<le> sint (w :: u32)"
  shows "unat w < 2 ^ 31"
proof -
  have "sint w < 2 ^ 31" using sint_lt [of w] by simp
  moreover have "uint w = take_bit 32 (sint w)" using uint_sint [of w] by simp
  ultimately have "uint w < 2 ^ 31" using assms by (simp add: take_bit_int_eq_self)
  then show ?thesis by (rule uint_less_exp)
qed

text \<open>
  A successful call returns the length of the record and writes it at the output pointer, and
  nothing else; an unsuccessful one writes nothing.
\<close>

lemma reflect_get_memory:
  assumes "chain_reflect_get reflect (Some data) kp kl op ol = (r, mem')"
  obtains data' where "mem' = Some data'" "length data' = length data"
    "sint r < 0 \<Longrightarrow> data' = data \<and> sint r \<in> {- 1, - 2, - 3}"
    "0 \<le> sint r \<Longrightarrow> \<exists>v. reflect (take (unat kl) (drop (unat kp) data)) = Some v \<and> int (length v) = sint r \<and>
       length v \<le> unat ol \<and> unat op + length v \<le> length data \<and> data' = put_slice data (unat op) v"
proof (cases "0 \<le> sint kp \<and> 0 \<le> sint kl \<and> 0 \<le> sint op \<and> 0 \<le> sint ol")
  case False
  then have "r = - 3" "mem' = Some data" using assms by (auto simp: chain_reflect_get_def Let_def split: if_splits)
  then show thesis by (intro that) simp_all
next
  case True
  then have b: "unat kp < 2 ^ 31" "unat kl < 2 ^ 31" "unat op < 2 ^ 31" "unat ol < 2 ^ 31"
    using True nonneg_unat by blast+
  have n: "\<not> (sint kp < 0 \<or> sint kl < 0 \<or> sint op < 0 \<or> sint ol < 0)" using True by simp
  have k: "get_slice data (unat kp) (slice_end (unat kp) (unat kl)) =
      (if unat kp + unat kl \<le> length data then Some (take (unat kl) (drop (unat kp) data)) else None)"
    using b by (simp add: get_slice_def slice_end_def)
  let ?key = "take (unat kl) (drop (unat kp) data)"
  show thesis
  proof (cases "unat kp + unat kl \<le> length data")
    case False
    then have "r = - 3" "mem' = Some data" using assms n k by (simp_all add: chain_reflect_get_def Let_def)
    then show thesis by (intro that) simp_all
  next
    case t: True
    show thesis
    proof (cases "reflect ?key")
      case None
      then have "r = - 1" "mem' = Some data" using assms n k t by (simp_all add: chain_reflect_get_def Let_def)
      then show thesis by (intro that) simp_all
    next
      case (Some v)
      show thesis
      proof (cases "length v > unat ol \<or> length data < unat op + length v")
        case True
        then have "(r = - 2 \<or> r = - 3) \<and> mem' = Some data"
          using assms n k t Some b by (auto simp: chain_reflect_get_def Let_def get_slice_def slice_end_def split: if_splits)
        then show thesis by (intro that [of data]) auto
      next
        case False
        then have v: "length v < 2 ^ 31" using b(4) by linarith
        have "r = of_nat (length v)" "mem' = Some (put_slice data (unat op) v)"
          using assms n k t Some b False v by (auto simp: chain_reflect_get_def Let_def get_slice_def slice_end_def split: if_splits)
        then show thesis
          using False Some sint_small [OF v]
          by (intro that [of "put_slice data (unat op) v"]) (simp_all add: length_put_slice)
      qed
    qed
  qed
qed

section \<open>Arguments and results\<close>

lemma arg_lanes_to_be: "arg_lanes (to_be (v :: u64) @ rest) = v # arg_lanes rest"
proof -
  have "from_be (to_be v) = v" using be_nat_to_be [of v] by (simp add: from_be_def)
  moreover have "length (to_be v) = 8" by simp
  ultimately show ?thesis by (subst arg_lanes.simps) simp
qed

lemma arg_lanes_roundtrip: "arg_lanes (concat (map to_be vs)) = vs"
  by (induction vs) (simp_all add: arg_lanes_to_be, simp add: arg_lanes.simps)

lemma pack_results_lanes: "pack_results (map I64 vs) = Inr (concat (map to_be vs))"
  by (induction vs) simp_all

end
