(* ===== verification/Cli.thy ===== *)
theory Cli
  imports Http Node_Live
begin

text \<open>
  The command-line client, \<open>crates/node/src/cli.rs\<close>, against the node: each command becomes one or two
  requests to the server of \<open>Http\<close>, and the answer is printed as lines of text. The HTTP client and
  JSON text are third-party code: a request body is what \<open>json_bytes\<close> prints, a status of 400 or more
  is an error of the client, \<open>json_text\<close> is how a value appears in a line and \<open>json_width\<close> how it does in
  a column. Argument parsing is left out; the endpoint is the node's own.
\<close>

section \<open>Commands\<close>

datatype cli_cmd =
    CliGetInfo
  | CliShowBlock u64
  | CliListBlocks nat
  | CliGetBalance string
  | CliGetAccount string
  | CliSubmitTx string string
  | CliGetMempool
  | CliEmissionSeries u64 "u64 option" u64
  | CliStateRoot
  | CliHealth

datatype cli_error =
    HttpStatus nat
  | NotJson
  | RpcFailed json
  | EmptyResult
  | MalformedInfo
  | NoStateRoot

text \<open>The arguments, with the endpoint that is assumed when none is given.\<close>

record cli_args =
  ca_rpc :: string
  ca_json :: bool
  ca_cmd :: cli_cmd

definition default_rpc :: string where
  "default_rpc = ''http://localhost:8545/rpc''"

record cli_ext =
  json_bytes :: "json \<Rightarrow> bytes"
  json_text :: "json \<Rightarrow> string"
  json_width :: "nat \<Rightarrow> json \<Rightarrow> string"
  json_pretty :: "json \<Rightarrow> string"

section \<open>Requests\<close>

definition rpc_envelope :: "string \<Rightarrow> json \<Rightarrow> json" where
  "rpc_envelope m params = JObj [(''jsonrpc'', JStr ''2.0''), (''id'', JNum 1), (''method'', JStr m), (''params'', params)]"

text \<open>\<open>Option<Value>\<close>: a field that is missing or null is \<open>None\<close>.\<close>

definition opt_field :: "json \<Rightarrow> string \<Rightarrow> json option" where
  "opt_field v k = (case jidx v k of JNull \<Rightarrow> None | x \<Rightarrow> Some x)"

definition open_envelope :: "json \<Rightarrow> cli_error + json" where
  "open_envelope v =
     (case opt_field v ''error'' of
        Some e \<Rightarrow> Inl (RpcFailed e)
      | None \<Rightarrow> (case opt_field v ''result'' of None \<Rightarrow> Inl EmptyResult | Some r \<Rightarrow> Inr r))"

definition http_answer :: "nat \<times> http_body \<Rightarrow> cli_error + json" where
  "http_answer resp =
     (if fst resp \<ge> 400 then Inl (HttpStatus (fst resp))
      else case snd resp of JsonBody v \<Rightarrow> Inr (reparse v) | _ \<Rightarrow> Inl NotJson)"

definition cli_rpc ::
    "cli_ext \<Rightarrow> http_ext \<Rightarrow> node_ext \<Rightarrow> u64 \<Rightarrow> string \<Rightarrow> json \<Rightarrow> node_state \<Rightarrow> (cli_error + json) \<times> node_state" where
  "cli_rpc C X N now m params st =
     (let bs = json_bytes C (rpc_envelope m params);
          req = \<lparr> hr_method = HttpPost, hr_url = ''/rpc'', hr_body_length = Some (length bs), hr_body = Inr bs \<rparr>;
          (resp, st) = serve_request X N now req st in
      (bind_sum (http_answer resp) open_envelope, st))"

definition cli_params :: "cli_cmd \<Rightarrow> string \<times> json" where
  "cli_params c =
     (case c of
        CliShowBlock h \<Rightarrow> (''get_block'', JObj [(''height'', jword h)])
      | CliListBlocks limit \<Rightarrow> (''list_blocks'', JObj [(''limit'', jnat limit)])
      | CliGetBalance a \<Rightarrow> (''get_balance'', JObj [(''address'', JStr a)])
      | CliGetAccount a \<Rightarrow> (''get_account'', JObj [(''address'', JStr a)])
      | CliSubmitTx t w \<Rightarrow> (''submit_tx'', JObj [(''tx_cbor_hex'', JStr t), (''witness_cbor_hex'', JStr w)])
      | CliGetMempool \<Rightarrow> (''get_mempool'', JObj [])
      | CliEmissionSeries from to step \<Rightarrow>
          (''emission_series'', JObj [(''from'', jword from), (''to'', case to of None \<Rightarrow> JNull | Some t \<Rightarrow> jword t), (''step'', jword step)])
      | _ \<Rightarrow> (''get_info'', JObj []))"

text \<open>\<open>state-root\<close> asks for the height of the tip and then for that block.\<close>

definition cli_state_root ::
    "cli_ext \<Rightarrow> http_ext \<Rightarrow> node_ext \<Rightarrow> u64 \<Rightarrow> node_state \<Rightarrow> (cli_error + json) \<times> node_state" where
  "cli_state_root C X N now st =
     (case cli_rpc C X N now ''get_info'' (JObj []) st of
        (Inl e, st) \<Rightarrow> (Inl e, st)
      | (Inr info, st) \<Rightarrow>
          (case Option.bind (jget info ''height'') as_u64 of
             None \<Rightarrow> (Inl MalformedInfo, st)
           | Some h \<Rightarrow>
               (case cli_rpc C X N now ''get_block'' (JObj [(''height'', jword h)]) st of
                  (Inl e, st) \<Rightarrow> (Inl e, st)
                | (Inr blk, st) \<Rightarrow>
                    (case Option.bind (jget blk ''header'') (\<lambda>h. jget h ''state_root'') of
                       None \<Rightarrow> (Inl NoStateRoot, st)
                     | Some r \<Rightarrow> (Inr r, st)))))"

text \<open>
  \<open>trim_end_matches\<close> strips a suffix as often as it occurs; the health page is next to the endpoint.
\<close>

function trim_end_matches :: "string \<Rightarrow> string \<Rightarrow> string" where
  "trim_end_matches pat s =
     (if pat \<noteq> [] \<and> length pat \<le> length s \<and> drop (length s - length pat) s = pat
      then trim_end_matches pat (take (length s - length pat) s)
      else s)"
  by pat_completeness auto
termination
proof (relation "measure (\<lambda>(pat, s). length s)", goal_cases)
  case (2 pat s)
  then have "length s - length pat < length s" by (intro diff_less) auto
  with 2 show ?case by simp
qed simp

declare trim_end_matches.simps [simp del]

definition health_url :: "string \<Rightarrow> string" where
  "health_url endpoint = trim_end_matches ''/'' (trim_end_matches ''/rpc'' endpoint) @ ''/healthz''"

lemma trim_end_append: "pat \<noteq> [] \<Longrightarrow> trim_end_matches pat (s @ pat) = trim_end_matches pat s"
  by (subst trim_end_matches.simps) simp

text \<open>The page of a node whose endpoint is \<open>base/rpc\<close> is \<open>base/healthz\<close>.\<close>

lemma health_url_of:
  assumes "base \<noteq> []" "last base \<notin> {CHR ''/'', CHR ''c''}"
  shows "health_url (base @ ''/rpc'') = base @ ''/healthz''"
proof -
  obtain b c where b: "base = b @ [c]" using assms(1) by (metis append_butlast_last_id)
  have t: "trim_end_matches pat base = base" if "pat \<noteq> []" "last pat \<noteq> c" for pat
  proof -
    have "drop (length base - length pat) base \<noteq> pat"
    proof
      assume d: "drop (length base - length pat) base = pat"
      then have "last pat = last base" using that(1) by (metis drop_eq_Nil last_drop not_le)
      then show False using that(2) b by simp
    qed
    then show ?thesis by (subst trim_end_matches.simps) simp
  qed
  have "trim_end_matches ''/rpc'' base = base" "trim_end_matches ''/'' base = base"
    using t [of "''/rpc''"] t [of "''/''"] assms(2) b by auto
  then show ?thesis using trim_end_append [of "''/rpc''" base] by (simp add: health_url_def del: append_Cons)
qed

definition cli_health :: "http_ext \<Rightarrow> node_ext \<Rightarrow> u64 \<Rightarrow> node_state \<Rightarrow> (cli_error + json) \<times> node_state" where
  "cli_health X N now st =
     (case serve_request X N now \<lparr> hr_method = HttpGet, hr_url = ''/healthz'', hr_body_length = None, hr_body = Inr [] \<rparr> st of
        (resp, st) \<Rightarrow> (http_answer resp, st))"

definition cli_run ::
    "cli_ext \<Rightarrow> http_ext \<Rightarrow> node_ext \<Rightarrow> u64 \<Rightarrow> cli_cmd \<Rightarrow> node_state \<Rightarrow> (cli_error + json) \<times> node_state" where
  "cli_run C X N now c st =
     (case c of
        CliStateRoot \<Rightarrow> cli_state_root C X N now st
      | CliHealth \<Rightarrow> cli_health X N now st
      | _ \<Rightarrow> (case cli_params c of (m, params) \<Rightarrow> cli_rpc C X N now m params st))"

section \<open>Printing\<close>

definition str_or :: "json \<Rightarrow> string" where
  "str_or v = (case as_str v of None \<Rightarrow> ''?'' | Some s \<Rightarrow> s)"

definition num_or_zero :: "json \<Rightarrow> nat" where
  "num_or_zero v = (case as_u64 v of None \<Rightarrow> 0 | Some n \<Rightarrow> unat n)"

definition pad_left :: "char \<Rightarrow> nat \<Rightarrow> string \<Rightarrow> string" where
  "pad_left c n s = replicate (n - length s) c @ s"

definition pad_right :: "nat \<Rightarrow> string \<Rightarrow> string" where
  "pad_right n s = s @ replicate (n - length s) CHR '' ''"

text \<open>
  The arithmetic on \<open>off\<close> is on \<open>i64\<close>: negating the least value wraps around to itself, and division
  and remainder truncate towards zero.
\<close>

definition neg_i64 :: "int \<Rightarrow> int" where
  "neg_i64 x = (if x = - (2 ^ 63) then x else - x)"

definition genesis_line :: "int \<Rightarrow> string" where
  "genesis_line off =
     (if off < 0 then
        let s = neg_i64 off sdiv 1000; h = s sdiv 3600; m = (s smod 3600) sdiv 60 in
        ''lockout:         T-'' @ show_int h @ ''h '' @ show_int m @ ''m (pre-genesis)''
      else
        let s = off sdiv 1000; h = s sdiv 3600; m = (s smod 3600) sdiv 60 in
        ''uptime:          '' @ show_int h @ ''h '' @ show_int m @ ''m past genesis'')"

definition print_info :: "cli_ext \<Rightarrow> json \<Rightarrow> string list" where
  "print_info C v =
     [''chain:           '' @ str_or (jidx v ''chain_id''),
      ''height:          '' @ json_text C (jidx v ''height''),
      ''tip_hash:        '' @ str_or (jidx v ''tip_hash''),
      ''bits:            0x'' @ pad_left CHR ''0'' 8 (show_hex (num_or_zero (jidx v ''bits''))),
      genesis_line (case as_i64 (jidx v ''genesis_offset_ms'') of None \<Rightarrow> 0 | Some n \<Rightarrow> n),
      ''mempool_size:    '' @ json_text C (jidx v ''mempool_size''),
      ''block_reward:    '' @ show_nat (num_or_zero (jidx v ''block_reward_sat'')) @ '' sat'',
      ''sig_algo='' @ json_text C (jidx v ''sig_algo'') @ ''  hash_algo='' @ json_text C (jidx v ''hash_algo'')]"

definition print_tx :: "cli_ext \<Rightarrow> json \<Rightarrow> string" where
  "print_tx C tx =
     ''    '' @ str_or (jidx tx ''from'') @ '' -> '' @ str_or (jidx tx ''to'') @ ''  amount='' @ json_text C (jidx tx ''amount_sat'') @
     '' fee='' @ json_text C (jidx tx ''fee_sat'') @ '' nonce='' @ json_text C (jidx tx ''nonce'')"

definition print_block :: "cli_ext \<Rightarrow> u64 \<Rightarrow> json \<Rightarrow> string list" where
  "print_block C h v =
     [''block '' @ show_nat (unat h)] @
     (case Option.bind (jget v ''hash'') as_str of None \<Rightarrow> [] | Some s \<Rightarrow> [''  hash:      '' @ s]) @
     (case jget v ''header'' of
        None \<Rightarrow> []
      | Some hdr \<Rightarrow>
          [''  timestamp: '' @ json_text C (jidx hdr ''timestamp_ms'') @ '' ms'',
           ''  parent:    '' @ str_or (jidx hdr ''parent''),
           ''  tx_root:   '' @ str_or (jidx hdr ''tx_root''),
           ''  state_root:   '' @ str_or (jidx hdr ''state_root''),
           ''  reflect_root: '' @ str_or (jidx hdr ''reflect_root'')]) @
     (case Option.bind (jget v ''txs'') as_array of
        None \<Rightarrow> []
      | Some ts \<Rightarrow> (''  txs ('' @ show_nat (length ts) @ ''):'') # map (print_tx C) ts)"

definition print_summary :: "cli_ext \<Rightarrow> json \<Rightarrow> string" where
  "print_summary C b =
     json_width C 6 (jidx b ''height'') @ ''  '' @ pad_right 64 (str_or (jidx b ''hash'')) @ ''  '' @
     json_width C 20 (jidx b ''timestamp_ms'') @ ''  '' @ json_text C (jidx b ''tx_count'')"

definition print_blocks :: "cli_ext \<Rightarrow> json \<Rightarrow> string list" where
  "print_blocks C v =
     (case as_array v of
        None \<Rightarrow> [json_pretty C v]
      | Some bs \<Rightarrow>
          (pad_left CHR '' '' 6 ''height'' @ ''  '' @ pad_right 64 ''hash'' @ ''  '' @ pad_left CHR '' '' 20 ''timestamp_ms'' @ ''  tx'') #
          map (print_summary C) bs)"

definition print_account :: "cli_ext \<Rightarrow> string \<Rightarrow> json \<Rightarrow> string list" where
  "print_account C a v =
     [a, ''  balance:  '' @ json_text C (jidx v ''balance''), ''  nonce:    '' @ json_text C (jidx v ''nonce''),
      ''  sig_algo: '' @ json_text C (jidx v ''sig_algo'')] @
     (case Option.bind (jget v ''pubkey_hex'') as_str of
        None \<Rightarrow> [] | Some pk \<Rightarrow> [''  pubkey:   '' @ take 16 pk @ [CHR 0xE2, CHR 0x80, CHR 0xA6]])"

definition pretty_print :: "cli_ext \<Rightarrow> cli_cmd \<Rightarrow> json \<Rightarrow> string list" where
  "pretty_print C c v =
     (case c of
        CliGetInfo \<Rightarrow> print_info C v
      | CliShowBlock h \<Rightarrow> print_block C h v
      | CliListBlocks limit \<Rightarrow> print_blocks C v
      | CliGetBalance a \<Rightarrow> [a @ '' balance = '' @ show_nat (num_or_zero (jidx v ''balance'')) @ '' sat'']
      | CliGetAccount a \<Rightarrow> print_account C a v
      | CliGetMempool \<Rightarrow>
          (''mempool size: '' @ json_text C (jidx v ''size'')) #
          (case Option.bind (jget v ''hashes'') as_array of None \<Rightarrow> [] | Some hs \<Rightarrow> map (\<lambda>h. ''  '' @ str_or h) hs)
      | CliSubmitTx t w \<Rightarrow> [''submitted: '' @ json_text C v]
      | CliEmissionSeries from to step \<Rightarrow> [json_pretty C v]
      | CliStateRoot \<Rightarrow> [str_or v]
      | CliHealth \<Rightarrow> [json_text C v])"

text \<open>The whole program: the lines it prints, or the error it exits with.\<close>

definition cli_main ::
    "cli_ext \<Rightarrow> http_ext \<Rightarrow> node_ext \<Rightarrow> u64 \<Rightarrow> bool \<Rightarrow> cli_cmd \<Rightarrow> node_state \<Rightarrow> (cli_error + string list) \<times> node_state" where
  "cli_main C X N now as_json c st =
     (case cli_run C X N now c st of
        (Inl e, st) \<Rightarrow> (Inl e, st)
      | (Inr v, st) \<Rightarrow> (Inr (if as_json then [json_pretty C v] else pretty_print C c v), st))"

section \<open>The client and the node\<close>

text \<open>
  What the JSON crate documents, for one call: the server parses the request the client printed back
  into the method and the parameters; and the request is below the server's limit.
\<close>

definition json_wire :: "cli_ext \<Rightarrow> http_ext \<Rightarrow> string \<times> json \<Rightarrow> bool" where
  "json_wire C X mp \<longleftrightarrow>
     (case mp of (m, p) \<Rightarrow>
        parse_rpc_req X (json_bytes C (rpc_envelope m p)) = Inr (m, reparse p) \<and>
        length (json_bytes C (rpc_envelope m p)) \<le> MAX_RPC_BODY_BYTES)"

lemma cli_rpc_dispatch:
  assumes "json_wire C X (m, p)" "rpc_dispatch N now (decode_call X m (reparse p)) st = ((code, r), st')"
  shows "cli_rpc C X N now m p st =
    (if code \<ge> 400 then Inl (HttpStatus code) else open_envelope (reparse (result_value X r)), st')"
  using assms
  by (simp add: cli_rpc_def Let_def serve_request_def serve_rpc_def read_bounded_body_def read_body_def json_wire_def
      http_answer_def bind_sum_def)

lemma open_result: "v \<noteq> JNull \<Longrightarrow> open_envelope (JObj [(''result'', v)]) = Inr v"
  by (cases v) (simp_all add: open_envelope_def opt_field_def jidx_def jget_def)

lemma get_tip_block:
  assumes "node_inv N st bs" "codec_ok (block_c N)" "length bs \<le> 2 ^ 64"
  shows "cs_get_by_height (block_c N) (ns_store st) (height (header (last bs))) = Inr (Some (last bs))"
    "cs_tip (ns_store st) = Some (last bs)"
proof -
  have i: "cs_inv (block_c N) (ns_store st) bs" "chain_ok N st bs" using assms(1) by (simp_all add: node_inv_def)
  have ne: "bs \<noteq> []" using i(2) by (simp add: chain_ok_def)
  then show "cs_tip (ns_store st) = Some (last bs)" using i(1) by (simp add: cs_inv_def)
  have d: "distinct (map (\<lambda>b. height (header b)) bs)" by (rule chain_heights_distinct [OF i(2) assms(3)])
  have "find (\<lambda>b. height (header b) = height (header (last bs))) bs = Some (last bs)"
  proof (cases "find (\<lambda>b. height (header b) = height (header (last bs))) bs")
    case None
    then show ?thesis using last_in_set [OF ne] by (auto simp: find_None_iff)
  next
    case (Some b)
    then have "b \<in> set bs" "height (header b) = height (header (last bs))" by (auto simp: find_Some_iff)
    then have "b = last bs" using d last_in_set [OF ne] by (auto simp: distinct_map dest: inj_onD)
    then show ?thesis using Some by simp
  qed
  then show "cs_get_by_height (block_c N) (ns_store st) (height (header (last bs))) = Inr (Some (last bs))"
    using cs_load_all_inv [OF assms(2) i(1)] by (simp add: cs_get_by_height_def)
qed

lemma reparse_u64 [simp]: "reparse (jword (w :: u64)) = jword w"
  by (simp add: reparse_word)

text \<open>\<open>state-root\<close> prints the state root of the tip.\<close>

lemma cli_state_root_tip:
  assumes w: "json_wire C X (''get_info'', JObj [])" "json_wire C X (''get_block'', JObj [(''height'', jword (height (header (last bs))))])"
    and i: "node_inv N st bs" "codec_ok (block_c N)" "length bs \<le> 2 ^ 64"
  shows "cli_main C X N now False CliStateRoot st = (Inr [hex_encode N (state_root (header (last bs)))], st)"
proof -
  note t = get_tip_block [OF i]
  let ?h = "height (header (last bs))" and ?r = "rpc_info N now st"
  have "decode_call X ''get_info'' (reparse (JObj [])) = GetInfo" by (simp add: decode_call_def Let_def)
  then have "cli_rpc C X N now ''get_info'' (JObj []) st = (Inr (reparse (info_value ?r)), st)"
    using cli_rpc_dispatch [OF w(1), of N now st 200 "InfoR ?r" st] by (simp add: open_result info_value_def)
  moreover have "jget (reparse (info_value ?r)) ''height'' = Some (jword ?h)"
    using t(2) by (simp add: info_value_def jget_def rpc_info_def)
  moreover have "as_u64 (jword ?h) = Some ?h" using uint_bounded [of ?h] by (simp add: as_u64_def jword_def)
  moreover have "decode_call X ''get_block'' (reparse (JObj [(''height'', jword ?h)])) = GetBlock ?h"
    by (simp add: decode_call_def Let_def fields_of_def) (simp add: jword_def)
  moreover obtain d where d: "rpc_get_block N st ?h = Inr (Some d)" "bd_header d = header_to_json N (header (last bs))"
    using t(1) by (simp add: rpc_get_block_def)
  ultimately have "cli_rpc C X N now ''get_block'' (JObj [(''height'', jword ?h)]) st = (Inr (reparse (block_value d)), st)"
    using cli_rpc_dispatch [OF w(2), of N now st 200 "BlockR d" st] by (simp add: open_result block_value_def)
  moreover have "jget (reparse (block_value d)) ''header'' = Some (header_value (bd_header d))"
    by (simp add: block_value_def jget_def reparse_header)
  moreover have "jget (header_value (bd_header d)) ''state_root'' = Some (JStr (hex_encode N (state_root (header (last bs)))))"
    by (simp add: d(2) header_value_def jget_def header_to_json_def)
  ultimately show ?thesis
    using \<open>cli_rpc C X N now ''get_info'' (JObj []) st = _\<close> \<open>jget (reparse (info_value ?r)) ''height'' = _\<close> \<open>as_u64 (jword ?h) = _\<close>
    by (simp add: cli_main_def cli_run_def cli_state_root_def pretty_print_def str_or_def as_str_def)
qed

text \<open>\<open>get-balance\<close> looks for a field the node does not send, and \<open>emission-series\<close> sends parameters it does not know.\<close>

lemma cli_balance_zero:
  assumes w: "json_wire C X (''get_balance'', JObj [(''address'', JStr a)])" and a: "from_bech32 (node_hash N) a = Inr i"
  shows "cli_main C X N now False (CliGetBalance a) st = (Inr [a @ '' balance = 0 sat''], st)"
proof -
  let ?acct = "load_or_default (node_ops N) (nx N) (ns_state st) i"
  let ?r = "\<lparr> br_address = a, br_balance_sat = balance ?acct, br_nonce = acct_nonce ?acct \<rparr>"
  have "decode_call X ''get_balance'' (reparse (JObj [(''address'', JStr a)])) = GetBalance a"
    by (simp add: decode_call_def Let_def fields_of_def str_field_def)
  moreover have "rpc_get_balance N st a = Inr ?r" using a by (simp add: rpc_get_balance_def parse_address_def bind_sum_def Let_def)
  ultimately have "cli_rpc C X N now ''get_balance'' (JObj [(''address'', JStr a)]) st = (Inr (reparse (balance_value ?r)), st)"
    using cli_rpc_dispatch [OF w, of N now st 200 "BalanceR ?r" st] by (simp add: reply_def open_result balance_value_def)
  moreover have "jidx (reparse (balance_value ?r)) ''balance'' = JNull" by (simp add: balance_value_def jidx_def jget_def)
  ultimately show ?thesis
    by (simp add: cli_main_def cli_run_def cli_params_def pretty_print_def num_or_zero_def as_u64_def show_nat_0)
qed

lemma cli_emission_refused:
  assumes w: "json_wire C X (cli_params (CliEmissionSeries from to step))"
  shows "cli_main C X N now False (CliEmissionSeries from to step) st = (Inl (HttpStatus 400), st)"
proof -
  let ?p = "JObj [(''from'', jword from), (''to'', case to of None \<Rightarrow> JNull | Some t \<Rightarrow> jword t), (''step'', jword step)]"
  have w': "json_wire C X (''emission_series'', ?p)" using w by (simp add: cli_params_def)
  have "decode_call X ''emission_series'' (reparse ?p) = BadParams (params_error X ''emission_series'' (reparse ?p))"
    by (simp add: decode_call_def Let_def value_emission_def fields_of_def num_field_def)
  then have "cli_rpc C X N now ''emission_series'' ?p st = (Inl (HttpStatus 400), st)"
    by (subst cli_rpc_dispatch [OF w', where code = 400 and st' = st]) simp_all
  then show ?thesis by (simp add: cli_main_def cli_run_def cli_params_def)
qed

end
