(* ===== verification/Claims_Client.thy ===== *)
theory Claims_Client
  imports Claims_Node Gui_App Vm Cli
begin

text \<open>
  The properties of the desktop application, of the command-line client and of the contract VM, each with a witness at a concrete
  input where it has hypotheses.
\<close>

section \<open>Payments\<close>

text \<open>
  Claim C13. A payment from the wallet goes through: on a node that has only seen accepted or
  harmless requests since its start, with an empty pool, the client builds, signs and submits a
  payment the wallet can afford, the node takes it, and every block its self-miner then builds whose
  hash meets the target is accepted. After that block the pool is empty, the sender has paid amount
  and fee and used one nonce, and the recipient has received the amount (for pairwise different
  sender, recipient and miner).
\<close>

theorem wallet_payment_confirmed:
  fixes amount :: u128 and fee :: u64
  assumes start: "codec_ok (block_c N)" "log_of (block_c N) bs0 = Some f" "cmd_run N g t (Some f) = Inr st0" "chain_ok N st0 bs0"
    "node_clean N st0 st" "cs_load_all (block_c N) (ns_store st) = Inr bs" "length bs \<le> 2 ^ 64"
    and codecs: "account_codec_ok (kx (nx N))" "codec_ok (reflection_c (kx (nx N)))"
    and cap: "unat (supply_cap_sat (genesis_emission g)) + 99 * unat (initial_reward_sat (genesis_emission g)) < 2 ^ 128"
    and N: "hash_ok (node_hash N)" "bech32_ok (node_hash N)" "hex_ok N" "codec_ok (tx_c N)" "codec_ok (wit_c N)" "crypto_ok (cx (nx N))"
    and w: "wallet_ready N st w" "\<forall>msg. \<exists>sg. sign (cx (nx N)) rng (wal_sig_algo w) (wal_secret_key w) msg = Inr sg"
    and inp: "from_bech32 (node_hash N) (trim to_str) = Inr to" "parse_word (trim amount_str) = Some amount" "parse_word (trim fee_str) = Some fee"
    and funds: "unat amount + unat fee \<le> unat (balance (wallet_account N st w))" and pool: "pool (ns_mempool st) = []"
    and sub: "build_and_submit_tx N rng now st w to_str amount_str fee_str = (res, st1)"
    and mine: "miner_candidate N now1 ts st1 = Some (Inr blk)" "timestamp_ms (header (last bs)) \<le> ts"
      "g_genesis_time_ms g \<le> now'" "ts \<le> now' + FUTURE_TIME_TOLERANCE_MS"
      "meets_target (hash_header (node_hash N) (header (with_nonce blk n))) (target_from_bits (bits (header blk)))"
      "fits_log (block_c N) (with_nonce blk n)"
    and diff: "wal_address w \<noteq> to" "from_coinbase (ns_coinbase st) \<notin> {wal_address w, to}"
  shows "\<exists>h st'. res = Inr h \<and> try_apply_block N now' st1 (with_nonce blk n) = (Inr (), st') \<and> pool (ns_mempool st') = [] \<and>
    (let acct = load_or_default (node_ops N) (nx N) (ns_state st); acct' = load_or_default (node_ops N) (nx N) (ns_state st') in
     unat (balance (acct' (wal_address w))) + (unat amount + unat fee) = unat (balance (acct (wal_address w))) \<and>
     unat (balance (acct' to)) = unat (balance (acct to)) + unat amount \<and>
     acct_nonce (acct' (wal_address w)) = sat_add (acct_nonce (acct (wal_address w))) 1)"
proof -
  let ?L = "load_or_default (node_ops N) (nx N)"
  obtain tx wit where s: "build_and_submit_tx N rng now st w to_str amount_str fee_str = (Inr (hex_encode N (body_hash (node_hash N) tx)),
       st\<lparr>ns_mempool := snd (mempool_submit (node_hash N) now (ns_mempool st) tx wit)\<rparr>)"
    and p: "pool (snd (mempool_submit (node_hash N) now (ns_mempool st) tx wit)) =
       [(body_hash (node_hash N) tx, \<lparr> ptx_body = tx, ptx_witness = wit, ptx_received_ms = now \<rparr>)]"
    and v: "validate_tx (node_ops N) (nx N) 0 (ns_state st) tx wit =
      Inr \<lparr> stx_idx = 0, stx_from_account = wal_address w, stx_expected_nonce = acct_nonce (wallet_account N st w),
            stx_to = to, stx_amount = amount, stx_fee_sat = fee, stx_pubkey_bytes = wal_public_key w, stx_sig_algo = wal_sig_algo w \<rparr>"
    and tx: "witness_hash tx = witness_digest (node_hash N) wit" "call tx = Transfer to amount"
    by (rule payment_submitted [OF N w inp funds pool, where now = now])
  let ?t = "\<lparr> stx_idx = 0, stx_from_account = wal_address w, stx_expected_nonce = acct_nonce (wallet_account N st w),
      stx_to = to, stx_amount = amount, stx_fee_sat = fee, stx_pubkey_bytes = wal_public_key w, stx_sig_algo = wal_sig_algo w \<rparr>"
  have st1: "res = Inr (hex_encode N (body_hash (node_hash N) tx))"
    "st1 = st\<lparr>ns_mempool := snd (mempool_submit (node_hash N) now (ns_mempool st) tx wit)\<rparr>" using sub s by simp_all
  have cl: "node_clean N st0 st1" unfolding st1(2) by (rule clean_tx [OF start(5)])
  have ld: "cs_load_all (block_c N) (ns_store st1) = Inr bs" using start(6) by (simp add: st1(2))
  obtain mem0 where m: "genesis_state N g = Inr mem0" "node_inv N st1 bs" "replayed N mem0 st1 bs"
    "ns_emission st1 = genesis_emission g" "ns_genesis_time_ms st1 = g_genesis_time_ms g"
    by (rule clean_state [OF start(1-4) cl ld start(7)])
  have pre: "unat (supply_cap_sat (ns_emission st1)) + 99 * unat (initial_reward_sat (ns_emission st1)) < 2 ^ 128"
    "ns_genesis_time_ms st1 \<le> now'" using cap mine(3) by (simp_all only: m(4,5))
  have p1: "pool (ns_mempool st1) = [(body_hash (node_hash N) tx, \<lparr> ptx_body = tx, ptx_witness = wit, ptx_received_ms = now \<rparr>)]"
    and v1: "validate_tx (node_ops N) (nx N) 0 (ns_state st1) tx wit = Inr ?t" using p v by (simp_all add: st1(2))
  obtain st' r where a: "try_apply_block N now' st1 (with_nonce blk n) = (Inr (), st')" "pool (ns_mempool st') = []"
    "?L (ns_state st') = (let B = transfer (?L (ns_state st1)) ?t; i = from_coinbase (ns_coinbase st1) in
       B(i := (B i)\<lparr>balance := balance (B i) + r\<rparr>))"
    "stx_from_account ?t \<noteq> stx_to ?t \<longrightarrow>
      unat (balance (?L (ns_state st1) (stx_from_account ?t))) + unat (balance (?L (ns_state st1) (stx_to ?t))) < 2 ^ 128"
    by (rule payment_confirmed [OF codecs m(1) pre(1) m(2) start(7) m(3) p1 tx(2,1) v1 mine(1,2) pre(2) mine(4-6)])
  have ok: "transfer_ok (?L (ns_state st)) ?t"
    using funds unsigned_less [of "balance (wallet_account N st w)", where ?'a = nat] by (simp add: transfer_ok_def required_def)
  have room: "unat (balance (?L (ns_state st) (stx_to ?t))) + unat (stx_amount ?t) < 2 ^ 128"
    using a(4) diff(1) funds by (simp add: st1(2))
  note tb = transfer_balances [OF ok _ _ _ room, of "from_coinbase (ns_coinbase st)"
      "balance (transfer (?L (ns_state st)) ?t (from_coinbase (ns_coinbase st))) + r"]
  have "?L (ns_state st') = (transfer (?L (ns_state st)) ?t)(from_coinbase (ns_coinbase st) :=
      (transfer (?L (ns_state st)) ?t (from_coinbase (ns_coinbase st)))\<lparr>balance :=
        balance (transfer (?L (ns_state st)) ?t (from_coinbase (ns_coinbase st))) + r\<rparr>)"
    using a(3) by (simp add: st1(2) Let_def)
  note b = tb [folded this]
  show ?thesis using st1(1) a(1,2) b diff by (simp add: Let_def required_def)
qed

definition demo_wallet :: wallet where
  "demo_wallet = wallet_generate demo_node_ext (replicate 32 5)"

lemma demo_wallet_alt: "demo_wallet =
    \<lparr> wal_sig_algo = 3, wal_secret_key = replicate 32 5, wal_public_key = replicate 32 0,
      wal_address = from_pubkey demo_hash (replicate 32 0) \<rparr>"
  by (simp add: demo_wallet_def wallet_generate_def ed25519_keypair_def Let_def WALLET_SIG_ALGO_def)
    (simp add: demo_crypto_def demo_scheme_def ED_SK_LEN_def)

lemma demo_wallet_address: "wal_address demo_wallet ! 0 = 80" "length (wal_address demo_wallet) = 20"
  by (simp_all add: demo_wallet_alt length_from_pubkey demo_hash_ok)
    (simp add: from_pubkey_def demo_hash_def ACCOUNT_ID_LEN_def ACCOUNT_DERIVE_TAG_def str_bytes_def)

lemma demo_wallet_signs: "sign demo_crypto rng (wal_sig_algo demo_wallet) (wal_secret_key demo_wallet) msg = Inr (replicate 64 0)"
  by (simp add: demo_wallet_alt WALLET_SIG_ALGO_def sign_def ed25519_sign_def demo_crypto_def demo_scheme_def
      crypto_lens)

text \<open>The length of a wire-encoded block with one transfer.\<close>

lemma demo_fits_one:
  assumes "header_wf (header b)" "txs (body b) = [tx]" "witnesses (body b) = [wit]" "call tx = Transfer to amount"
    "length to = 20" "length (from_account tx) = 20" "length (witness_hash tx) = 32" "length (wit_sig wit) = 64"
    "case wit_pubkey wit of Known i \<Rightarrow> length i = 20 | Inline k \<Rightarrow> length k = 32"
  shows "fits_log (block_c demo_node_ext) b"
proof -
  have l: "length (concat (map to_le (bs :: bytes))) = length bs" for bs by (induction bs) simp_all
  have "length (ser w_tx tx) < 2000"
    using assms(4-7) by (simp add: l w_tx_def w_iso_def w_pair_def length_w_bytes w_call_def w_word_def w_list_def w_nat_def)
  moreover have "length (ser w_witness wit) < 2000"
    using assms(8,9) by (cases "wit_pubkey wit") (simp_all add: w_witness_def w_iso_def w_pair_def length_w_bytes w_word_def flatten_key_def l w_list_def w_nat_def)
  ultimately have "length (ser w_block b) < 2 ^ 32"
    using length_w_header [OF assms(1)] assms(2,3) by (simp add: w_block_def w_iso_def w_pair_def w_list_def w_nat_def)
  then show ?thesis by (simp add: fits_log_def wire_codec_def)
qed

lemma demo_payment_shape:
  assumes "sign_payment demo_node_ext rng demo_wallet info to amount fee = Inr (tx, wit)"
  shows "length (from_account tx) = 20" "length (witness_hash tx) = 32" "length (wit_sig wit) = 64"
    "case wit_pubkey wit of Known i \<Rightarrow> length i = 20 | Inline k \<Rightarrow> length k = 32"
  using assms demo_wallet_address(2) demo_hash_ok
  by (auto simp: sign_payment_def wallet_sign_def demo_wallet_signs bind_sum_def Let_def payment_body_def witness_digest_def hash_ok_def)
    (simp add: demo_wallet_alt)

theorem wallet_payment_confirmed_witness:
  "\<exists>(st :: node_state) h st1 blk st'. build_and_submit_tx demo_node_ext [] 2000 st demo_wallet (map (\<lambda>b. char_of (unat b)) bob) ''0'' '' 0 '' = (Inr h, st1) \<and>
     try_apply_block demo_node_ext 601000 st1 (with_nonce blk 0) = (Inr (), st') \<and>
     acct_nonce (load_or_default (node_ops demo_node_ext) (nx demo_node_ext) (ns_state st') (wal_address demo_wallet)) =
       sat_add (acct_nonce (load_or_default (node_ops demo_node_ext) (nx demo_node_ext) (ns_state st) (wal_address demo_wallet))) 1"
proof (rule demo_start)
  let ?N = demo_node_ext and ?w = demo_wallet and ?to = "map (\<lambda>b. char_of (unat b)) bob"
  fix st :: node_state
  assume st: "cmd_run ?N demo_genesis None (Some demo_log) = Inr st" "chain_ok ?N st [demo_genesis_block]"
    and f: "cs_tip (ns_store st) = Some demo_genesis_block" "pool (ns_mempool st) = []" "length (ns_coinbase st) = 32"
    "ns_genesis_time_ms st = 1000" "ns_target_block_time_ms st = 600000" "ns_emission st = genesis_emission demo_genesis"
    "ns_bootstrap_asert_tau_ms st = default_bootstrap_asert_tau" "ns_asert_tau_ms st = default_asert_tau"
    "from_coinbase (ns_coinbase st) = replicate 20 0"
    and pk: "\<And>i. pubkey (load_or_default (node_ops ?N) (nx ?N) (ns_state st) i) = []"
  have "node_inv ?N st [demo_genesis_block]" using start_inv [OF demo_codecs_ok(1) demo_log st] by metis
  then have l: "cs_load_all (block_c ?N) (ns_store st) = Inr [demo_genesis_block]"
    using cs_load_all_inv [OF demo_codecs_ok(1)] by (simp add: node_inv_def)
  have ready: "wallet_ready ?N st ?w"
    using pk by (simp add: wallet_ready_def demo_wallet_alt WALLET_SIG_ALGO_def pk_for_def demo_crypto_def demo_scheme_def)
  have signs: "\<forall>msg. \<exists>sg. sign (cx (nx ?N)) [] (wal_sig_algo ?w) (wal_secret_key ?w) msg = Inr sg"
    using demo_wallet_signs by simp
  have ne: "wal_address ?w \<noteq> bob" "replicate 20 0 \<noteq> wal_address ?w" "replicate 20 0 \<noteq> bob"
  proof -
    have "wal_address ?w ! 0 = 80" "bob ! 0 = 7" "(replicate 20 0 :: bytes) ! 0 = 0"
      using demo_wallet_address(1) by (simp_all add: bob_def)
    then have "wal_address ?w ! 0 \<noteq> bob ! 0" "replicate 20 0 ! 0 \<noteq> wal_address ?w ! 0" "(replicate 20 0 :: bytes) ! 0 \<noteq> bob ! 0"
      by simp_all
    then show "wal_address ?w \<noteq> bob" "replicate 20 0 \<noteq> wal_address ?w" "replicate 20 0 \<noteq> bob" by metis+
  qed
  have inp: "from_bech32 (node_hash ?N) (trim ?to) = Inr bob" "parse_word (trim ''0'') = Some (0 :: u128)" "parse_word (trim '' 0 '') = Some (0 :: u64)"
  proof -
    have "(char_of (7 :: nat) :: char) = CHR 0x07" by code_simp
    then show "from_bech32 (node_hash ?N) (trim ?to) = Inr bob"
      by (simp add: trim_def is_space_def bob_def from_bech32_def demo_hash_def ACCOUNT_ID_LEN_def ADDRESS_HRP_def)
  qed (simp_all add: trim_def is_space_def parse_word_def Let_def)
  have funds: "unat (0 :: u128) + unat (0 :: u64) \<le> unat (balance (wallet_account ?N st ?w))" by simp
  have N: "hash_ok (node_hash ?N)" "bech32_ok (node_hash ?N)" "hex_ok ?N" "codec_ok (tx_c ?N)" "codec_ok (wit_c ?N)" "crypto_ok (cx (nx ?N))"
    using demo_hash_ok demo_bech32_ok demo_hex_ok demo_codecs_ok demo_crypto_ok by simp_all
  have K: "account_codec_ok (kx (nx ?N))" "codec_ok (reflection_c (kx (nx ?N)))" using wire_cbor_ok by simp_all
  obtain tx wit where s: "build_and_submit_tx ?N [] 2000 st ?w ?to ''0'' '' 0 '' = (Inr (hex_encode ?N (body_hash (node_hash ?N) tx)),
       st\<lparr>ns_mempool := snd (mempool_submit (node_hash ?N) 2000 (ns_mempool st) tx wit)\<rparr>)"
    and p: "pool (snd (mempool_submit (node_hash ?N) 2000 (ns_mempool st) tx wit)) =
       [(body_hash (node_hash ?N) tx, \<lparr> ptx_body = tx, ptx_witness = wit, ptx_received_ms = 2000 \<rparr>)]"
    and c: "call tx = Transfer bob 0" and sp: "\<exists>info. sign_payment ?N [] ?w info bob 0 0 = Inr (tx, wit)"
    by (rule payment_submitted [OF N ready signs inp funds f(2), where now = 2000])
  define st1 where "st1 = st\<lparr>ns_mempool := snd (mempool_submit (node_hash ?N) 2000 (ns_mempool st) tx wit)\<rparr>"
  have b: "expected_bits st1 0x1f00ffff 0 1000 601000 = Some 0x1f00ffff"
    by (rule demo_expected_bits) (simp_all add: st1_def f)
  obtain blk where blk: "miner_candidate ?N 601000 601000 st1 = Some (Inr blk)" "bits (header blk) = 0x1f00ffff"
    "header_wf (header (with_nonce blk 0))"
    by (rule demo_candidate [OF _ b]) (simp_all add: st1_def f)
  have "body (with_nonce blk 0) = pool_body ?N st1" using candidate_fields [OF blk(1)] by blast
  moreover have "pool (ns_mempool st1) = [(body_hash (node_hash ?N) tx, \<lparr> ptx_body = tx, ptx_witness = wit, ptx_received_ms = 2000 \<rparr>)]"
    using p by (simp add: st1_def)
  ultimately have fits: "fits_log (block_c ?N) (with_nonce blk 0)"
    using demo_payment_shape sp block_body_of_pool c by (intro demo_fits_one [OF blk(3), of tx wit bob 0]) (auto simp: bob_def)
  have "\<exists>h st'. (Inr (hex_encode ?N (body_hash (node_hash ?N) tx)) :: gui_error + string) = Inr h \<and> try_apply_block ?N 601000 st1 (with_nonce blk 0) = (Inr (), st') \<and>
      pool (ns_mempool st') = [] \<and>
      (let acct = load_or_default (node_ops ?N) (nx ?N) (ns_state st); acct' = load_or_default (node_ops ?N) (nx ?N) (ns_state st') in
       unat (balance (acct' (wal_address ?w))) + (unat (0 :: u128) + unat (0 :: u64)) = unat (balance (acct (wal_address ?w))) \<and>
       unat (balance (acct' bob)) = unat (balance (acct bob)) + unat (0 :: u128) \<and>
       acct_nonce (acct' (wal_address ?w)) = sat_add (acct_nonce (acct (wal_address ?w))) 1)"
    by (rule wallet_payment_confirmed [OF demo_codecs_ok(1) demo_log st clean_start l _ K demo_emission_bound N ready signs inp funds f(2)
          s [folded st1_def] blk(1) _ _ _ _ fits ne(1)])
      (use demo_pow ne f(9) in \<open>simp_all add: blk(2) demo_genesis_header FUTURE_TIME_TOLERANCE_MS_def demo_genesis_def\<close>)
  then show ?thesis using s [folded st1_def] unfolding Let_def by blast
qed

section \<open>The mining thread\<close>

text \<open>
  Claim C39. A mining thread repeats its work after a hit: when a pass finds a block and the node
  accepts it, the next pass before the template is refreshed hashes the same header once, submits the
  same block, and the node refuses it and is left as it was; the thread counts a rejection and keeps
  its template.
\<close>

theorem miner_resubmits:
  assumes "cs_inv (block_c N) (ns_store st) bs"
    and "worker_pass N now stride wk st = (wk1, st1)" "wk_accepted wk1 = wk_accepted wk + 1"
    and "req_fits N (worker_request wk1)"
  shows "worker_pass N now' stride wk1 st1 =
    (wk1\<lparr>wk_hashes := wk_hashes wk1 + 1, wk_rejected := wk_rejected wk1 + 1\<rparr>, st1)"
proof -
  obtain wk2 where b: "worker_burst N stride 4096 wk = (wk2, True)" "worker_submit N now wk2 st = (wk1, st1)"
    using pass_accepted [OF assms(2,3)] by blast
  obtain blk where s: "wk1 = wk2\<lparr>wk_accepted := wk_accepted wk2 + 1\<rparr>" "worker_decode N wk2 = Inr blk"
      "try_apply_block N now st blk = (Inr (), st1)"
    using submit_accepted [OF b(2)] assms(3) burst_counters [OF b(1)] by auto
  obtain hdr where "header_from_json N (wk_tmpl wk1) = Inr hdr" "meets_target (hash_header (node_hash N) hdr) (wk_target wk1)"
    using burst_hit [OF b(1)] by (auto simp: s(1))
  then have again: "worker_burst N stride (Suc 4095) wk1 = (wk1\<lparr>wk_hashes := wk_hashes wk1 + 1\<rparr>, True)" by (rule burst_again)
  have "fits_log (block_c N) blk" using assms(4) s(1,2) by (simp add: req_fits_def worker_request_def)
  then obtain e where "try_apply_block N now' st1 blk = (Inl e, st1)"
    using accepted_block_refused_again [OF s(3) _ assms(1)] by blast
  then have "worker_submit N now' (wk1\<lparr>wk_hashes := wk_hashes wk1 + 1\<rparr>) st1 =
      (wk1\<lparr>wk_hashes := wk_hashes wk1 + 1, wk_rejected := wk_rejected wk1 + 1\<rparr>, st1)"
    using s(1,2) by (simp add: worker_submit_def worker_request_def rpc_submit_def reply_def)
  then show ?thesis using again by (simp add: worker_pass_def)
qed

theorem miner_resubmits_witness:
  "\<exists>(wk :: worker) wk1 st st1. worker_pass demo_node_ext 601000 4 wk st = (wk1, st1) \<and> wk_accepted wk1 = 1 \<and>
     worker_pass demo_node_ext 601000 4 wk1 st1 = (wk1\<lparr>wk_hashes := 2, wk_rejected := 1\<rparr>, st1)"
proof (rule demo_mined)
  let ?N = demo_node_ext
  fix st blk st'
  assume t: "try_apply_block ?N 601000 st blk = (Inr (), st')" "fits_log (block_c ?N) blk"
    and i: "node_inv ?N st [demo_genesis_block]" "header_wf (header blk)" "body blk = \<lparr> txs = [], witnesses = [] \<rparr>"
  define wk where "wk = \<lparr> wk_tmpl = header_to_json ?N (header blk), wk_target = target_from_bits 0x1f00ffff, wk_txs = [], wk_wits = [],
     wk_hashes = 0, wk_accepted = 0, wk_rejected = 0 \<rparr>"
  define wk1 where "wk1 = wk\<lparr>wk_hashes := 1, wk_accepted := 1\<rparr>"
  have j: "header_from_json ?N (header_to_json ?N (header blk)) = Inr (header blk)"
    by (rule header_json_roundtrip [OF demo_hex_ok i(2)])
  have d: "worker_decode ?N wk = Inr blk" "worker_decode ?N wk1 = Inr blk"
    using i(3) by (simp_all add: wk1_def wk_def decode_submit_def j bind_sum_def)
  have "worker_burst ?N 4 (Suc 4095) wk = (wk\<lparr>wk_hashes := wk_hashes wk + 1\<rparr>, True)"
    by (rule burst_again) (use j demo_pow in \<open>simp_all add: wk_def\<close>)
  then have p: "worker_pass ?N 601000 4 wk st = (wk1, st')"
    using d(1) t(1) by (simp add: worker_pass_def worker_submit_def worker_request_def rpc_submit_def reply_def wk1_def wk_def)
  have "worker_pass ?N 601000 4 wk1 st' = (wk1\<lparr>wk_hashes := wk_hashes wk1 + 1, wk_rejected := wk_rejected wk1 + 1\<rparr>, st')"
  proof (rule miner_resubmits [OF _ p])
    show "cs_inv (block_c ?N) (ns_store st) [demo_genesis_block]" using i(1) by (simp add: node_inv_def)
    show "req_fits ?N (worker_request wk1)" using d(2) t(2) by (simp add: req_fits_def worker_request_def)
  qed (simp add: wk1_def wk_def)
  then have "worker_pass ?N 601000 4 wk1 st' = (wk1\<lparr>wk_hashes := 2, wk_rejected := 1\<rparr>, st')" by (simp add: wk1_def wk_def)
  moreover have "wk_accepted wk1 = 1" by (simp add: wk1_def)
  ultimately show ?thesis using p by blast
qed

section \<open>The desktop application\<close>

text \<open>
  Claim C40. The desktop application stays consistent whatever the user does, timers and threads do,
  and files and node answer, threads interleaved hash by hash. A wallet in memory is the one its
  file holds, unless an interrupted write has truncated the file, and the window shows it; without
  one the file is as found, or truncated. Regenerating replaces both; if directory or file
  cannot be opened it keeps both; an interrupted write keeps the old wallet in memory only, and a
  restart finds none. The mining switch is on exactly while a miner has not been told to stop. A
  thread told to stop goes on for at most the burst and submission under way (4100 steps of its
  own, each bringing it nearer its end), and reaches the node only by submitting. The threads of
  a miner, stopped or not, pay one coinbase, fixed when mining was switched on from the wallet of
  that moment, and split the nonces: in a run too short for them to wrap around 64 bits, the
  nonce of thread \<open>i\<close> of \<open>n\<close> is \<open>i\<close> modulo \<open>n\<close>.
\<close>

theorem app_consistent:
  assumes N: "hash_ok (node_hash N)" "bech32_ok (node_hash N)" "hex_ok N"
    and s: "app_start N A os env cores time rng u0 io d = Some a0" "\<not> ui_mining_on u0" and r: "(app_step N A ^^ m) (a0, st0) (a, st)"
  shows "(case app_wallet a of
       None \<Rightarrow> app_file a \<in> {d, Truncated} \<and> ui_wallet_address (app_ui a) = ''(no wallet)''
     | Some w \<Rightarrow>
         (wallet_load N None (app_file a) = Inr w \<or> app_file a = Truncated) \<and>
         to_bech32 (node_hash N) (wal_address w) = Some (ui_wallet_address (app_ui a)) \<and>
         ui_wallet_pubkey (app_ui a) = hex_encode N (wal_public_key w)) \<and>
    (\<forall>ks io a'. on_regenerate_wallet N A ks io a = Some a' \<longrightarrow>
       app_miner a' = app_miner a \<and> app_stopped a' = app_stopped a \<and>
       (if io \<in> {Some DirFails, Some OpenFails, Some WriteFails}
        then app_wallet a' = app_wallet a \<and> app_file a' = (if io = Some WriteFails then Truncated else app_file a)
        else app_wallet a' = Some (wallet_generate N ks) \<and> wallet_load N None (app_file a') = Inr (wallet_generate N ks))) \<and>
    (\<forall>os env cores time rng u io b. app_start N A os env cores time rng u io Truncated = Some b \<longrightarrow> app_wallet b = None) \<and>
    (ui_mining_on (app_ui a) \<longleftrightarrow> app_miner a \<noteq> None) \<and> (\<forall>h. app_miner a = Some h \<longrightarrow> \<not> mh_stop h) \<and>
    (\<forall>h \<in> set (app_stopped a). mh_stop h \<and>
       (\<forall>i < length (mh_threads h). \<forall>now x s h' s'. thread_step N now x i h s = (h', s') \<longrightarrow>
          stop_rank (pc_of i h') \<le> stop_rank (pc_of i h) - 1 \<and> (\<forall>j. j \<noteq> i \<longrightarrow> pc_of j h' = pc_of j h) \<and>
          (s' \<noteq> s \<longrightarrow> (\<exists>wk. pc_of i h = Submitting wk)))) \<and>
    (\<forall>h \<in> set_option (app_miner a) \<union> set (app_stopped a).
       \<exists>cb. \<forall>i < length (mh_threads h). th_coinbase (mh_threads h ! i) = cb \<and> stop_rank (pc_of i h) \<le> 4100 \<and>
         (\<forall>wk. pc_work (pc_of i h) = Some wk \<longrightarrow>
            hj_coinbase (wk_tmpl wk) = hex_encode N cb \<and>
            (length (mh_threads h) * Suc m \<le> 2 ^ 64 \<longrightarrow> unat (hj_nonce (wk_tmpl wk)) mod length (mh_threads h) = i))) \<and>
    (app_miner a = None \<and> ui_device_index (app_ui a) = 0 \<longrightarrow>
       (\<exists>h. app_miner (on_mine_toggle a) = Some h \<and> length (mh_threads h) = max (ui_intensity (app_ui a)) 1 \<and>
          (\<forall>th \<in> set (mh_threads h). th_coinbase th =
             (case app_wallet a of None \<Rightarrow> replicate 32 0 | Some w \<Rightarrow> pad_to_32 (wal_address w))))) \<and>
    (\<forall>now x i h s h' s'. thread_step N now x i h s = (h', s') \<longrightarrow> map th_coinbase (mh_threads h') = map th_coinbase (mh_threads h))"
  (is "?wallet \<and> ?regen \<and> ?restart \<and> ?switch \<and> ?nostop \<and> ?stopped \<and> ?threads \<and> ?toggle \<and> ?keep")
proof (intro conjI)
  have ok: "app_ok N d m a" using app_ok_run [OF N r] app_ok_start [OF N s] by simp
  show ?wallet using ok by (simp add: app_ok_def wallet_shown_def)
  show ?regen using regenerate_result [OF N] by blast
  show ?restart using start_truncated by blast
  show ?switch ?nostop using ok by (simp_all add: app_ok_def)
  show ?stopped using ok stopped_thread_ends unfolding app_ok_def by blast
  have "miner_ok N m h" if "h \<in> set_option (app_miner a) \<union> set (app_stopped a)" for h
    using ok that by (auto simp: app_ok_def)
  then show ?threads by (intro ballI miner_ok_split)
  show ?toggle using toggle_starts by blast
  show ?keep using thread_step_lists(2) by blast
qed

definition demo_window :: ui where
  "demo_window = \<lparr> ui_wallet_address = [], ui_wallet_pubkey = [], ui_balance_sat = ''0'', ui_wallet_nonce = ''0'', ui_send_to = [],
     ui_send_amount = [], ui_send_fee = ''100'', ui_send_status = [], ui_block_height = ''0'', ui_regime = [],
     ui_halving_progress = [], ui_reward_sat = [], ui_mine_status = ''idle'', ui_hashrate = (0, 1), ui_accepted = ''0'',
     ui_rejected = ''0'', ui_current_target = [], ui_node_tip_hash = [], ui_node_chain_id = [], ui_mining_on = False,
     ui_device_index = 0, ui_intensity = 4, ui_cpu_cores = 1 \<rparr>"

definition demo_app_ext :: app_ext where
  "demo_app_ext = \<lparr> err_text = (\<lambda>e. ''error''), path_text = concat \<rparr>"

lemma demo_client_template:
  assumes "length (ns_coinbase st) = 32" "ns_bits st = 0x1f00ffff" "pool (ns_mempool st) = []"
  obtains t where "client_get_template demo_node_ext now st = Inr t" "mt_target t = target_from_bits 0x1f00ffff"
    "mt_header t = header_to_json demo_node_ext (template_header demo_node_ext now st)"
proof -
  let ?N = demo_node_ext
  obtain resp where "rpc_template ?N now st = Inr resp"
    using template_submit [OF demo_hex_ok demo_codecs_ok(2,3) _ assms(1), of now] demo_hash_ok by auto
  moreover have "length (target_from_bits 0x1f00ffff) = 32" by (simp add: target_genesis_bits)
  ultimately show thesis
    using assms(2) demo_hex_ok
    by (intro that [of "\<lparr> mt_header = tr_header resp, mt_target = target_from_bits 0x1f00ffff, mt_txs_cbor_hex = tr_txs_cbor_hex resp,
           mt_witnesses_cbor_hex = tr_witnesses_cbor_hex resp \<rparr>"])
      (auto simp: client_get_template_def reply_def bind_sum_def hex_ok_def rpc_template_def split: sum.splits)
qed

lemma demo_hit:
  assumes "length (ns_coinbase st) = 32" "length cb = 32" "wk_target wk = target_from_bits 0x1f00ffff"
    "wk_tmpl wk = (header_to_json demo_node_ext (template_header demo_node_ext now st))\<lparr>hj_coinbase := hex_encode demo_node_ext cb, hj_nonce := n\<rparr>"
  shows "try_nonce demo_node_ext stride wk = (wk\<lparr>wk_hashes := wk_hashes wk + 1\<rparr>, Hit)"
proof -
  let ?N = demo_node_ext and ?h = "(template_header demo_node_ext now st)\<lparr>coinbase := cb, nonce := n\<rparr>"
  have wf: "header_wf ?h" using template_header_wf [of ?N st now] demo_hash_ok assms(1,2) by (simp add: header_wf_def)
  have "wk_tmpl wk = header_to_json ?N ?h" by (simp add: assms(4) header_to_json_def)
  then have "miner_try_from ?N (wk_tmpl wk) = Inr ?h" using header_json_roundtrip [OF demo_hex_ok wf] by simp
  then show ?thesis using demo_pow assms(3) by (simp add: try_nonce_def Let_def del: miner_try_from_iff)
qed

text \<open>A miner with two threads, and a run in which it is started and stopped while a thread is hashing.\<close>

definition demo_miner :: "bytes \<Rightarrow> bool \<Rightarrow> u64 \<Rightarrow> thread_pc \<Rightarrow> thread_pc \<Rightarrow> miner_handle" where
  "demo_miner cb stop hs p q =
     \<lparr> mh_stop = stop, mh_hashes = hs, mh_accepted = 0, mh_rejected = 0,
       mh_threads = [\<lparr> th_id = 0, th_stride = 2, th_coinbase = cb, th_pc = p \<rparr>, \<lparr> th_id = 1, th_stride = 2, th_coinbase = cb, th_pc = q \<rparr>] \<rparr>"

lemma demo_miner_start: "miner_start 2 cb = demo_miner cb False 0 AtHead AtHead"
  by (simp add: miner_start_def demo_miner_def upt_rec)

lemma run_threads:
  assumes "(app_step N A ^^ n) p (a, st)" "app_miner a = Some h" "foldl (\<lambda>(h, s) i. thread_step N now x i h s) (h, st) is = (h', st')"
  shows "\<exists>b. (app_step N A ^^ (n + length is)) p (b, st') \<and> app_miner b = Some h' \<and> app_stopped b = app_stopped a"
  using assms
proof (induction "is" arbitrary: n a h st)
  case (Cons i "is")
  obtain g s where g: "thread_step N now x i h st = (g, s)" by fastforce
  from relpowp_Suc_I [OF Cons.prems(1) step_thread [OF Cons.prems(2) g]]
  have "(app_step N A ^^ Suc n) p (a\<lparr>app_miner := Some g\<rparr>, s)" .
  from Cons.IH [OF this, of g] show ?case using Cons.prems(3) g by simp
qed auto

definition demo_worker :: "miner_template \<Rightarrow> bytes \<Rightarrow> u64 \<Rightarrow> worker" where
  "demo_worker t cb i = fresh_worker\<lparr>wk_tmpl := (mt_header t)\<lparr>hj_coinbase := hex_encode demo_node_ext cb, hj_nonce := i\<rparr>,
    wk_target := mt_target t, wk_txs := mt_txs_cbor_hex t, wk_wits := mt_witnesses_cbor_hex t\<rparr>"

lemma demo_worker_counters:
  "load_counters (demo_miner cb s 0 p q) fresh_worker = fresh_worker"
  "load_counters (demo_miner cb s 0 p q) (demo_worker t cb' i) = demo_worker t cb' i"
  "store_counters ((demo_worker t cb' i)\<lparr>wk_hashes := 1\<rparr>) (demo_miner cb s 0 p q) = demo_miner cb s 1 p q"
  "wk_hashes fresh_worker = 0"
  by (simp_all add: load_counters_def store_counters_def demo_miner_def fresh_worker_def demo_worker_def)

lemma demo_miner_fields:
  "set_pc 0 p' (demo_miner cb s hs p q) = demo_miner cb s hs p' q"
  "set_pc (Suc 0) q' (demo_miner cb s hs p q) = demo_miner cb s hs p q'"
  "length (mh_threads (demo_miner cb s hs p q)) = 2" "mh_stop (demo_miner cb s hs p q) = s"
  "mh_threads (demo_miner cb s hs p q) ! 0 = \<lparr> th_id = 0, th_stride = 2, th_coinbase = cb, th_pc = p \<rparr>"
  "mh_threads (demo_miner cb s hs p q) ! Suc 0 = \<lparr> th_id = 1, th_stride = 2, th_coinbase = cb, th_pc = q \<rparr>"
  by (simp_all add: set_pc_def demo_miner_def)

text \<open>Both threads fetch a template, and the first begins a burst.\<close>

lemma demo_fetch:
  assumes "client_get_template demo_node_ext 601000 st = Inr t"
  shows "foldl (\<lambda>(h, s) i. thread_step demo_node_ext 601000 False i h s) (demo_miner cb False 0 AtHead AtHead, st) [0, 1, 0, 1, 0] =
    (demo_miner cb False 0 (Hashing 4096 (demo_worker t cb 0)) (AtCheck (demo_worker t cb 1)), st)"
proof -
  have "worker_start demo_node_ext 601000 st i cb fresh_worker = Some (demo_worker t cb i)" for i
    by (simp add: worker_start_def assms demo_worker_def)
  then show ?thesis by (simp add: thread_step_def demo_miner_fields demo_worker_counters)
qed

lemma demo_run:
  assumes a: "app_miner a = None" "ui_device_index (app_ui a) = 0" "ui_intensity (app_ui a) = 2" "app_wallet a = Some demo_wallet" "app_stopped a = []"
    and st: "length (ns_coinbase st) = 32" "ns_bits st = 0x1f00ffff" "pool (ns_mempool st) = []"
  obtains b w0 w1 where "(app_step demo_node_ext demo_app_ext ^^ 8) (a, st) (b, st)" "app_miner b = None"
    "app_stopped b = [demo_miner (pad_to_32 (wal_address demo_wallet)) True 1 (Submitting w0) (AtCheck w1)]"
proof -
  let ?N = demo_node_ext and ?cb = "pad_to_32 (wal_address demo_wallet)"
  let ?run = "\<lambda>n b. (app_step demo_node_ext demo_app_ext ^^ n) (a, st) (b, st)"
  obtain t where t: "client_get_template ?N 601000 st = Inr t" "mt_target t = target_from_bits 0x1f00ffff"
    "mt_header t = header_to_json ?N (template_header ?N 601000 st)" by (rule demo_client_template [OF st])
  let ?w = "demo_worker t ?cb" and ?m = "demo_miner ?cb"
  have hit: "try_nonce ?N 2 (?w 0) = ((?w 0)\<lparr>wk_hashes := 1\<rparr>, Hit)"
    using demo_hit [OF st(1), where cb = ?cb and wk = "?w 0" and now = 601000 and n = 0 and stride = 2] t(2,3) demo_wallet_address(2)
    by (simp add: demo_worker_def length_pad_to_32 demo_worker_counters(4))
  have "?run 0 a" by simp
  from relpowp_Suc_I [OF this step_toggle] have r1: "?run (Suc 0) (on_mine_toggle a)" .
  have m1: "app_miner (on_mine_toggle a) = Some (?m False 0 AtHead AtHead)" "app_stopped (on_mine_toggle a) = []"
    using a by (simp_all add: on_mine_toggle_def Let_def demo_miner_start [unfolded numeral_2_eq_2])
  have six: "Suc 0 + length [0, 1, 0, 1, 0 :: nat] = 6" by simp
  from run_threads [OF r1 m1(1) demo_fetch [OF t(1)], unfolded six m1(2)]
  obtain b where b: "?run 6 b" "app_miner b = Some (?m False 0 (Hashing 4096 (?w 0)) (AtCheck (?w 1)))" "app_stopped b = []"
    by (elim exE conjE)
  from relpowp_Suc_I [OF b(1) step_toggle] have r7: "?run (Suc 6) (on_mine_toggle b)" .
  have m7: "app_miner (on_mine_toggle b) = None" "app_stopped (on_mine_toggle b) = [?m True 0 (Hashing 4096 (?w 0)) (AtCheck (?w 1))]"
    using b(2,3) by (simp_all add: on_mine_toggle_def demo_miner_def)
  let ?h = "?m True 1 (Submitting ((?w 0)\<lparr>wk_hashes := 1\<rparr>)) (AtCheck (?w 1))"
  have s8: "thread_step ?N 601000 False 0 (?m True 0 (Hashing 4096 (?w 0)) (AtCheck (?w 1))) st = (?h, st)"
    by (simp add: thread_step_def demo_miner_fields demo_worker_counters hit after_attempt_def Let_def)
  have eight: "Suc (Suc 6) = (8 :: nat)" by simp
  have r8: "?run (Suc (Suc 6)) ((on_mine_toggle b)\<lparr>app_stopped := [?h]\<rparr>)"
    using relpowp_Suc_I [OF r7 step_stopped [where j = 0 and i = 0 and now = 601000 and expired = False]] m7(2) s8 by simp
  show thesis by (rule that [OF r8 [unfolded eight]]) (use m7(1) in simp_all)
qed
theorem app_consistent_witness:
  "\<exists>a0 (st :: node_state) b h w0 w1.
     app_start demo_node_ext demo_app_ext OtherPlatform (\<lambda>v. None) 4 0 (replicate 32 5) demo_window None NoFile = Some a0 \<and>
     (app_step demo_node_ext demo_app_ext ^^ 8) (a0, st) (b, st) \<and> \<not> ui_mining_on (app_ui b) \<and>
     app_stopped b = [h] \<and> mh_stop h \<and> pc_of 0 h = Submitting w0 \<and> pc_of 1 h = AtCheck w1 \<and>
     (\<forall>s h' s'. thread_step demo_node_ext 601000 False 0 h s = (h', s') \<longrightarrow> stop_rank (pc_of 0 h') \<le> 2) \<and>
     unat (hj_nonce (wk_tmpl w0)) mod 2 = 0 \<and> unat (hj_nonce (wk_tmpl w1)) mod 2 = 1"
proof (rule demo_start)
  fix st :: node_state
  assume f: "ns_bits st = 0x1f00ffff" "pool (ns_mempool st) = []" "length (ns_coinbase st) = 32"
  let ?N = demo_node_ext and ?A = demo_app_ext
  let ?start = "app_start ?N ?A OtherPlatform (\<lambda>v. None) 4 0 (replicate 32 5) demo_window None NoFile"
  obtain s where s: "to_bech32 (node_hash ?N) (wal_address demo_wallet) = Some s"
    using bech32_roundtrip [OF demo_bech32_ok demo_wallet_address(2)] by auto
  obtain d where "wallet_save ?N None demo_wallet NoFile = (Inr (), d)"
    using s unfolding wallet_save_def Let_def by (simp only: option.simps if_False)
  then have lc: "load_or_create ?N (replicate 32 5) None NoFile = (Inr demo_wallet, d)"
    unfolding load_or_create_def Let_def demo_wallet_def [symmetric] by simp
  have "\<exists>a0. ?start = Some a0 \<and> app_miner a0 = None \<and> ui_device_index (app_ui a0) = 0 \<and> ui_intensity (app_ui a0) = 2 \<and>
      app_wallet a0 = Some demo_wallet \<and> app_stopped a0 = []"
    using s unfolding app_start_def Let_def lc show_wallet_def by (simp add: demo_window_def)
  then obtain a0 where a0: "?start = Some a0" "app_miner a0 = None" "ui_device_index (app_ui a0) = 0" "ui_intensity (app_ui a0) = 2"
      "app_wallet a0 = Some demo_wallet" "app_stopped a0 = []"
    by blast
  obtain b w0 w1 where b: "(app_step ?N ?A ^^ 8) (a0, st) (b, st)" "app_miner b = None"
    "app_stopped b = [demo_miner (pad_to_32 (wal_address demo_wallet)) True 1 (Submitting w0) (AtCheck w1)]" (is "_ = [?h]")
    by (rule demo_run [OF a0(2-6) f(3,1,2)])
  have l: "length (mh_threads ?h) = 2" "pc_of 0 ?h = Submitting w0" "pc_of 1 ?h = AtCheck w1" by (simp_all add: demo_miner_def)
  note T = app_consistent [OF _ _ _ a0(1) _ b(1), unfolded b(2,3)]
  have N: "hash_ok (node_hash ?N)" "bech32_ok (node_hash ?N)" "hex_ok ?N" "\<not> ui_mining_on demo_window"
    by (simp_all add: demo_hash_ok demo_bech32_ok demo_hex_ok demo_window_def)
  have "\<not> ui_mining_on (app_ui b)" using T [OF N] by blast
  moreover have "mh_stop ?h \<and> (\<forall>s h' s'. thread_step ?N 601000 False 0 ?h s = (h', s') \<longrightarrow> stop_rank (pc_of 0 h') \<le> stop_rank (pc_of 0 ?h) - 1)"
    using T [OF N] l(1) by simp
  moreover have "\<exists>cb. \<forall>i < length (mh_threads ?h). th_coinbase (mh_threads ?h ! i) = cb \<and> stop_rank (pc_of i ?h) \<le> 4100 \<and>
      (\<forall>wk. pc_work (pc_of i ?h) = Some wk \<longrightarrow>
         hj_coinbase (wk_tmpl wk) = hex_encode ?N cb \<and>
         (length (mh_threads ?h) * Suc 8 \<le> 2 ^ 64 \<longrightarrow> unat (hj_nonce (wk_tmpl wk)) mod length (mh_threads ?h) = i))"
    by (rule T [OF N, THEN conjunct2, THEN conjunct2, THEN conjunct2, THEN conjunct2, THEN conjunct2, THEN conjunct2, THEN conjunct1, THEN bspec]) simp
  then have "unat (hj_nonce (wk_tmpl w0)) mod 2 = 0" "unat (hj_nonce (wk_tmpl w1)) mod 2 = 1" using l by fastforce+
  moreover have "stop_rank (pc_of 0 ?h) - 1 = 2" using l(2) by simp
  ultimately show ?thesis using a0(1) b(1,3) l(2,3) by (metis (no_types))
qed

section \<open>The contract host function\<close>

text \<open>
  Claim C37. The host function for reflection records is memory safe: whatever pointers a contract
  passes, the call returns, the linear memory keeps its size, and a negative result (-1, -2 or -3)
  leaves the memory unchanged. A result \<open>n \<ge> 0\<close> means that the record under the key the contract named
  has \<open>n\<close> bytes and fits the buffer, that these bytes now stand at the output pointer, and that every
  other byte is unchanged. Without an exported memory the result is -3.
\<close>

theorem vm_host_memory_safe:
  "chain_reflect_get reflect None kp kl op ol = (- 3, None) \<and>
   (\<exists>r data'. chain_reflect_get reflect (Some data) kp kl op ol = (r, Some data') \<and> length data' = length data \<and>
     (if sint r < 0 then data' = data \<and> sint r \<in> {- 1, - 2, - 3}
      else \<exists>v. reflect (take (unat kl) (drop (unat kp) data)) = Some v \<and> int (length v) = sint r \<and> length v \<le> unat ol \<and>
        take (length v) (drop (unat op) data') = v \<and>
        (\<forall>i. i < unat op \<or> unat op + length v \<le> i \<longrightarrow> i < length data \<longrightarrow> data' ! i = data ! i)))"
proof (intro conjI)
  obtain r mem' where g: "chain_reflect_get reflect (Some data) kp kl op ol = (r, mem')" by (metis prod.collapse)
  obtain data' where m: "mem' = Some data'" "length data' = length data" "sint r < 0 \<Longrightarrow> data' = data \<and> sint r \<in> {- 1, - 2, - 3}"
    "0 \<le> sint r \<Longrightarrow> \<exists>v. reflect (take (unat kl) (drop (unat kp) data)) = Some v \<and> int (length v) = sint r \<and>
       length v \<le> unat ol \<and> unat op + length v \<le> length data \<and> data' = put_slice data (unat op) v"
    using reflect_get_memory [OF g] by blast
  show "\<exists>r data'. chain_reflect_get reflect (Some data) kp kl op ol = (r, Some data') \<and> length data' = length data \<and>
     (if sint r < 0 then data' = data \<and> sint r \<in> {- 1, - 2, - 3}
      else \<exists>v. reflect (take (unat kl) (drop (unat kp) data)) = Some v \<and> int (length v) = sint r \<and> length v \<le> unat ol \<and>
        take (length v) (drop (unat op) data') = v \<and>
        (\<forall>i. i < unat op \<or> unat op + length v \<le> i \<longrightarrow> i < length data \<longrightarrow> data' ! i = data ! i))"
  proof (cases "sint r < 0")
    case True
    then show ?thesis using g m(1-3) by auto
  next
    case False
    then obtain v where v: "reflect (take (unat kl) (drop (unat kp) data)) = Some v" "int (length v) = sint r" "length v \<le> unat ol"
      "unat op + length v \<le> length data" "data' = put_slice data (unat op) v" using m(4) by auto
    have "take (length v) (drop (unat op) data') = v" using v(4,5) by (simp add: put_slice_def)
    moreover have "\<forall>i. i < unat op \<or> unat op + length v \<le> i \<longrightarrow> i < length data \<longrightarrow> data' ! i = data ! i"
      using nth_put_slice [OF v(4)] v(5) by auto
    ultimately show ?thesis using False g m(1,2) v(1-3) by auto
  qed
qed (simp add: chain_reflect_get_def)

theorem vm_host_memory_safe_witness:
  "chain_reflect_get (\<lambda>key. if key = [1] then Some [8, 9] else None) (Some [1, 0, 0, 0]) 0 1 2 2 = (2, Some [1, 0, 8, 9])"
proof -
  let ?r = "\<lambda>key :: bytes. if key = [1] then Some [8, 9 :: u8] else None"
  have "chain_reflect_get ?r (Some [1, 0, 0, 0]) 0 1 2 2 = (2, Some [1, 0, 8, 9])"
    by (simp add: chain_reflect_get_def slice_end_def get_slice_def put_slice_def Let_def)
  moreover have "fst (chain_reflect_get ?r None 0 1 2 2) = - 3" using vm_host_memory_safe [of ?r] by simp
  ultimately show ?thesis by simp
qed

section \<open>The command-line client\<close>

text \<open>
  Claim C38. What the command-line client shows of a running node: \<open>state-root\<close> prints the state root of
  the tip; \<open>get-balance\<close> prints a balance of zero for every valid address, whatever its balance, because
  it reads a field the node does not send; and \<open>emission-series\<close> always fails with status 400, because
  it sends parameters the node does not know. None of them changes the node.
\<close>

theorem cli_reports:
  assumes "node_inv N st bs" "codec_ok (block_c N)" "length bs \<le> 2 ^ 64" "from_bech32 (node_hash N) a = Inr i"
    and "\<forall>mp \<in> {(''get_info'', JObj []), (''get_block'', JObj [(''height'', jword (height (header (last bs))))]),
      (''get_balance'', JObj [(''address'', JStr a)]), cli_params (CliEmissionSeries from to step)}. json_wire C X mp"
  shows "cli_main C X N now False CliStateRoot st = (Inr [hex_encode N (state_root (header (last bs)))], st) \<and>
    cli_main C X N now False (CliGetBalance a) st = (Inr [a @ '' balance = 0 sat''], st) \<and>
    cli_main C X N now False (CliEmissionSeries from to step) st = (Inl (HttpStatus 400), st)"
  using cli_state_root_tip [OF _ _ assms(1-3)] cli_balance_zero [OF _ assms(4)] cli_emission_refused assms(5) by simp

definition demo_calls :: "(string \<times> json) list" where
  "demo_calls = [(''get_info'', JObj []), (''get_block'', JObj [(''height'', jword (0 :: u64))]),
     (''get_balance'', JObj [(''address'', JStr (map (\<lambda>b. char_of (unat b)) bob))]), cli_params (CliEmissionSeries 0 None 1)]"

text \<open>A wire format for the calls of the example: a call is sent as its number.\<close>

definition demo_cli :: cli_ext where
  "demo_cli = \<lparr> json_bytes = (\<lambda>v. if v = rpc_envelope (fst (demo_calls ! 0)) (snd (demo_calls ! 0)) then [0]
       else if v = rpc_envelope (fst (demo_calls ! 1)) (snd (demo_calls ! 1)) then [1]
       else if v = rpc_envelope (fst (demo_calls ! 2)) (snd (demo_calls ! 2)) then [2] else [3]),
     json_text = (\<lambda>v. ''value''), json_width = (\<lambda>n v. ''value''), json_pretty = (\<lambda>v. ''value'') \<rparr>"

definition demo_server :: http_ext where
  "demo_server = demo_http\<lparr>parse_rpc_req := (\<lambda>b. case b of [n] \<Rightarrow> Inr (map_prod id reparse (demo_calls ! unat n)) | _ \<Rightarrow> Inl ''eof'')\<rparr>"

lemma rpc_envelope_inj [simp]: "rpc_envelope m p = rpc_envelope m' p' \<longleftrightarrow> m = m' \<and> p = p'"
  by (simp add: rpc_envelope_def)

lemma demo_methods:
  "fst (demo_calls ! 0) = ''get_info''" "fst (demo_calls ! Suc 0) = ''get_block''" "fst (demo_calls ! 2) = ''get_balance''"
  "fst (demo_calls ! 3) = ''emission_series''"
  by (simp_all add: demo_calls_def cli_params_def)

lemma demo_wire_nth:
  assumes "i < 4"
  shows "json_wire demo_cli demo_server (demo_calls ! i)"
proof -
  have "i = 0 \<or> i = 1 \<or> i = 2 \<or> i = 3" using assms by linarith
  then have "json_bytes demo_cli (rpc_envelope (fst (demo_calls ! i)) (snd (demo_calls ! i))) = [of_nat i]"
    by (elim disjE) (simp_all add: demo_cli_def demo_methods)
  moreover have "unat (of_nat i :: u8) = i" using assms by (simp add: unat_of_nat)
  ultimately show ?thesis by (simp add: json_wire_def split_beta demo_server_def MAX_RPC_BODY_BYTES_def map_prod_def)
qed

lemma demo_wire: "\<forall>mp \<in> set demo_calls. json_wire demo_cli demo_server mp"
proof
  fix mp assume "mp \<in> set demo_calls"
  then obtain i where "i < length demo_calls" "mp = demo_calls ! i" by (metis in_set_conv_nth)
  then show "json_wire demo_cli demo_server mp" using demo_wire_nth by (simp add: demo_calls_def)
qed

theorem cli_reports_witness:
  "\<exists>st :: node_state. cli_main demo_cli demo_server demo_node_ext 2000 False CliStateRoot st =
     (Inr [hex_encode demo_node_ext (state_root (header demo_genesis_block))], st)"
proof (rule demo_mined)
  fix st :: node_state
  assume i: "node_inv demo_node_ext st [demo_genesis_block]"
  let ?a = "map (\<lambda>b. char_of (unat b)) bob"
  have "from_bech32 (node_hash demo_node_ext) ?a = Inr bob"
    by (simp add: bob_def from_bech32_def demo_hash_def ACCOUNT_ID_LEN_def ADDRESS_HRP_def)
  from cli_reports [OF i demo_codecs_ok(1) _ this, of 0 None 1 demo_cli demo_server 2000] show ?thesis
    using demo_wire [unfolded demo_calls_def] by (auto simp: demo_genesis_header)
qed

end
