(* ===== verification/Spec2Isabelle.thy ===== *)
theory Spec2Isabelle
  imports Claims_Core Claims_State Claims_Net Claims_Node Claims_Client
begin

text \<open>
  A verification development for PyGrove Chain, a proof-of-work block chain node in Rust.

  \<^bold>\<open>The program.\<close> The crates under \<open>src/crates\<close> form layers. \<open>core\<close> has hashing, addresses,
  transactions and blocks; \<open>consensus\<close> has proof of work, the ASERT difficulty rule, the exact
  256-bit retarget, the calendar emission and an adaptive controller that nothing calls yet; \<open>crypto\<close> dispatches signatures; \<open>state\<close> keeps
  accounts and records in a store and applies blocks to it, with threshold governance;
  \<open>finality\<close> verifies certificates of a validator committee; \<open>p2p\<close> has message envelopes and a
  broker; \<open>node\<close> ties them together: a log of blocks on disk, a mempool, replay at start-up, a
  self-miner and a JSON-RPC server over HTTP, all of which accept blocks through one function,
  \<open>try_apply_block\<close>, and a command-line client; \<open>vm\<close> wraps a WebAssembly engine for contracts (block application does not call
  it yet); \<open>gui\<close> is a desktop client with a wallet and mining threads.

  \<^bold>\<open>Conventions.\<close> Integers have the width of the source (\<open>u8\<close> to \<open>u128\<close> are words); checked and
  saturating operations are written out, plain ones wrap as in a release build, and a panic (an arithmetic \<open>clamp\<close> with crossed bounds)
  is an error value. Byte strings are lists of \<open>u8\<close>, \<open>[u8; n]\<close> is a list whose length the
  well-formedness predicates fix. Errors are values of a sum type. State is passed explicitly.
  Digests, signature schemes, bech32, hex, CBOR and the database are third-party code: they are
  fields of \<open>hash_ext\<close>, \<open>crypto_ext\<close>, \<open>cbor_ext\<close>, \<open>ext\<close> and \<open>node_ext\<close>, JSON text of \<open>http_ext\<close> and \<open>cli_ext\<close>,
  the fixed-point type of \<open>fixed_ext\<close>, and what a theorem needs of
  them is a named hypothesis (\<open>hash_ok\<close>, \<open>crypto_ok\<close>, \<open>codec_ok\<close>, \<open>account_codec_ok\<close>,
  \<open>hex_ok\<close>, \<open>json_wire\<close>, \<open>http_bounded\<close>, \<open>fixed_ok\<close>, injectivity of a digest on the preimages involved). \<open>Instance\<close> and \<open>Instance_Node\<close> build a concrete
  instance of all of it, on which the witnesses apply the theorems.

  \<^bold>\<open>Theories and sources.\<close>
  \<^item> \<open>Pg_Prelude\<close>, \<open>Pg_BTree\<close>: words as numbers (collection \<open>word_nat\<close>), byte encodings, ordered maps
    as sorted association lists with a locale of map laws.
  \<^item> \<open>Core_Hash\<close> (\<open>core/src/hash.rs\<close>, \<open>address.rs\<close>), \<open>Core_Tx\<close> (\<open>core/src/tx.rs\<close>, \<open>block.rs\<close>): data and canonical encodings,
    with injectivity of every preimage.
  \<^item> \<open>Consensus_Pow\<close>, \<open>Consensus_Asert\<close>, \<open>Consensus_Retarget\<close>, \<open>Consensus_Emission\<close>
    (\<open>consensus/src/pow.rs\<close>, \<open>asert.rs\<close>, \<open>retarget.rs\<close>, \<open>emission.rs\<close>, \<open>reflection.rs\<close>),
    \<open>Consensus_Accordion\<close> (\<open>accordion.rs\<close>).
  \<^item> \<open>Crypto\<close> (\<open>crypto/src/lib.rs\<close>, \<open>falcon.rs\<close>, \<open>slhdsa.rs\<close>, \<open>bls.rs\<close>): key generation and dispatch for every combination of build features.
  \<^item> \<open>State_Store\<close> (\<open>state/src/store.rs\<close>, \<open>rocks_store.rs\<close>, \<open>subtrees.rs\<close>): the locale \<open>state_store\<close> is the
    contract of the trait \<open>StateStore\<close>, interpreted on the in-memory and on the database store. \<open>State_Faults\<close> is the database store over a database
    that can fail; the locale \<open>fail_stop\<close> is a store that follows another until it stops, interpreted on failing writes.
  \<^item> \<open>State_Data\<close>, \<open>State_Governance\<close>, \<open>State_Apply\<close> (\<open>state/src/accounts.rs\<close>, \<open>apply.rs\<close>): records,
    threshold proofs, and \<open>apply_block\<close> with validation, transfers, effects, coinbase and activation.
    \<open>State_Ledger\<close>, \<open>State_Accounting\<close>, \<open>State_Rules\<close> prove, inside the store contract, that it
    refines transfers on a function from accounts to balances, that money is conserved, and the
    rules on nonces, signatures, records and governance; \<open>State_Attest\<close> adds who may write attestations and
    coordinator lists, \<open>State_Errors\<close> what a rejected block leaves behind.
  \<^item> \<open>Finality\<close> (\<open>finality/src/lib.rs\<close>): the locale \<open>quorum_cert\<close> is what a certificate promises; it
    is interpreted on plain and on aggregated certificates.
  \<^item> \<open>P2p\<close> (\<open>p2p/src/lib.rs\<close>): envelopes, and the broker against a specification on histories.
  \<^item> \<open>Mempool\<close>, \<open>Chainstore\<close>, \<open>Node_Mining\<close>, \<open>Node\<close>, \<open>Rpc\<close> (\<open>node/src/mempool.rs\<close>, \<open>chainstore.rs\<close>,
    \<open>genesis.rs\<close>, \<open>mining.rs\<close>, \<open>main.rs\<close>, \<open>rpc.rs\<close>): the parts of the node. \<open>Node_Chain\<close> has the step relation
    \<open>node_step\<close> and the invariant \<open>node_inv\<close>, \<open>Node_Replay\<close> restarts and issuance, \<open>Node_Live\<close> mining
    and the RPC round trips, \<open>Node_Race\<close> two threads in \<open>try_apply_block\<close>, \<open>Node_Main\<close> the subcommands and \<open>main\<close> with
    the files of the node.
  \<^item> \<open>Http\<close> (\<open>node/src/rpc.rs\<close>: \<open>serve\<close>, \<open>read_bounded_body\<close>, the request and response structs, \<open>prometheus_metrics\<close>): routes,
    body limit, JSON values and metrics around \<open>rpc_dispatch\<close>. \<open>Cli\<close> (\<open>node/src/cli.rs\<close>): the commands of the
    client against that server, and what they print.
  \<^item> \<open>Vm\<close> (\<open>vm/src/lib.rs\<close>, \<open>wasmtime_backend.rs\<close>): the backends and the host function on linear memory.
  \<^item> \<open>Gui\<close> (\<open>gui/src/wallet.rs\<close>, \<open>rpc_client.rs\<close>, \<open>miner.rs\<close>, \<open>build_and_submit_tx\<close> of \<open>main.rs\<close>): the client,
    whose requests go to \<open>rpc_dispatch\<close> of the node; \<open>Gui_App\<close> (\<open>main\<close> of \<open>main.rs\<close>, \<open>start\<close> of \<open>miner.rs\<close>): the application as
    a step relation over its callbacks, timers and mining threads, which take one hash, request or test at a time and go
    on after they are told to stop until they see the flag. The wallet file is missing, no wallet, truncated, or a wallet; where a
    read or a write fails is an argument of the operation.
  \<^item> \<open>Wire\<close>, \<open>Instance\<close>, \<open>Instance_Node\<close>: the concrete instance.
  \<^item> \<open>Claims_Core\<close>, \<open>Claims_State\<close>, \<open>Claims_Net\<close>, \<open>Claims_Node\<close>, \<open>Claims_Client\<close>: the properties, each after a text with
    its number, with their witnesses.

  \<^bold>\<open>What is shown.\<close> Block application conserves money, takes it only with a signature of the
  owner, moves nonces in order, and is the same on both stores, failing writes included; governance calls need a quorum, attestations a
  signed call of a registered coordinator. A rejected block leaves exactly a prefix of its transfers behind. The first
  \<open>init\<close> and \<open>run\<close> on an empty directory start a valid chain, and a
  node started on a valid log keeps a valid chain whatever HTTP requests reach it, each of which
  appends at most one well-formed block; a restart restores its
  state, balances add up to the issued amount, and the issued amount stays within the cap plus a
  fixed slack. Difficulty bits stay in range, move within eight percent and the retarget is exact;
  the schedule is monotone and capped; the adaptive controller's factors stay between zero and
  one or above one as its regime says. Block hashes and signing hashes commit to what they
  should. A transfer request is pooled exactly as it was signed; a payment built by the wallet is accepted, mined and credited; the desktop
  application keeps window, wallet, wallet file and mining threads consistent, its threads split the nonces, and threads told to
  stop end within a burst and a submission. A contract cannot reach memory
  outside its own through the host function. Conflicting finality certificates convict their common signers. The block log, the
  templates of the RPC (through JSON and back) and signatures under generated keys round-trip; the nonce searches end exactly
  if a nonce exists.
  Several properties state behaviour that the code does not mean to have, each proved with its
  conditions: a refused block may change the store and lose fees, a read fault of the database passes for a missing account, two threads can append two blocks of one
  height, a padded bitmap passes for a quorum, templates go stale, the command-line client prints zero
  balances, one transaction that
  cannot be applied stalls the miner, a mining thread submits a found block again and again, regenerating a wallet can leave the old key only in memory, a torn
  log is appended to, small rewards are trapped.

  \<^bold>\<open>Bounds and loops.\<close> All recursive functions are total, by structure or with a measure
  (\<open>read_blocks\<close> and \<open>arg_lanes\<close> by the length of the input, \<open>trim_end_matches\<close> by the length of the text, \<open>show_nat\<close> and \<open>show_hex\<close> by the number, the
  emission epochs by a counter of at most 64 halvings); there is no
  fuel. Only \<open>mine_loop\<close> and \<open>self_mine_search\<close> may run forever: each is a \<open>partial_function\<close> whose
  \<open>None\<close> is the search that never ends. Chains of up to \<open>2 ^ 64\<close> blocks are covered where heights matter; a block must encode
  to less than \<open>2 ^ 32\<close> bytes to fit the length field of the log.

  \<^bold>\<open>Not modelled.\<close> The HTTP server and client, JSON and TOML text, logging, the clock and random bytes (arguments), disk
  failures of the block log other than an early end of file, command-line
  parsing, drawing and the hash rate text of the desktop application, and the WebAssembly engine (a parameter). Apart
  from \<open>Node_Race\<close> an operation of the node is atomic, and so is a callback of the desktop application, whose mining
  threads interleave. Starting a thread is taken to succeed.
\<close>

end
